(* ===== verification/Wrapper_Prelude.thy ===== *)
theory Wrapper_Prelude
  imports Main "HOL-Library.Word" "HOL-Library.Sublist"
begin

text \<open>
  Shared vocabulary of the development: the types that stand for the C++ character and buffer
  types, the outcome of a C++ callback (a returned value, a thrown \<^verbatim>\<open>std::exception\<close>, a wait
  on a condition variable, or a crash), the operations of \<^verbatim>\<open>std::basic_string\<close> the sources use,
  and the generic list lemmas the components share.
\<close>

named_theorems handler_simps "unfolding rules for the callbacks visible to JavaScript"
named_theorems string_simps "facts on std::basic_string searches"

section \<open>Types\<close>

text \<open>A \<^verbatim>\<open>char\<close> is 8 bits wide, as HOL's \<open>char\<close> is, so \<^verbatim>\<open>std::string\<close> and raw byte buffers are
  \<open>string\<close>. \<^verbatim>\<open>wchar_t\<close> is 16 bits wide on Windows.\<close>

type_synonym bytes = string
type_synonym wchar = "16 word"
type_synonym wstring = "wchar list"
type_synonym u32 = "32 word"
type_synonym u64 = "64 word"

abbreviation wslash :: wchar where "wslash \<equiv> 47"
abbreviation wbackslash :: wchar where "wbackslash \<equiv> 92"
abbreviation wdot :: wchar where "wdot \<equiv> 46"

section \<open>Outcome of a callback\<close>

text \<open>
  \<open>Return\<close> is a normal return, \<open>Throw\<close> a C++ exception with its \<^verbatim>\<open>what()\<close> text, \<open>Block\<close> a call
  that has to wait on \<^verbatim>\<open>thread_count_cv\<close>, \<open>Crash\<close> undefined behaviour or a fatal V8 check
  (\<^verbatim>\<open>ToLocalChecked\<close> on an empty handle). A callback returns an outcome together with the state
  it leaves behind, so that effects made before an exception are kept.
\<close>

datatype 'a outcome = Return 'a | Throw string | Block | Crash

type_synonym ('a, 's) result = "'a outcome \<times> 's"

definition or_throw :: "string + 'a \<Rightarrow> 's \<Rightarrow> ('a \<Rightarrow> ('r, 's) result) \<Rightarrow> ('r, 's) result" where
  "or_throw c s k = (case c of Inl e \<Rightarrow> (Throw e, s) | Inr x \<Rightarrow> k x)"

lemma or_throw_simps [simp]:
  "or_throw (Inl e) s k = (Throw e, s)"
  "or_throw (Inr x) s k = k x"
  by (simp_all add: or_throw_def)

lemma or_throw_Throw:
  assumes "\<And>x. c = Inr x \<Longrightarrow> fst (k x) = Throw e"
    and "\<And>x. c = Inl x \<Longrightarrow> x = e"
  shows "fst (or_throw c s k) = Throw e"
  using assms by (cases c) (simp_all add: or_throw_def)

text \<open>Sequencing of two calls: the second one runs only if the first returned.\<close>

definition chain :: "('a, 's) result \<Rightarrow> ('a \<Rightarrow> 's \<Rightarrow> ('b, 's) result) \<Rightarrow> ('b, 's) result" where
  "chain r k =
     (case r of
        (Return a, s) \<Rightarrow> k a s
      | (Throw e, s) \<Rightarrow> (Throw e, s)
      | (Block, s) \<Rightarrow> (Block, s)
      | (Crash, s) \<Rightarrow> (Crash, s))"

lemma chain_simps [simp]:
  "chain (Return a, s) k = k a s"
  "chain (Throw e, s) k = (Throw e, s)"
  "chain (Block, s) k = (Block, s)"
  "chain (Crash, s) k = (Crash, s)"
  by (simp_all add: chain_def)

section \<open>Operations of \<open>std::basic_string\<close>\<close>

text \<open>\<open>std_find s pat pos\<close> is \<^verbatim>\<open>s.find(pat, pos)\<close>, with \<open>None\<close> for \<^verbatim>\<open>npos\<close>; \<open>std_find_last\<close> is
  \<^verbatim>\<open>find_last_of\<close> with a single character; \<open>std_replace\<close> is \<^verbatim>\<open>replace(pos, n, r)\<close>.\<close>

primrec find_sub :: "'a list \<Rightarrow> 'a list \<Rightarrow> nat option" where
  "find_sub pat [] = (if pat = [] then Some 0 else None)"
| "find_sub pat (c # s) =
     (if take (length pat) (c # s) = pat then Some 0 else map_option Suc (find_sub pat s))"

definition std_find :: "'a list \<Rightarrow> 'a list \<Rightarrow> nat \<Rightarrow> nat option" where
  "std_find s pat pos =
     (if pos \<le> length s then map_option (\<lambda>i. pos + i) (find_sub pat (drop pos s)) else None)"

primrec std_find_last :: "'a list \<Rightarrow> 'a \<Rightarrow> nat option" where
  "std_find_last [] c = None"
| "std_find_last (x # s) c =
     (case std_find_last s c of
        Some i \<Rightarrow> Some (Suc i)
      | None \<Rightarrow> (if x = c then Some 0 else None))"

definition std_replace :: "'a list \<Rightarrow> nat \<Rightarrow> nat \<Rightarrow> 'a list \<Rightarrow> 'a list" where
  "std_replace s pos n r = take pos s @ r @ drop (pos + n) s"

lemma find_sub_zero: "find_sub pat s = Some 0 \<longleftrightarrow> take (length pat) s = pat"
  by (cases s) auto

lemma std_find_zero [string_simps]:
  "std_find s pat 0 = Some 0 \<longleftrightarrow> take (length pat) s = pat"
  by (simp add: std_find_def find_sub_zero)

lemma find_sub_single_None [string_simps]: "find_sub [c] s = None \<longleftrightarrow> c \<notin> set s"
  by (induction s) auto

lemma find_sub_single_append:
  "c \<notin> set a \<Longrightarrow> find_sub [c] (a @ c # b) = Some (length a)"
  by (induction a) auto

lemma find_sub_single_Some:
  assumes "find_sub [c] s = Some i"
  shows "i < length s \<and> s ! i = c \<and> c \<notin> set (take i s)"
  using assms
proof (induction s arbitrary: i)
  case (Cons x s)
  show ?case
  proof (cases "x = c")
    case True
    with Cons.prems show ?thesis by auto
  next
    case False
    with Cons.prems obtain j where "find_sub [c] s = Some j" "i = Suc j"
      by auto
    with Cons.IH [of j] False show ?thesis by auto
  qed
qed simp

lemma std_find_single_None [string_simps]:
  "pos \<le> length s \<Longrightarrow> std_find s [c] pos = None \<longleftrightarrow> c \<notin> set (drop pos s)"
  by (simp add: std_find_def find_sub_single_None)

lemma std_find_single_lt: "std_find s [c] pos = Some i \<Longrightarrow> pos \<le> i \<and> i < length s"
  by (fastforce simp: std_find_def dest: find_sub_single_Some split: if_splits)

lemma std_find_last_None [string_simps]: "std_find_last s c = None \<longleftrightarrow> c \<notin> set s"
  by (induction s) (auto split: option.splits)

lemma std_find_last_append:
  "c \<notin> set b \<Longrightarrow> std_find_last (a @ c # b) c = Some (length a)"
  by (induction a) (auto simp: string_simps split: option.splits)

lemma std_find_last_split:
  assumes "c \<in> set s"
  obtains a b where "s = a @ c # b" "c \<notin> set b" "std_find_last s c = Some (length a)"
proof -
  from split_list_last [OF assms] obtain a b where "s = a @ c # b" "c \<notin> set b" by blast
  with that show ?thesis by (simp add: std_find_last_append)
qed

section \<open>Splitting at separators\<close>

text \<open>\<open>split_on P s\<close> cuts a string at every character that satisfies \<open>P\<close>; the list of segments is
  never empty.\<close>

primrec split_on :: "('a \<Rightarrow> bool) \<Rightarrow> 'a list \<Rightarrow> 'a list list" where
  "split_on P [] = [[]]"
| "split_on P (c # s) =
     (if P c then [] # split_on P s else (c # hd (split_on P s)) # tl (split_on P s))"

lemma split_on_nonempty [simp]: "split_on P s \<noteq> []"
  by (cases s) auto

lemma split_on_append:
  "P c \<Longrightarrow> split_on P (a @ c # b) = split_on P a @ split_on P b"
  by (induction a) auto

lemma split_on_none: "\<forall>c \<in> set s. \<not> P c \<Longrightarrow> split_on P s = [s]"
  by (induction s) auto

lemma split_on_obtain:
  obtains h t where "split_on P s = h # t"
  by (cases "split_on P s") auto

lemma split_on_sep_free:
  assumes "seg \<in> set (split_on P s)" and "c \<in> set seg"
  shows "\<not> P c"
  using assms
proof (induction s arbitrary: seg)
  case (Cons x s)
  obtain h t where "split_on P s = h # t" by (rule split_on_obtain)
  with Cons show ?case by (fastforce split: if_splits)
qed simp

lemma split_on_subset:
  assumes "seg \<in> set (split_on P s)"
  shows "set seg \<subseteq> set s"
  using assms
proof (induction s arbitrary: seg)
  case (Cons x s)
  obtain h t where "split_on P s = h # t" by (rule split_on_obtain)
  with Cons show ?case by (fastforce split: if_splits)
qed simp

section \<open>Memo tables\<close>

text \<open>The contract of a function-local cache: a hit returns the stored value and leaves the table
  alone, a miss computes the value and stores it. A table is coherent when every stored value is
  the computed one.\<close>

definition coherent :: "('k \<Rightarrow> 'v) \<Rightarrow> ('k \<rightharpoonup> 'v) \<Rightarrow> bool" where
  "coherent f m \<longleftrightarrow> (\<forall>k v. m k = Some v \<longrightarrow> v = f k)"

primrec run_lookups :: "('k \<Rightarrow> 'm \<Rightarrow> 'v \<times> 'm) \<Rightarrow> 'k list \<Rightarrow> 'm \<Rightarrow> 'v list \<times> 'm" where
  "run_lookups f [] m = ([], m)"
| "run_lookups f (k # ks) m =
     (let (v, m') = f k m; (vs, m'') = run_lookups f ks m' in (v # vs, m''))"

lemma coherent_empty [simp, intro]: "coherent f Map.empty"
  by (simp add: coherent_def)

locale memo_table =
  fixes look :: "'k \<Rightarrow> ('k \<rightharpoonup> 'v) \<Rightarrow> 'v \<times> ('k \<rightharpoonup> 'v)" and f :: "'k \<Rightarrow> 'v"
  assumes hit: "m k = Some v \<Longrightarrow> look k m = (v, m)"
    and miss: "m k = None \<Longrightarrow> look k m = (f k, m(k \<mapsto> f k))"
begin

lemma look_coherent:
  assumes "coherent f m"
  shows "fst (look k m) = f k \<and> coherent f (snd (look k m))"
  using assms hit [of m k] miss [of m k] by (cases "m k") (auto simp: coherent_def)

lemma look_stable: "snd (look k (snd (look k m))) = snd (look k m)"
proof (cases "m k")
  case None
  then have "look k (m(k \<mapsto> f k)) = (f k, m(k \<mapsto> f k))" by (intro hit) simp
  with None miss show ?thesis by simp
qed (simp add: hit)

lemma run_lookups_coherent:
  assumes "coherent f m"
  shows "fst (run_lookups look ks m) = map f ks \<and> coherent f (snd (run_lookups look ks m))"
  using assms
proof (induction ks arbitrary: m)
  case (Cons k ks)
  obtain v m' where l: "look k m = (v, m')" by force
  with look_coherent [OF Cons.prems, of k] have "v = f k" "coherent f m'" by auto
  with l Cons.IH [of m'] show ?case by (simp add: case_prod_beta)
qed simp

end

end
