(* ===== verification/V8_Values.thy ===== *)
theory V8_Values
  imports Wrapper_Prelude
begin

text \<open>
  JavaScript values as the C++ callbacks see them, the argument list of a callback
  (\<^verbatim>\<open>v8::FunctionCallbackInfo\<close>), the conversions of \<^verbatim>\<open>Include/v8pp/convert.hpp\<close>, the wrapper
  \<^verbatim>\<open>v8pp::detail::forward_function\<close> that turns C++ exceptions into JavaScript ones, and the two
  scoped accessors of \<^verbatim>\<open>v8_wrapper.h\<close>. V8 itself is not modelled: a value carries the answers V8
  gives about it (its UTF-8 bytes, its 16-bit units, its 32-bit integer value, the bits of its
  double), and a returned value records which V8 constructor was called with which data.
\<close>

section \<open>Values\<close>

record js_string =
  utf8 :: bytes            \<comment> \<open>contents of \<^verbatim>\<open>String::Utf8Value\<close>\<close>
  two_byte :: wstring      \<comment> \<open>contents of \<^verbatim>\<open>String::Value\<close>\<close>

record js_number =
  is_int32 :: bool         \<comment> \<open>\<^verbatim>\<open>Value::IsInt32\<close>\<close>
  int32_value :: u32       \<comment> \<open>\<^verbatim>\<open>Value::Int32Value\<close>, two's complement\<close>
  number_bits :: u64       \<comment> \<open>\<^verbatim>\<open>Value::NumberValue\<close>, the IEEE 754 bit pattern\<close>

record js_view =
  view_buffer :: bytes     \<comment> \<open>contents of the backing \<^verbatim>\<open>ArrayBuffer\<close>\<close>
  view_offset :: nat       \<comment> \<open>\<^verbatim>\<open>ByteOffset\<close> of the typed array\<close>
  view_length :: nat       \<comment> \<open>\<^verbatim>\<open>ByteLength\<close> of the typed array\<close>

datatype js_value =
    Undefined
  | Null
  | Boolean bool
  | Number js_number
  | Str js_string
  | Uint8Array js_view
  | Function nat
  | PendingPromise nat
  | Fulfilled js_value
  | Rejected js_value
  | Object nat

type_synonym js_args = "js_value list"

text \<open>\<^verbatim>\<open>FunctionCallbackInfo::operator[]\<close>: reads past the end give \<^verbatim>\<open>undefined\<close>.\<close>

definition arg :: "js_args \<Rightarrow> nat \<Rightarrow> js_value" where
  "arg args i = (if length args \<le> i then Undefined else args ! i)"

fun IsString :: "js_value \<Rightarrow> bool" where
  "IsString (Str _) = True" | "IsString _ = False"

fun IsNumber :: "js_value \<Rightarrow> bool" where
  "IsNumber (Number _) = True" | "IsNumber _ = False"

fun IsInt32 :: "js_value \<Rightarrow> bool" where
  "IsInt32 (Number n) = is_int32 n" | "IsInt32 _ = False"

fun IsBoolean :: "js_value \<Rightarrow> bool" where
  "IsBoolean (Boolean _) = True" | "IsBoolean _ = False"

fun IsFunction :: "js_value \<Rightarrow> bool" where
  "IsFunction (Function _) = True" | "IsFunction _ = False"

fun IsUint8Array :: "js_value \<Rightarrow> bool" where
  "IsUint8Array (Uint8Array _) = True" | "IsUint8Array _ = False"

fun IsPromise :: "js_value \<Rightarrow> bool" where
  "IsPromise (PendingPromise _) = True"
| "IsPromise (Fulfilled _) = True"
| "IsPromise (Rejected _) = True"
| "IsPromise _ = False"

fun IsNullOrUndefined :: "js_value \<Rightarrow> bool" where
  "IsNullOrUndefined Undefined = True"
| "IsNullOrUndefined Null = True"
| "IsNullOrUndefined _ = False"

fun IsObject :: "js_value \<Rightarrow> bool" where
  "IsObject (Uint8Array _) = True"
| "IsObject (Function _) = True"
| "IsObject (PendingPromise _) = True"
| "IsObject (Fulfilled _) = True"
| "IsObject (Rejected _) = True"
| "IsObject (Object _) = True"
| "IsObject _ = False"

fun TypeOf :: "js_value \<Rightarrow> string" where
  "TypeOf Undefined = ''undefined''"
| "TypeOf (Boolean _) = ''boolean''"
| "TypeOf (Number _) = ''number''"
| "TypeOf (Str _) = ''string''"
| "TypeOf (Function _) = ''function''"
| "TypeOf _ = ''object''"

section \<open>Values handed back to JavaScript\<close>

text \<open>Each constructor names the V8 call that creates the value: \<^verbatim>\<open>Undefined\<close> (nothing was set),
  \<^verbatim>\<open>v8::Null\<close>, \<^verbatim>\<open>v8::Boolean::New\<close>, \<^verbatim>\<open>v8::Integer::New\<close>, \<^verbatim>\<open>v8::Integer::NewFromUnsigned\<close>,
  \<^verbatim>\<open>v8::Number::New\<close>, \<^verbatim>\<open>String::NewFromUtf8\<close>, \<^verbatim>\<open>String::NewFromTwoByte\<close>,
  \<^verbatim>\<open>String::NewExternalOneByte\<close>, \<^verbatim>\<open>Uint8Array::New\<close> over a fresh buffer, a plain object with
  properties set in order, a promise, a cloned wrapper object, and a value V8 produced.\<close>

datatype js_return =
    RUndefined
  | RNull
  | RBoolean bool
  | RInteger int
  | RUnsigned nat
  | RNumber u64
  | RUtf8 bytes
  | RTwoByte wstring
  | ROneByte bytes
  | RUint8Array bytes
  | RProperties "(bytes \<times> bytes) list"
  | RPromise nat
  | RObject nat
  | RValue js_value

section \<open>Conversions of v8pp\<close>

definition invalid_argument :: "js_value \<Rightarrow> string \<Rightarrow> string" where
  "invalid_argument v expected = ''expected '' @ expected @ '', typeof='' @ TypeOf v"

definition from_v8_string :: "js_value \<Rightarrow> string + bytes" where
  "from_v8_string v =
     (case v of Str s \<Rightarrow> Inr (utf8 s) | _ \<Rightarrow> Inl (invalid_argument v ''String''))"

definition from_v8_wstring :: "js_value \<Rightarrow> string + wstring" where
  "from_v8_wstring v =
     (case v of Str s \<Rightarrow> Inr (two_byte s) | _ \<Rightarrow> Inl (invalid_argument v ''String''))"

text \<open>\<^verbatim>\<open>from_v8<char const*>\<close> keeps a \<^verbatim>\<open>std::string\<close> with the full length, but the callers read it
  through \<^verbatim>\<open>c_str()\<close>, that is up to the first zero byte.\<close>

definition c_str :: "bytes \<Rightarrow> bytes" where
  "c_str s = takeWhile (\<lambda>c. c \<noteq> CHR 0x00) s"

definition from_v8_cstring :: "js_value \<Rightarrow> string + bytes" where
  "from_v8_cstring v =
     (case v of Str s \<Rightarrow> Inr (c_str (utf8 s)) | _ \<Rightarrow> Inl (invalid_argument v ''String''))"

definition from_v8_bool :: "js_value \<Rightarrow> string + bool" where
  "from_v8_bool v =
     (case v of Boolean b \<Rightarrow> Inr b | _ \<Rightarrow> Inl (invalid_argument v ''Boolean''))"

definition from_v8_int :: "js_value \<Rightarrow> string + int" where
  "from_v8_int v =
     (case v of Number n \<Rightarrow> Inr (sint (int32_value n)) | _ \<Rightarrow> Inl (invalid_argument v ''Number''))"

definition from_v8_double :: "js_value \<Rightarrow> string + u64" where
  "from_v8_double v =
     (case v of Number n \<Rightarrow> Inr (number_bits n) | _ \<Rightarrow> Inl (invalid_argument v ''Number''))"

text \<open>The overload of \<^verbatim>\<open>v8pp::from_v8\<close> with a default value: \<^verbatim>\<open>is_valid\<close> decides.\<close>

definition from_v8_default :: "(js_value \<Rightarrow> string + 'a) \<Rightarrow> js_value \<Rightarrow> 'a \<Rightarrow> 'a" where
  "from_v8_default conv v d = (case conv v of Inr x \<Rightarrow> x | Inl _ \<Rightarrow> d)"

text \<open>The three-argument reads of an optional boolean, \<^verbatim>\<open>args.Length() > i && args[i]->IsBoolean() &&
  from_v8<bool>(args[i])\<close>.\<close>

definition optional_flag :: "js_args \<Rightarrow> nat \<Rightarrow> bool" where
  "optional_flag args i = (i < length args \<and> arg args i = Boolean True)"

lemma from_v8_int_range:
  assumes "from_v8_int v = Inr i"
  shows "- (2 ^ 31) \<le> i \<and> i < 2 ^ 31"
proof -
  from assms obtain n where "v = Number n" "i = sint (int32_value n)"
    by (auto simp: from_v8_int_def split: js_value.splits)
  then show ?thesis
    using sint_greater_eq [of "int32_value n"] sint_less [of "int32_value n"] by simp
qed

lemma arg_beyond [simp]: "length args \<le> i \<Longrightarrow> arg args i = Undefined"
  by (simp add: arg_def)

lemma arg_Cons [simp]:
  "arg (v # args) 0 = v"
  "arg (v # args) (Suc i) = arg args i"
  "arg (v # args) (numeral k) = arg args (pred_numeral k)"
  by (simp_all add: arg_def numeral_eq_Suc)

lemma IsString_iff: "IsString v \<longleftrightarrow> (\<exists>s. v = Str s)"
  by (cases v) auto

lemma from_v8_string_total: "IsString v \<Longrightarrow> \<exists>s. from_v8_string v = Inr s"
  by (auto simp: IsString_iff from_v8_string_def)

lemma from_v8_Str [simp]:
  "from_v8_string (Str s) = Inr (utf8 s)"
  "from_v8_wstring (Str s) = Inr (two_byte s)"
  "from_v8_cstring (Str s) = Inr (c_str (utf8 s))"
  by (simp_all add: from_v8_string_def from_v8_wstring_def from_v8_cstring_def)

lemma from_v8_Number [simp]:
  "from_v8_int (Number n) = Inr (sint (int32_value n))"
  "from_v8_double (Number n) = Inr (number_bits n)"
  by (simp_all add: from_v8_int_def from_v8_double_def)

lemma from_v8_Boolean [simp]: "from_v8_bool (Boolean b) = Inr b"
  by (simp add: from_v8_bool_def)

section \<open>Calling a wrapped C++ function\<close>

text \<open>\<^verbatim>\<open>forward_function\<close> runs the callback inside \<^verbatim>\<open>try\<close>; an exception becomes a pending
  JavaScript exception with the text of \<^verbatim>\<open>what()\<close> (\<^verbatim>\<open>v8pp::throw_ex\<close>).\<close>

datatype js_completion = JS_Value js_return | JS_Exception bytes | JS_Waits | JS_Dead

definition forward_function ::
    "(js_args \<Rightarrow> 's \<Rightarrow> (js_return, 's) result) \<Rightarrow> js_args \<Rightarrow> 's \<Rightarrow> js_completion \<times> 's" where
  "forward_function f args s =
     (case f args s of
        (Return r, s') \<Rightarrow> (JS_Value r, s')
      | (Throw e, s') \<Rightarrow> (JS_Exception (c_str e), s')
      | (Block, s') \<Rightarrow> (JS_Waits, s')
      | (Crash, s') \<Rightarrow> (JS_Dead, s'))"

section \<open>Scoped accessors of \<open>v8_wrapper.h\<close>\<close>

text \<open>
  \<^verbatim>\<open>Utf8ValueScoped\<close> only assigns its pointer for a string; for any other value the pointer keeps
  the indeterminate contents of the stack slot, given here as a parameter \<open>slot\<close> (\<open>0\<close> is a null
  pointer). A nonzero \<open>slot\<close> makes \<^verbatim>\<open>operator bool\<close> true and the pointer dangling.
\<close>

datatype scoped_utf8 = Held bytes | NullSlot | Dangling

definition Utf8ValueScoped :: "nat \<Rightarrow> js_value \<Rightarrow> scoped_utf8" where
  "Utf8ValueScoped slot v =
     (case v of Str s \<Rightarrow> Held (utf8 s) | _ \<Rightarrow> (if slot = 0 then NullSlot else Dangling))"

text \<open>\<^verbatim>\<open>ArrayBufferScoped\<close> takes the contents of the whole backing buffer; its length operator
  narrows \<^verbatim>\<open>size_t\<close> to \<^verbatim>\<open>unsigned long\<close>, which is 32 bits wide on Windows.\<close>

definition ArrayBufferScoped :: "js_value \<Rightarrow> bytes option" where
  "ArrayBufferScoped v =
     (case v of Uint8Array w \<Rightarrow> Some (view_buffer w) | _ \<Rightarrow> None)"

definition unsigned_long :: "nat \<Rightarrow> u32" where
  "unsigned_long n = word_of_nat n"

lemma unat_unsigned_long: "n < 2 ^ 32 \<Longrightarrow> unat (unsigned_long n) = n"
  by (simp add: unsigned_long_def unat_of_nat take_bit_nat_eq_self)

end
