(* ===== verification/Module_Binding.thy ===== *)
theory Module_Binding
  imports V8_Values
begin

text \<open>
  \<^verbatim>\<open>v8pp::module\<close> (\<^verbatim>\<open>Include/v8pp/module.hpp\<close>), the class with which the namespace of the scripts is
  built: a module is a handle to an \<^verbatim>\<open>ObjectTemplate\<close>, \<^verbatim>\<open>set\<close> and \<^verbatim>\<open>set_const\<close> add properties to the
  template behind the handle, and an instance is made from the template when it is needed. Handles
  are shared: a module that was attached to another one can still be given functions. The
  theory holds the template store, the operations of the class, instantiation, and the contract
  \<open>property_table\<close> from which the lookups in a built namespace follow.
\<close>

unbundle bit_operations_syntax

section \<open>Templates\<close>

text \<open>The bits of \<^verbatim>\<open>v8::PropertyAttribute\<close>.\<close>

definition NoAttributes :: u32 where "NoAttributes = 0"
definition ReadOnly :: u32 where "ReadOnly = push_bit 0 1"
definition DontEnum :: u32 where "DontEnum = push_bit 1 1"
definition DontDelete :: u32 where "DontDelete = push_bit 2 1"

datatype 'f template_value = FunctionTemplate 'f | Constant js_return | SubTemplate nat

record 'f object_template =
  template_properties :: "(string \<times> 'f template_value \<times> u32) list"
  internal_field_count :: nat

text \<open>The templates of an isolate; a handle is a position.\<close>

type_synonym 'f templates = "'f object_template list"

definition ObjectTemplate_New :: "'f templates \<Rightarrow> nat \<times> 'f templates" where
  "ObjectTemplate_New s = (length s, s @ [\<lparr>template_properties = [], internal_field_count = 0\<rparr>])"

definition Template_Set :: "nat \<Rightarrow> string \<Rightarrow> 'f template_value \<Rightarrow> u32 \<Rightarrow> 'f templates \<Rightarrow> 'f templates" where
  "Template_Set m name v attributes s =
     s[m := (s ! m)\<lparr>template_properties := template_properties (s ! m) @ [(name, v, attributes)]\<rparr>]"

definition SetInternalFieldCount :: "nat \<Rightarrow> nat \<Rightarrow> 'f templates \<Rightarrow> 'f templates" where
  "SetInternalFieldCount m n s = s[m := (s ! m)\<lparr>internal_field_count := n\<rparr>]"

section \<open>The class \<open>module\<close>\<close>

definition module_new :: "'f templates \<Rightarrow> nat \<times> 'f templates" where
  "module_new s = ObjectTemplate_New s"

text \<open>\<^verbatim>\<open>set\<close> with a C++ function wraps it in a function template and adds it without attributes;
  \<^verbatim>\<open>set_const\<close> with a value or with another module adds a property that is not writable and not
  configurable.\<close>

definition module_set :: "nat \<Rightarrow> string \<Rightarrow> 'f \<Rightarrow> 'f templates \<Rightarrow> 'f templates" where
  "module_set m name f s = Template_Set m name (FunctionTemplate f) NoAttributes s"

definition module_set_const :: "nat \<Rightarrow> string \<Rightarrow> js_return \<Rightarrow> 'f templates \<Rightarrow> 'f templates" where
  "module_set_const m name v s = Template_Set m name (Constant v) (ReadOnly OR DontDelete) s"

definition module_set_const_module :: "nat \<Rightarrow> string \<Rightarrow> nat \<Rightarrow> 'f templates \<Rightarrow> 'f templates" where
  "module_set_const_module m name k s = Template_Set m name (SubTemplate k) (ReadOnly OR DontDelete) s"

text \<open>A sequence of such calls on one module, in the order they are written.\<close>

datatype 'f binding = Bind_Function string 'f | Bind_Const string int | Bind_Module string nat

fun binding_name :: "'f binding \<Rightarrow> string" where
  "binding_name (Bind_Function name _) = name"
| "binding_name (Bind_Const name _) = name"
| "binding_name (Bind_Module name _) = name"

fun apply_binding :: "nat \<Rightarrow> 'f binding \<Rightarrow> 'f templates \<Rightarrow> 'f templates" where
  "apply_binding m (Bind_Function name f) s = module_set m name f s"
| "apply_binding m (Bind_Const name i) s = module_set_const m name (RInteger i) s"
| "apply_binding m (Bind_Module name k) s = module_set_const_module m name k s"

definition apply_bindings :: "nat \<Rightarrow> 'f binding list \<Rightarrow> 'f templates \<Rightarrow> 'f templates" where
  "apply_bindings m bs s = fold (apply_binding m) bs s"

section \<open>Instances\<close>

text \<open>\<^verbatim>\<open>new_instance\<close>: the object of a template has its properties, and a fresh instance of every template
  below it. The fuel bounds the depth; a store whose templates only refer to later ones needs
  no more than its length.\<close>

datatype 'f property =
    PFunction 'f
  | PConstant js_return
  | PObject "(string \<times> 'f property \<times> u32) list" nat

primrec new_instance :: "nat \<Rightarrow> 'f templates \<Rightarrow> nat \<Rightarrow> 'f property option" where
  "new_instance 0 s m = None"
| "new_instance (Suc n) s m =
     map_option (\<lambda>ps. PObject ps (internal_field_count (s ! m)))
       (those (map (\<lambda>(name, v, attributes).
          map_option (\<lambda>p. (name, p, attributes))
            (case v of
               FunctionTemplate f \<Rightarrow> Some (PFunction f)
             | Constant c \<Rightarrow> Some (PConstant c)
             | SubTemplate k \<Rightarrow> new_instance n s k)) (template_properties (s ! m))))"

text \<open>Reading a property, and a path of properties.\<close>

fun get_property :: "'f property \<Rightarrow> string \<Rightarrow> ('f property \<times> u32) option" where
  "get_property (PObject ps _) name = map_of ps name"
| "get_property _ name = None"

fun get_path_of :: "'f property \<Rightarrow> string list \<Rightarrow> 'f property option" where
  "get_path_of p [] = Some p"
| "get_path_of p (name # path) =
     (case get_property p name of None \<Rightarrow> None | Some (q, _) \<Rightarrow> get_path_of q path)"

text \<open>All functions below an object, with the paths that lead to them.\<close>

fun function_paths :: "'f property \<Rightarrow> (string list \<times> 'f) list" where
  "function_paths (PFunction f) = [([], f)]"
| "function_paths (PConstant _) = []"
| "function_paths (PObject ps _) =
     concat (map (\<lambda>x. map (\<lambda>(path, f). (fst x # path, f)) (function_paths (fst (snd x)))) ps)"

section \<open>The contract of a module\<close>

text \<open>What building a namespace relies on: a new handle is empty, setting a fresh name on a handle
  makes exactly that name readable there, and nothing else changes.\<close>

locale property_table =
  fixes live :: "nat \<Rightarrow> 's \<Rightarrow> bool"
    and fresh :: "'s \<Rightarrow> nat \<times> 's"
    and put :: "nat \<Rightarrow> string \<Rightarrow> 'v \<Rightarrow> 's \<Rightarrow> 's"
    and look :: "nat \<Rightarrow> 's \<Rightarrow> string \<Rightarrow> 'v option"
  assumes fresh_live: "fresh s = (m, s') \<Longrightarrow> live m s' \<and> \<not> live m s"
    and fresh_empty: "fresh s = (m, s') \<Longrightarrow> look m s' name = None"
    and fresh_other: "fresh s = (m, s') \<Longrightarrow> live k s \<Longrightarrow> live k s' \<and> look k s' = look k s"
    and put_live: "live k (put m name v s) \<longleftrightarrow> live k s"
    and put_same: "live m s \<Longrightarrow> look m s name = None \<Longrightarrow> look m (put m name v s) = (look m s)(name \<mapsto> v)"
    and put_other: "k \<noteq> m \<Longrightarrow> look k (put m name v s) = look k s"
begin

definition put_all :: "nat \<Rightarrow> (string \<times> 'v) list \<Rightarrow> 's \<Rightarrow> 's" where
  "put_all m xs s = fold (\<lambda>(name, v). put m name v) xs s"

lemma put_all_live: "live k (put_all m xs s) \<longleftrightarrow> live k s"
  unfolding put_all_def by (induction xs arbitrary: s) (simp_all add: put_live case_prod_beta)

lemma put_all_other: "k \<noteq> m \<Longrightarrow> look k (put_all m xs s) = look k s"
  unfolding put_all_def by (induction xs arbitrary: s) (simp_all add: put_other case_prod_beta)

lemma put_all_same:
  assumes "live m s" and "distinct (map fst xs)" and "\<And>name. name \<in> fst ` set xs \<Longrightarrow> look m s name = None"
  shows "look m (put_all m xs s) = look m s ++ map_of xs"
  using assms
proof (induction xs arbitrary: s)
  case Nil
  then show ?case by (simp add: put_all_def)
next
  case (Cons x xs)
  obtain name v where x: "x = (name, v)" by fastforce
  let ?s = "put m name v s"
  have look: "look m ?s = (look m s)(name \<mapsto> v)"
    using Cons.prems x by (intro put_same) auto
  moreover have "look m (put_all m xs ?s) = look m ?s ++ map_of xs"
    using Cons.prems x look by (intro Cons.IH) (auto simp: put_live image_iff)
  moreover have "put_all m (x # xs) s = put_all m xs ?s" by (simp add: put_all_def x)
  moreover have "name \<notin> dom (map_of xs)" using Cons.prems(2) x by (simp add: dom_map_of_conv_image_fst)
  ultimately show ?case
    by (auto simp: x map_add_def fun_eq_iff split: option.split)
qed

text \<open>A module that is attached first and filled afterwards shows what it was filled with.\<close>

lemma attach_then_fill:
  assumes "live m s" and "live k s" and "m \<noteq> k" and "look m s name = None"
    and "distinct (map fst xs)" and "\<And>n. look k s n = None"
  shows "look m (put_all k xs (put m name v s)) name = Some v
         \<and> look k (put_all k xs (put m name v s)) = map_of xs"
proof -
  have "look k (put m name v s) = look k s" using assms(3) by (simp add: put_other)
  with assms show ?thesis
    by (auto simp: put_all_other put_all_same put_live put_same map_add_def fun_eq_iff split: option.split)
qed

end

definition live_template :: "nat \<Rightarrow> 'f templates \<Rightarrow> bool" where
  "live_template m s \<longleftrightarrow> m < length s"

definition template_look :: "nat \<Rightarrow> 'f templates \<Rightarrow> string \<Rightarrow> ('f template_value \<times> u32) option" where
  "template_look m s name = map_of (template_properties (s ! m)) name"

interpretation module_table: property_table live_template ObjectTemplate_New
  "\<lambda>m name (v, a). Template_Set m name v a" template_look
proof
  fix s s' :: "'f templates" and m k name
  fix v :: "'f template_value \<times> u32"
  show "ObjectTemplate_New s = (m, s') \<Longrightarrow> live_template m s' \<and> \<not> live_template m s"
    and "ObjectTemplate_New s = (m, s') \<Longrightarrow> template_look m s' name = None"
    by (auto simp: ObjectTemplate_New_def live_template_def template_look_def)
  show "ObjectTemplate_New s = (m, s') \<Longrightarrow> live_template k s \<Longrightarrow>
      live_template k s' \<and> template_look k s' = template_look k s"
    by (auto simp: ObjectTemplate_New_def live_template_def template_look_def nth_append)
  show "live_template k ((case v of (v, a) \<Rightarrow> Template_Set m name v a) s) \<longleftrightarrow> live_template k s"
    by (cases v) (simp add: live_template_def Template_Set_def)
  show "live_template m s \<Longrightarrow> template_look m s name = None \<Longrightarrow>
      template_look m ((case v of (v, a) \<Rightarrow> Template_Set m name v a) s) = (template_look m s)(name \<mapsto> v)"
    by (cases v) (auto simp: live_template_def Template_Set_def template_look_def fun_eq_iff
        map_add_def split: option.split)
  show "k \<noteq> m \<Longrightarrow> template_look k ((case v of (v, a) \<Rightarrow> Template_Set m name v a) s) = template_look k s"
    by (cases v) (auto simp: Template_Set_def template_look_def fun_eq_iff)
qed

section \<open>Instantiation ends\<close>

text \<open>Every template refers to later ones only.\<close>

definition refers_forward :: "'f templates \<Rightarrow> bool" where
  "refers_forward s \<longleftrightarrow>
     (\<forall>m < length s. \<forall>x \<in> set (template_properties (s ! m)).
        case fst (snd x) of SubTemplate k \<Rightarrow> m < k \<and> k < length s | _ \<Rightarrow> True)"

lemma those_total: "(\<And>x. x \<in> set xs \<Longrightarrow> \<exists>y. f x = Some y) \<Longrightarrow> \<exists>ys. those (map f xs) = Some ys"
  by (induction xs) (auto, fastforce)

lemma new_instance_total:
  assumes "refers_forward s" and "m < length s" and "length s - m \<le> n"
  shows "\<exists>p. new_instance n s m = Some p"
  using assms(2,3)
proof (induction n arbitrary: m)
  case (Suc n)
  have "\<exists>y. map_option (\<lambda>p. (name, p, a)) (case v of FunctionTemplate f \<Rightarrow> Some (PFunction f)
        | Constant c \<Rightarrow> Some (PConstant c) | SubTemplate k \<Rightarrow> new_instance n s k) = Some y"
    if "(name, v, a) \<in> set (template_properties (s ! m))" for name v a
  proof (cases v)
    case (SubTemplate k)
    with assms(1) Suc.prems(1) that have "m < k" "k < length s"
      by (fastforce simp: refers_forward_def)+
    with Suc.prems Suc.IH [of k] SubTemplate show ?thesis by auto
  qed simp_all
  then show ?case by (auto intro!: those_total)
qed simp

section \<open>Lookups in an instance\<close>

fun entry :: "'f binding \<Rightarrow> string \<times> 'f template_value \<times> u32" where
  "entry (Bind_Function name f) = (name, FunctionTemplate f, NoAttributes)"
| "entry (Bind_Const name i) = (name, Constant (RInteger i), ReadOnly OR DontDelete)"
| "entry (Bind_Module name k) = (name, SubTemplate k, ReadOnly OR DontDelete)"

lemma apply_bindings_put_all:
  fixes bs :: "'f binding list"
  shows "apply_bindings m bs s = module_table.put_all m (map entry bs) s"
proof -
  have "apply_binding m = (\<lambda>b :: 'f binding. case entry b of (name, v, a) \<Rightarrow> Template_Set m name v a)"
  proof (intro ext)
    fix b :: "'f binding" and t
    show "apply_binding m b t = (case entry b of (name, v, a) \<Rightarrow> Template_Set m name v a) t"
      by (cases b) (simp_all add: module_set_def module_set_const_def module_set_const_module_def)
  qed
  then show ?thesis
    by (simp add: apply_bindings_def module_table.put_all_def fold_map comp_def case_prod_beta)
qed

lemma fst_entry [simp]: "fst (entry b) = binding_name b"
  by (cases b) simp_all

text \<open>The properties a new module has after a sequence of calls with distinct names.\<close>

lemma bound_module:
  assumes "ObjectTemplate_New s = (m, s')" and "distinct (map binding_name bs)"
  shows "template_look m (apply_bindings m bs s') = map_of (map entry bs)"
  using assms module_table.fresh_live [OF assms(1)] module_table.fresh_empty [OF assms(1)]
  by (subst apply_bindings_put_all, subst module_table.put_all_same)
     (auto simp: comp_def map_add_def fun_eq_iff split: option.split)

lemma those_map_of:
  assumes "those (map (\<lambda>(name, v, a). map_option (\<lambda>p. (name, p, a)) (g v)) xs) = Some ys"
  shows "map_of ys name = (case map_of xs name of None \<Rightarrow> None | Some (v, a) \<Rightarrow> Some (the (g v), a))
         \<and> (\<forall>v a. map_of xs name = Some (v, a) \<longrightarrow> g v \<noteq> None)"
  using assms
  by (induction xs arbitrary: ys) (auto split: option.splits if_splits)

lemma get_instance:
  assumes "new_instance (Suc n) s m = Some p"
  shows "get_property p name =
     (case template_look m s name of
        None \<Rightarrow> None
      | Some (FunctionTemplate f, a) \<Rightarrow> Some (PFunction f, a)
      | Some (Constant c, a) \<Rightarrow> Some (PConstant c, a)
      | Some (SubTemplate k, a) \<Rightarrow> map_option (\<lambda>q. (q, a)) (new_instance n s k))"
proof -
  let ?g = "\<lambda>v. case v of FunctionTemplate f \<Rightarrow> Some (PFunction f) | Constant c \<Rightarrow> Some (PConstant c)
            | SubTemplate k \<Rightarrow> new_instance n s k"
  from assms obtain ps where
    "those (map (\<lambda>(name, v, a). map_option (\<lambda>p. (name, p, a)) (?g v)) (template_properties (s ! m))) = Some ps"
    "p = PObject ps (internal_field_count (s ! m))" by auto
  with those_map_of [OF this(1), of name] show ?thesis
    by (auto simp: template_look_def split: option.splits template_value.splits)
qed

end
