(* ===== verification/Path_Resolve.thy ===== *)
theory Path_Resolve
  imports V8_Values
begin

text \<open>
  \<^verbatim>\<open>get_relative_file_path\<close> of \<^verbatim>\<open>v8_wrapper.cpp\<close>: the file name a script passes to the \<^verbatim>\<open>fs\<close> functions
  is cleaned with the loop of RFC 3986 section 5.2.4 and appended to the filesystem directory, with
  a cache keyed by the raw name; and \<^verbatim>\<open>get_path\<close>, which locates scripts. The theory shows that the
  loop ends, what it computes on path segments, that no result leaves the directory, and that the
  cache never changes an answer.
\<close>

section \<open>Model\<close>

text \<open>The loop that turns every backslash into a slash, one \<^verbatim>\<open>find\<close> and one \<^verbatim>\<open>replace\<close> at a time.\<close>

function replace_backslashes :: "wstring \<Rightarrow> wstring" where
  "replace_backslashes input =
     (case std_find input [wbackslash] 0 of
        None \<Rightarrow> input
      | Some pos \<Rightarrow> replace_backslashes (std_replace input pos 1 [wslash]))"
  by pat_completeness auto
termination
proof (relation "measure (\<lambda>s. length (filter (\<lambda>c. c = wbackslash) s))", simp)
  fix input :: wstring and pos
  assume find: "std_find input [wbackslash] 0 = Some pos"
  then have at: "pos < length input" "input ! pos = wbackslash"
    using find_sub_single_Some by (fastforce simp: std_find_def)+
  then have "input = take pos input @ wbackslash # drop (Suc pos) input"
    by (metis id_take_nth_drop)
  then have "filter (\<lambda>c. c = wbackslash) input =
      filter (\<lambda>c. c = wbackslash) (take pos input)
      @ wbackslash # filter (\<lambda>c. c = wbackslash) (drop (Suc pos) input)"
    by (metis (mono_tags, lifting) filter.simps(2) filter_append)
  then show "(std_replace input pos 1 [wslash], input)
      \<in> measure (\<lambda>s. length (filter (\<lambda>c. c = wbackslash) s))"
    by (simp add: std_replace_def)
qed

declare replace_backslashes.simps [simp del]

text \<open>Removal of the last segment of the output buffer in step 2.C.\<close>

definition drop_last_segment :: "wstring \<Rightarrow> wstring" where
  "drop_last_segment output =
     (case std_find_last output wslash of Some p \<Rightarrow> take p output | None \<Rightarrow> output)"

text \<open>The position up to which step 2.E moves characters.\<close>

definition segment_end :: "wstring \<Rightarrow> nat" where
  "segment_end input =
     (let p = std_find input [wslash] 0;
          q = (if p = Some 0 then std_find input [wslash] 1 else p)
      in case q of None \<Rightarrow> length input | Some i \<Rightarrow> i)"

lemma segment_end_bounds: "input \<noteq> [] \<Longrightarrow> 0 < segment_end input \<and> segment_end input \<le> length input"
  by (auto simp: segment_end_def Let_def split: option.splits
      dest: std_find_single_lt)

lemma std_find_zero_length:
  "std_find s pat 0 = Some 0 \<Longrightarrow> length pat \<le> length s"
  using length_take [of "length pat" s] by (auto simp: std_find_zero)

text \<open>The main loop, one equation per branch of the \<^verbatim>\<open>while\<close> body in the order of the code.\<close>

function remove_dot_segments :: "wstring \<Rightarrow> wstring \<Rightarrow> wstring" where
  "remove_dot_segments input output =
     (if input = [] then output
      else if std_find input [wdot, wdot, wslash] 0 = Some 0
        then remove_dot_segments (std_replace input 0 3 []) output
      else if std_find input [wdot, wslash] 0 = Some 0
        then remove_dot_segments (std_replace input 0 2 []) output
      else if std_find input [wslash, wdot, wslash] 0 = Some 0
        then remove_dot_segments (std_replace input 0 3 [wslash]) output
      else if input = [wslash, wdot]
        then remove_dot_segments (std_replace input 0 2 [wslash]) output
      else if std_find input [wslash, wdot, wdot, wslash] 0 = Some 0
        then remove_dot_segments (std_replace input 0 4 [wslash]) (drop_last_segment output)
      else if input = [wslash, wdot, wdot]
        then remove_dot_segments (std_replace input 0 3 [wslash]) (drop_last_segment output)
      else if input = [wdot] \<or> input = [wdot, wdot]
        then remove_dot_segments [] output
      else remove_dot_segments (drop (segment_end input) input)
             (output @ take (segment_end input) input))"
  by pat_completeness auto

termination
proof (relation "measure (\<lambda>(input, output). length input)", goal_cases)
  case (9 inp out)
  then show ?case using segment_end_bounds [of inp] by auto
qed (auto simp: std_replace_def dest: std_find_zero_length)

declare remove_dot_segments.simps [simp del]

text \<open>\<^verbatim>\<open>operator/\<close> of \<^verbatim>\<open>std::experimental::filesystem::path\<close>: the right operand is appended, with the
  preferred separator in between unless one is already there or an operand is empty.\<close>

definition is_separator :: "wchar \<Rightarrow> bool" where
  "is_separator c \<longleftrightarrow> c = wslash \<or> c = wbackslash"

definition path_append :: "wstring \<Rightarrow> wstring \<Rightarrow> wstring" where
  "path_append a b =
     (if a = [] \<or> b = [] \<or> is_separator (last a) \<or> is_separator (hd b) then a @ b
      else a @ [wbackslash] @ b)"

text \<open>\<^verbatim>\<open>path::filename\<close>: the last element of the path's iteration. A trailing separator gives the
  element \<^verbatim>\<open>.\<close>, a path of separators only is its own root, and a drive prefix is an element of
  its own.\<close>

fun after_drive :: "wstring \<Rightarrow> wstring" where
  "after_drive (d # c # x # rest) = (if c = 58 then x # rest else d # c # x # rest)"
| "after_drive s = s"

definition filename :: "wstring \<Rightarrow> wstring" where
  "filename p =
     (if p = [] then []
      else if \<forall>c \<in> set p. is_separator c then [hd p]
      else if is_separator (last p) then [wdot]
      else case split_on is_separator p of
             [s] \<Rightarrow> after_drive s
           | segs \<Rightarrow> last segs)"

text \<open>The whole function: the static cache \<^verbatim>\<open>cached_paths\<close> is the state.\<close>

type_synonym path_cache = "wstring \<rightharpoonup> wstring"

definition compute_path :: "wstring \<Rightarrow> wstring \<Rightarrow> wstring" where
  "compute_path fs_directory raw_input =
     path_append fs_directory (remove_dot_segments (replace_backslashes raw_input) [])"

definition get_relative_file_path ::
    "wstring \<Rightarrow> wstring \<Rightarrow> path_cache \<Rightarrow> wstring \<times> path_cache" where
  "get_relative_file_path fs_directory raw_input cached_paths =
     (case cached_paths raw_input of
        Some p \<Rightarrow> (p, cached_paths)
      | None \<Rightarrow>
          let p = compute_path fs_directory raw_input
          in (p, cached_paths(raw_input \<mapsto> p)))"

text \<open>\<^verbatim>\<open>get_path\<close>: \<open>known_folder\<close> is the answer of \<^verbatim>\<open>SHGetKnownFolderPath\<close>, \<open>None\<close> if it failed.\<close>

definition get_path :: "wstring option \<Rightarrow> wstring \<Rightarrow> wstring \<Rightarrow> string + wstring" where
  "get_path known_folder app_pool_folder_name script =
     (case known_folder of
        None \<Rightarrow> Inl ''unable to get known folder''
      | Some path \<Rightarrow>
          if script \<noteq> []
          then Inr (path_append (path_append path app_pool_folder_name) (filename script))
          else Inr path)"

section \<open>What the loop computes on segments\<close>

text \<open>\<open>render\<close> writes segments with a slash in front of each; \<open>norm_segments\<close> is the stack reading
  of RFC 3986: \<^verbatim>\<open>.\<close> is skipped, \<^verbatim>\<open>..\<close> pops, and either of them in last position leaves an empty
  segment (a trailing slash).\<close>

abbreviation slash_free :: "wstring \<Rightarrow> bool" where
  "slash_free s \<equiv> wslash \<notin> set s"

definition render :: "wstring list \<Rightarrow> wstring" where
  "render segs = concat (map (\<lambda>s. wslash # s) segs)"

fun norm_segments :: "wstring list \<Rightarrow> wstring list \<Rightarrow> wstring list" where
  "norm_segments stack [] = stack"
| "norm_segments stack [s] =
     (if s = [wdot] then stack @ [[]]
      else if s = [wdot, wdot] then butlast stack @ [[]]
      else stack @ [s])"
| "norm_segments stack (s # t # r) =
     (if s = [wdot] then norm_segments stack (t # r)
      else if s = [wdot, wdot] then norm_segments (butlast stack) (t # r)
      else norm_segments (stack @ [s]) (t # r))"

definition is_dot_segment :: "wstring \<Rightarrow> bool" where
  "is_dot_segment s \<longleftrightarrow> s = [wdot] \<or> s = [wdot, wdot]"

lemma render_simps [simp]:
  "render [] = []"
  "render (s # r) = wslash # s @ render r"
  "render (a @ b) = render a @ render b"
  by (simp_all add: render_def)

lemma render_eq_Nil [simp]: "render r = [] \<longleftrightarrow> r = []"
  by (cases r) simp_all

lemma hd_render: "r \<noteq> [] \<Longrightarrow> \<exists>t. render r = wslash # t"
  by (cases r) simp_all

lemma replace_backslashes_eq:
  "replace_backslashes s = map (\<lambda>c. if c = wbackslash then wslash else c) s"
proof (induction s rule: replace_backslashes.induct)
  case (1 inp)
  show ?case
  proof (cases "std_find inp [wbackslash] 0")
    case None
    then have "wbackslash \<notin> set inp" by (simp add: string_simps)
    then have "map (\<lambda>c. if c = wbackslash then wslash else c) inp = inp"
      by (induction inp) auto
    with None show ?thesis by (simp add: replace_backslashes.simps [of inp])
  next
    case (Some pos)
    then have at: "pos < length inp" "inp ! pos = wbackslash"
      using find_sub_single_Some by (fastforce simp: std_find_def)+
    have "replace_backslashes inp =
        map (\<lambda>c. if c = wbackslash then wslash else c) (inp[pos := wslash])"
      using "1" Some at
      by (simp add: replace_backslashes.simps [of inp] std_replace_def upd_conv_take_nth_drop)
    also have "\<dots> = map (\<lambda>c. if c = wbackslash then wslash else c) inp"
      using at by (intro nth_equalityI) (auto simp: nth_list_update)
    finally show ?thesis .
  qed
qed

text \<open>One iteration of the loop on an input that starts with a slash.\<close>

lemma take_slash_dot:
  assumes "slash_free s"
  shows "take 3 (wslash # s @ render r) = [wslash, wdot, wslash] \<longleftrightarrow> s = [wdot] \<and> r \<noteq> []"
  using assms by (cases s; cases "tl s"; cases r) (auto simp: numeral_3_eq_3)

lemma take_slash_dot_dot:
  assumes "slash_free s"
  shows "take 4 (wslash # s @ render r) = [wslash, wdot, wdot, wslash] \<longleftrightarrow>
         s = [wdot, wdot] \<and> r \<noteq> []"
  using assms
  by (cases s; cases "tl s"; cases "tl (tl s)"; cases r) (auto simp: numeral_eq_Suc)

lemma segment_end_slash:
  assumes "slash_free s"
  shows "segment_end (wslash # s @ render r) = Suc (length s)"
proof (cases r)
  case Nil
  with assms show ?thesis
    by (simp add: segment_end_def std_find_def find_sub_single_None [THEN iffD2])
next
  case (Cons t u)
  with assms show ?thesis
    by (simp add: segment_end_def std_find_def find_sub_single_append)
qed

lemma segment_end_base:
  assumes "slash_free b" and "b \<noteq> []"
  shows "segment_end (b @ render r) = length b"
proof (cases r)
  case Nil
  with assms show ?thesis
    by (auto simp: segment_end_def std_find_def find_sub_single_None [THEN iffD2])
next
  case (Cons t u)
  with assms show ?thesis
    by (simp add: segment_end_def std_find_def find_sub_single_append)
qed

lemma drop_last_render:
  assumes "slash_free b" and "\<forall>s \<in> set st. slash_free s"
  shows "drop_last_segment (b @ render st) = b @ render (butlast st)"
proof (cases st rule: rev_cases)
  case Nil
  with assms(1) show ?thesis
    by (simp add: drop_last_segment_def std_find_last_None [THEN iffD2])
next
  case (snoc u s)
  with assms(2) have "slash_free s" by simp
  then have "std_find_last ((b @ render u) @ wslash # s) wslash = Some (length (b @ render u))"
    by (rule std_find_last_append)
  with snoc show ?thesis by (simp add: drop_last_segment_def)
qed

lemma rds_dot:
  "r \<noteq> [] \<Longrightarrow> remove_dot_segments (wslash # [wdot] @ render r) out = remove_dot_segments (render r) out"
  using hd_render [of r]
  by (auto simp: remove_dot_segments.simps [of "wslash # wdot # render r" out] std_find_zero std_replace_def)

lemma rds_dot_dot:
  "r \<noteq> [] \<Longrightarrow> remove_dot_segments (wslash # [wdot, wdot] @ render r) out =
     remove_dot_segments (render r) (drop_last_segment out)"
  using hd_render [of r]
  by (auto simp: remove_dot_segments.simps [of "wslash # wdot # wdot # render r" out] std_find_zero std_replace_def)

lemma rds_slash: "remove_dot_segments [wslash] out = out @ [wslash]"
  using segment_end_slash [of "[]" "[]"]
  by (simp add: remove_dot_segments.simps [of "[wslash]" out] std_find_zero remove_dot_segments.simps [of "[]" "out @ [wslash]"] std_find_zero)

lemma rds_dot_end: "remove_dot_segments [wslash, wdot] out = out @ [wslash]"
  by (simp add: remove_dot_segments.simps [of "[wslash, wdot]" out] std_find_zero std_replace_def rds_slash)

lemma rds_dot_dot_end:
  "remove_dot_segments [wslash, wdot, wdot] out = drop_last_segment out @ [wslash]"
  by (simp add: remove_dot_segments.simps [of "[wslash, wdot, wdot]" out] std_find_zero std_replace_def rds_slash)

lemma rds_segment:
  assumes "slash_free s" and "\<not> is_dot_segment s"
  shows "remove_dot_segments (wslash # s @ render r) out =
         remove_dot_segments (render r) (out @ wslash # s)"
proof -
  let ?i = "wslash # s @ render r"
  have "take 3 ?i \<noteq> [wslash, wdot, wslash]" "take 4 ?i \<noteq> [wslash, wdot, wdot, wslash]"
    using assms(2) take_slash_dot [OF assms(1), of r] take_slash_dot_dot [OF assms(1), of r]
    by (metis is_dot_segment_def)+
  then have "std_find ?i [wslash, wdot, wslash] 0 \<noteq> Some 0"
      "std_find ?i [wslash, wdot, wdot, wslash] 0 \<noteq> Some 0"
    by (simp_all add: std_find_zero numeral_eq_Suc)
  moreover have "s @ render r \<noteq> [wdot]" "s @ render r \<noteq> [wdot, wdot]"
    using assms by (cases s; cases "tl s"; cases r; auto simp: is_dot_segment_def)+
  moreover have "std_find ?i (wdot # p) 0 \<noteq> Some 0" for p
    by (simp add: std_find_zero)
  ultimately show ?thesis
    using assms by (subst remove_dot_segments.simps) (simp add: segment_end_slash)
qed

lemma rds_base:
  assumes "slash_free b" and "b \<noteq> []" and "\<not> is_dot_segment b"
  shows "remove_dot_segments (b @ render r) out = remove_dot_segments (render r) (out @ b)"
proof -
  let ?i = "b @ render r"
  have "std_find ?i [wdot, wdot, wslash] 0 \<noteq> Some 0" "std_find ?i [wdot, wslash] 0 \<noteq> Some 0"
    using assms by (cases b; cases "tl b"; cases "tl (tl b)"; cases r;
        auto simp: is_dot_segment_def std_find_zero)+
  moreover have "?i \<noteq> [wdot]" "?i \<noteq> [wdot, wdot]"
    using assms by (cases b; cases "tl b"; cases r; auto simp: is_dot_segment_def)+
  moreover have "std_find ?i (wslash # p) 0 \<noteq> Some 0" "?i \<noteq> wslash # p" for p
    using assms by (cases b; auto simp: std_find_zero)+
  ultimately show ?thesis
    using assms by (subst remove_dot_segments.simps) (simp add: segment_end_base)
qed

text \<open>The refinement: from a buffer that holds a slash-free base and rendered segments, the loop
  appends the normalised segments.\<close>

lemma rds_norm_segments:
  assumes "slash_free b" and "\<forall>s \<in> set st. slash_free s" and "\<forall>s \<in> set segs. slash_free s"
  shows "remove_dot_segments (render segs) (b @ render st) = b @ render (norm_segments st segs)"
  using assms
proof (induction st segs rule: norm_segments.induct)
  case (1 st)
  then show ?case by (simp add: remove_dot_segments.simps)
next
  case (2 st s)
  show ?case
  proof (cases "is_dot_segment s")
    case True
    with 2 show ?thesis
      by (auto simp: is_dot_segment_def rds_dot_end rds_dot_dot_end drop_last_render)
  next
    case False
    with 2 show ?thesis
      using rds_segment [of s "[]" "b @ render st"]
      by (auto simp: is_dot_segment_def remove_dot_segments.simps [of "[]"] std_find_zero)
  qed
next
  case (3 st s t r)
  show ?case
  proof (cases "is_dot_segment s")
    case True
    with 3 show ?thesis
      using rds_dot [of "t # r"] rds_dot_dot [of "t # r"]
      by (auto simp: is_dot_segment_def drop_last_render dest: in_set_butlastD)
  next
    case False
    with 3 show ?thesis
      using rds_segment [of s "t # r" "b @ render st"]
      by (auto simp: is_dot_segment_def)
  qed
qed

section \<open>Arbitrary names\<close>

text \<open>Every name is a base and rendered segments. \<open>norm_path\<close> adds the leading \<^verbatim>\<open>./\<close> and \<^verbatim>\<open>../\<close> that step
  2.A drops and the bare \<^verbatim>\<open>.\<close> or \<^verbatim>\<open>..\<close> of step 2.D.\<close>

abbreviation slash_split :: "wstring \<Rightarrow> wstring list" where
  "slash_split s \<equiv> split_on (\<lambda>c. c = wslash) s"

fun norm_path :: "wstring \<Rightarrow> wstring list \<Rightarrow> wstring \<times> wstring list" where
  "norm_path b [] = (if is_dot_segment b then ([], []) else (b, []))"
| "norm_path b (s # r) =
     (if is_dot_segment b then norm_path s r else (b, norm_segments [] (s # r)))"

definition clean_name :: "wstring \<Rightarrow> wstring \<times> wstring list" where
  "clean_name s = norm_path (hd (slash_split s)) (tl (slash_split s))"

lemma slash_split_render: "s = hd (slash_split s) @ render (tl (slash_split s))"
proof (induction s)
  case (Cons c s)
  obtain h t where "slash_split s = h # t" by (rule split_on_obtain)
  with Cons show ?case by auto
qed simp

lemma slash_split_free: "seg \<in> set (slash_split s) \<Longrightarrow> slash_free seg"
  by (auto dest: split_on_sep_free)

lemma rds_dot_base:
  assumes "is_dot_segment b"
  shows "remove_dot_segments (b @ render (s # r)) out = remove_dot_segments (s @ render r) out"
  using assms
  by (subst remove_dot_segments.simps) (auto simp: is_dot_segment_def std_find_zero std_replace_def)

lemma rds_norm_path:
  assumes "slash_free b" and "\<forall>s \<in> set segs. slash_free s"
  shows "remove_dot_segments (b @ render segs) [] =
         fst (norm_path b segs) @ render (snd (norm_path b segs))"
  using assms
proof (induction b segs rule: norm_path.induct)
  case (1 b)
  show ?case
  proof (cases "b = [] \<or> is_dot_segment b")
    case True
    then show ?thesis
      by (auto simp: is_dot_segment_def remove_dot_segments.simps [of "[]"]
          remove_dot_segments.simps [of "[wdot]"] remove_dot_segments.simps [of "[wdot, wdot]"]
          std_find_zero)
  next
    case False
    with 1 show ?thesis
      using rds_base [of b "[]" "[]"] by (simp add: remove_dot_segments.simps [of "[]"])
  qed
next
  case (2 b s r)
  show ?case
  proof (cases "is_dot_segment b")
    case True
    with 2 show ?thesis using rds_dot_base [OF True] by simp
  next
    case False
    have "remove_dot_segments (b @ render (s # r)) [] = remove_dot_segments (render (s # r)) b"
      using rds_base [of b "s # r" "[]"] False "2.prems" by (cases "b = []") simp_all
    with False 2 rds_norm_segments [of b "[]" "s # r"] show ?thesis by simp
  qed
qed

lemma remove_dot_segments_clean:
  "remove_dot_segments s [] = fst (clean_name s) @ render (snd (clean_name s))"
proof -
  have "slash_free (hd (slash_split s))" "\<forall>x \<in> set (tl (slash_split s)). slash_free x"
    using slash_split_free [of _ s] by (auto dest: list.set_sel(2) [rotated] intro: hd_in_set)
  then show ?thesis
    using rds_norm_path slash_split_render [of s] unfolding clean_name_def by metis
qed

lemma norm_segments_members:
  assumes "x \<in> set (norm_segments st segs)"
  shows "x \<in> set st \<or> (x \<in> set segs \<and> \<not> is_dot_segment x) \<or> x = []"
  using assms
  by (induction st segs rule: norm_segments.induct)
     (auto simp: is_dot_segment_def split: if_splits dest: in_set_butlastD)

lemma norm_path_members:
  assumes "x \<in> insert (fst (norm_path b segs)) (set (snd (norm_path b segs)))"
  shows "x \<in> insert [] (insert b (set segs)) \<and> \<not> is_dot_segment x"
  using assms
proof (induction b segs rule: norm_path.induct)
  case (1 b)
  then show ?case by (auto simp: is_dot_segment_def split: if_splits)
next
  case (2 b s r)
  show ?case
  proof (cases "is_dot_segment b")
    case True
    with 2 show ?thesis by auto
  next
    case False
    with "2.prems" norm_segments_members [of x "[]" "s # r"] show ?thesis
      by (auto simp: is_dot_segment_def simp del: norm_segments.simps)
  qed
qed

lemma clean_name_members:
  assumes "x \<in> insert (fst (clean_name s)) (set (snd (clean_name s)))"
  shows "\<not> is_dot_segment x \<and> slash_free x \<and> set x \<subseteq> set s"
proof -
  have "x = [] \<or> x \<in> set (slash_split s)"
    using norm_path_members [of x "hd (slash_split s)" "tl (slash_split s)"] assms
    by (auto simp: clean_name_def dest: list.set_sel(2) [rotated])
  then show ?thesis
    using norm_path_members [of x "hd (slash_split s)" "tl (slash_split s)"] assms
      slash_split_free [of x s] split_on_subset [of x _ s]
    by (auto simp: clean_name_def)
qed

lemma split_on_render:
  assumes "\<And>x. x \<in> insert b (set segs) \<Longrightarrow> \<forall>c \<in> set x. \<not> P c" and "P wslash"
  shows "split_on P (b @ render segs) = b # segs"
  using assms
proof (induction segs arbitrary: b)
  case (Cons s r)
  then have "split_on P b = [b]" "split_on P (s @ render r) = s # r"
    by (auto intro!: split_on_none Cons.IH)
  with Cons.prems(2) show ?case by (simp add: split_on_append)
qed (simp add: split_on_none)

lemma no_backslash_left: "wbackslash \<notin> set (replace_backslashes s)"
  by (auto simp: replace_backslashes_eq)

text \<open>The segments of a cleaned name, cut at either separator.\<close>

lemma clean_name_split:
  assumes "s = replace_backslashes raw"
  shows "split_on is_separator (remove_dot_segments s []) = fst (clean_name s) # snd (clean_name s)"
  unfolding remove_dot_segments_clean
proof (rule split_on_render)
  fix x assume "x \<in> insert (fst (clean_name s)) (set (snd (clean_name s)))"
  from clean_name_members [OF this] show "\<forall>c \<in> set x. \<not> is_separator c"
    using no_backslash_left [of raw] assms by (auto simp: is_separator_def)
qed (simp add: is_separator_def)

lemma norm_segments_no_dots:
  "\<forall>s \<in> set segs. \<not> is_dot_segment s \<Longrightarrow> norm_segments st segs = st @ segs"
  by (induction st segs rule: norm_segments.induct) (auto simp: is_dot_segment_def)

interpretation path_cache: memo_table "get_relative_file_path dir" "compute_path dir" for dir
  by unfold_locales (simp_all add: get_relative_file_path_def Let_def)

section \<open>Confinement\<close>

text \<open>A path stays in a directory when it extends the directory's path at a separator and none of
  the added segments, cut at either kind of separator, is \<^verbatim>\<open>.\<close> or \<^verbatim>\<open>..\<close>.\<close>

definition confined_in :: "wstring \<Rightarrow> wstring \<Rightarrow> bool" where
  "confined_in dir p \<longleftrightarrow>
     (\<exists>rest. p = dir @ rest
        \<and> (dir = [] \<or> rest = [] \<or> is_separator (last dir) \<or> is_separator (hd rest))
        \<and> list_all (\<lambda>s. \<not> is_dot_segment s) (split_on is_separator rest))"

lemma not_dot_Nil [simp]: "\<not> is_dot_segment []"
  by (simp add: is_dot_segment_def)

lemma clean_split_no_dots:
  "list_all (\<lambda>s. \<not> is_dot_segment s)
     (split_on is_separator (remove_dot_segments (replace_backslashes raw) []))"
  using clean_name_members [of _ "replace_backslashes raw"]
  by (auto simp: clean_name_split [OF refl] list_all_iff)

lemma compute_path_confined: "confined_in dir (compute_path dir raw)"
proof -
  let ?out = "remove_dot_segments (replace_backslashes raw) []"
  have sep: "is_separator wbackslash" by (simp add: is_separator_def)
  consider "compute_path dir raw = dir @ ?out"
      "dir = [] \<or> ?out = [] \<or> is_separator (last dir) \<or> is_separator (hd ?out)"
    | "compute_path dir raw = dir @ wbackslash # ?out"
    by (cases "dir = [] \<or> ?out = [] \<or> is_separator (last dir) \<or> is_separator (hd ?out)")
       (simp_all add: compute_path_def path_append_def)
  then show ?thesis
  proof cases
    case 1
    then show ?thesis using clean_split_no_dots unfolding confined_in_def by blast
  next
    case 2
    moreover have "list_all (\<lambda>s. \<not> is_dot_segment s) (split_on is_separator (wbackslash # ?out))"
      using clean_split_no_dots [of raw] sep by simp
    ultimately show ?thesis using sep unfolding confined_in_def
      by (intro exI [of _ "wbackslash # ?out"]) simp
  qed
qed

text \<open>Every path that a sequence of calls of \<^verbatim>\<open>get_relative_file_path\<close> hands to the file functions
  lies in the filesystem directory: it is the directory's path followed, at a separator, by
  segments none of which is \<^verbatim>\<open>.\<close> or \<^verbatim>\<open>..\<close>, whatever names the scripts pass, backslashes included.\<close>

theorem fs_paths_confined:
  "list_all (confined_in fs_directory)
     (fst (run_lookups (get_relative_file_path fs_directory) names Map.empty))"
  using path_cache.run_lookups_coherent [of fs_directory Map.empty names] compute_path_confined
  by (simp add: list_all_iff)

text \<open>C5. The dot-segment loop ends on every input and computes the stack reading of RFC 3986 on
  path segments: leading \<^verbatim>\<open>./\<close> and \<^verbatim>\<open>../\<close> are dropped, the first remaining segment is kept as it is,
  and on the rest \<^verbatim>\<open>.\<close> is skipped and \<^verbatim>\<open>..\<close> removes the segment before it.\<close>

theorem remove_dot_segments_refines:
  "remove_dot_segments input [] =
     fst (norm_path (hd (slash_split input)) (tl (slash_split input)))
     @ render (snd (norm_path (hd (slash_split input)) (tl (slash_split input))))"
  using remove_dot_segments_clean [of input] by (simp add: clean_name_def)

text \<open>Cleaning a cleaned name changes nothing: the loop is idempotent.\<close>

theorem remove_dot_segments_idempotent:
  "remove_dot_segments (remove_dot_segments input []) [] = remove_dot_segments input []"
proof -
  obtain b segs where c: "clean_name input = (b, segs)" by force
  have m: "\<not> is_dot_segment x \<and> slash_free x" if "x \<in> insert b (set segs)" for x
    using clean_name_members [of x input] that c by simp
  then have "norm_path b segs = (b, segs)"
    by (cases segs) (auto simp: norm_segments_no_dots simp del: norm_segments.simps)
  moreover have "remove_dot_segments (b @ render segs) [] =
      fst (norm_path b segs) @ render (snd (norm_path b segs))"
    using m by (intro rds_norm_path) auto
  ultimately show ?thesis using c by (simp add: remove_dot_segments_clean [of input])
qed

text \<open>The static cache is transparent: any sequence of lookups that starts with the empty cache
  returns, for each name, the path computed from it, so a repeated name always gets the same path.\<close>

theorem cached_paths_transparent:
  "fst (run_lookups (get_relative_file_path fs_directory) names Map.empty)
     = map (compute_path fs_directory) names"
  using path_cache.run_lookups_coherent [of fs_directory Map.empty names] by simp

text \<open>A relative name's first segment is never cancelled by a later \<^verbatim>\<open>..\<close>: the search for the
  last slash fails on the one-segment output buffer and leaves it alone, although the comment on
  step 2.C says the last segment is removed. The name \<^verbatim>\<open>a/../b\<close> becomes \<^verbatim>\<open>a/b\<close>.\<close>

theorem relative_base_kept:
  assumes "slash_free base" and "base \<noteq> []" and "\<not> is_dot_segment base"
    and "\<forall>s \<in> set segs. slash_free s"
  shows "remove_dot_segments (base @ render segs) [] = base @ render (norm_segments [] segs)"
  using assms rds_base [of base segs "[]"] rds_norm_segments [of base "[]" segs] by simp

theorem relative_base_kept_witness:
  "remove_dot_segments [97, wslash, wdot, wdot, wslash, 98] [] = [97, wslash, 98]"
  using relative_base_kept [of "[97]" "[[wdot, wdot], [98]]"]
  by (simp add: is_dot_segment_def)

lemma filename_sep_free:
  assumes "\<not> list_all is_separator p"
  shows "list_all (\<lambda>c. \<not> is_separator c) (filename p)"
proof -
  have drive: "set (after_drive s) \<subseteq> set s" for s
    by (induction s rule: after_drive.induct) auto
  obtain h t where sp: "split_on is_separator p = h # t" by (rule split_on_obtain)
  have free: "\<forall>c \<in> set x. \<not> is_separator c" if "x \<in> set (h # t)" for x
    using split_on_sep_free [of x is_separator p] sp that by auto
  have "\<forall>c \<in> set (filename p). \<not> is_separator c"
  proof (cases "is_separator (last p)")
    case True
    with assms show ?thesis by (auto simp: filename_def list_all_iff is_separator_def [of wdot])
  next
    case False
    show ?thesis
    proof (cases t)
      case Nil
      with False assms sp free [of h] drive [of h] show ?thesis
        by (auto simp: filename_def list_all_iff)
    next
      case (Cons u v)
      with False assms sp free [of "last t"] show ?thesis
        by (auto simp: filename_def list_all_iff)
    qed
  qed
  then show ?thesis by (simp add: list_all_iff)
qed

text \<open>A script name never reaches outside the application pool's folder of the known folder: for
  any name that is not made of separators only, \<^verbatim>\<open>get_path\<close> appends exactly one path element
  without separators.\<close>

theorem get_path_one_element:
  "list_all is_separator script \<or>
   (\<exists>name. get_path (Some known_folder) app_pool script =
             Inr (path_append (path_append known_folder app_pool) name)
           \<and> list_all (\<lambda>c. \<not> is_separator c) name)"
proof (cases "list_all is_separator script")
  case False
  then have "script \<noteq> []" by auto
  with False filename_sep_free show ?thesis
    by (intro disjI2 exI [of _ "filename script"]) (simp add: get_path_def)
qed simp

end
