(* ===== verification/Engine.thy ===== *)
theory Engine
  imports Path_Resolve
begin

text \<open>
  The life cycle of the script engine (\<^verbatim>\<open>v8_wrapper.cpp\<close>): the global handles, \<^verbatim>\<open>start\<close>, \<^verbatim>\<open>reset_engine\<close>,
  \<^verbatim>\<open>execute_string\<close>, \<^verbatim>\<open>execute_file\<close>, the functions \<^verbatim>\<open>print\<close>, \<^verbatim>\<open>load\<close>, \<^verbatim>\<open>register\<close> and \<^verbatim>\<open>fs.register\<close> (the
  ones that act on the engine), and the watching loop of \<^verbatim>\<open>load_and_watch\<close>. V8's compiler and the script's behaviour are a parameter: a
  script is a function from the results of its host calls so far to its next host call. The file
  system is a parameter too. Scripts may load scripts, so execution takes fuel: \<open>None\<close> means that the
  fuel ran out, and more fuel never changes a result (\<open>exec_more_fuel\<close>).
\<close>

section \<open>State\<close>

datatype CALLBACK_TYPES = BEGIN_REQUEST | SEND_RESPONSE | PRE_BEGIN_REQUEST

record engine =
  isolate :: bool
  shell_context :: nat                     \<comment> \<open>contexts created so far; \<open>0\<close> is an empty handle\<close>
  global_db_object :: "nat option"         \<comment> \<open>the context an object template was created in\<close>
  global_fetch_object :: "nat option"
  global_http_response_object :: "nat option"
  global_http_request_object :: "nat option"
  global_ipc_object :: "nat option"
  function_pre_begin_request :: "nat option"
  function_begin_request :: "nat option"
  function_directory_change :: "nat option"
  function_send_response :: "nat option"
  loaded_scripts :: "(wstring \<times> int) list"
  debug_output :: "bytes list"             \<comment> \<open>arguments of \<^verbatim>\<open>OutputDebugStringA\<close>, oldest first\<close>
  scheduled :: "bytes option"              \<comment> \<open>exception set with \<^verbatim>\<open>isolate->ThrowException\<close>\<close>

record disk =
  last_write_time :: "wstring \<Rightarrow> int option"
  time_error :: "wstring \<Rightarrow> string"        \<comment> \<open>\<^verbatim>\<open>what()\<close> of the \<^verbatim>\<open>filesystem_error\<close>\<close>
  open_rb :: "wstring \<Rightarrow> bytes option"     \<comment> \<open>contents, \<open>None\<close> if \<^verbatim>\<open>_wfopen\<close> fails\<close>
  read_error :: "wstring \<Rightarrow> bool"          \<comment> \<open>\<^verbatim>\<open>ferror\<close> after \<^verbatim>\<open>fread\<close>\<close>
  known_folder :: "wstring option"
  app_pool_folder_name :: wstring
  narrow :: "wstring \<Rightarrow> bytes"             \<comment> \<open>conversion of \<^verbatim>\<open>%ws\<close>\<close>

datatype host_action =
    Call_print js_args
  | Call_load js_args
  | Call_register js_args
  | Call_fs_register js_args
  | Finish bool                            \<comment> \<open>\<open>False\<close>: ended by an uncaught exception\<close>

record exception_message =
  linenum :: int
  sourceline :: "bytes option"
  start_column :: nat
  end_column :: nat
  stack_trace :: bytes                     \<comment> \<open>empty if there is none\<close>

record v8 =
  Compile :: "bytes \<Rightarrow> bool"
  Next :: "bytes \<Rightarrow> js_completion list \<Rightarrow> host_action"
  ToDetailString :: "js_value \<Rightarrow> bytes option"
  Exception_of :: "bytes \<Rightarrow> js_completion list \<Rightarrow> bytes option"
  Message_of :: "bytes \<Rightarrow> js_completion list \<Rightarrow> exception_message option"
  print_int :: "int \<Rightarrow> bytes"              \<comment> \<open>\<^verbatim>\<open>%i\<close>\<close>

section \<open>Debug output\<close>

text \<open>\<^verbatim>\<open>vs_printf\<close> formats into a buffer of 1024 bytes, of which the last is the terminator.\<close>

definition vs_printf :: "bytes \<Rightarrow> engine \<Rightarrow> engine" where
  "vs_printf str e = e\<lparr>debug_output := debug_output e @ [take 1023 str]\<rparr>"

primrec vs_prints :: "bytes list \<Rightarrow> engine \<Rightarrow> engine" where
  "vs_prints [] e = e"
| "vs_prints (b # bs) e = vs_prints bs (vs_printf b e)"

definition c_string :: "bytes option \<Rightarrow> bytes" where
  "c_string value = (case value of Some v \<Rightarrow> c_str v | None \<Rightarrow> ''<string conversion failed>'')"

definition newline :: bytes where "newline = [CHR 0x0A]"

definition report_exception :: "v8 \<Rightarrow> bytes \<Rightarrow> js_completion list \<Rightarrow> engine \<Rightarrow> engine" where
  "report_exception v src past e =
     (let exception_string = c_string (Exception_of v src past)
      in case Message_of v src past of
           None \<Rightarrow> vs_printf (exception_string @ newline) e
         | Some m \<Rightarrow>
             vs_prints
               ([print_int v (linenum m) @ '': '' @ exception_string @ newline,
                 c_string (sourceline m) @ newline]
                @ replicate (start_column m) '' ''
                @ replicate (end_column m - start_column m) ''^''
                @ [newline]
                @ (if stack_trace m \<noteq> [] then [c_str (stack_trace m) @ newline] else [])) e)"

section \<open>Host functions\<close>

text \<open>\<^verbatim>\<open>print\<close>: each argument, a space in front of every one but the first, and a newline.\<close>

fun print_args :: "v8 \<Rightarrow> nat \<Rightarrow> js_args \<Rightarrow> engine \<Rightarrow> (js_return, engine) result" where
  "print_args v i [] e = (Return RUndefined, vs_printf newline e)"
| "print_args v i (a # as) e =
     (case ToDetailString v a of
        None \<Rightarrow> (Crash, e)
      | Some value \<Rightarrow>
          let e1 = (if i \<noteq> 0 then vs_printf '' '' e else e)
          in print_args v (Suc i) as (vs_printf (c_str value) e1))"

definition print :: "v8 \<Rightarrow> js_args \<Rightarrow> engine \<Rightarrow> (js_return, engine) result" where
  "print v args e = print_args v 0 args e"

text \<open>\<^verbatim>\<open>CALLBACK_TYPES(int)\<close>, with \<open>None\<close> for the \<^verbatim>\<open>default\<close> branch.\<close>

definition callback_type :: "int \<Rightarrow> CALLBACK_TYPES option" where
  "callback_type i =
     (if i = 0 then Some BEGIN_REQUEST
      else if i = 1 then Some SEND_RESPONSE
      else if i = 2 then Some PRE_BEGIN_REQUEST
      else None)"

fun callback_slot :: "CALLBACK_TYPES \<Rightarrow> engine \<Rightarrow> nat option" where
  "callback_slot BEGIN_REQUEST e = function_begin_request e"
| "callback_slot SEND_RESPONSE e = function_send_response e"
| "callback_slot PRE_BEGIN_REQUEST e = function_pre_begin_request e"

fun set_callback :: "CALLBACK_TYPES \<Rightarrow> nat \<Rightarrow> engine \<Rightarrow> engine" where
  "set_callback BEGIN_REQUEST f e = e\<lparr>function_begin_request := Some f\<rparr>"
| "set_callback SEND_RESPONSE f e = e\<lparr>function_send_response := Some f\<rparr>"
| "set_callback PRE_BEGIN_REQUEST f e = e\<lparr>function_pre_begin_request := Some f\<rparr>"

text \<open>\<^verbatim>\<open>Local<Function>::Cast\<close>, used after \<^verbatim>\<open>IsFunction\<close>.\<close>

fun Function_Cast :: "js_value \<Rightarrow> nat" where
  "Function_Cast (Function f) = f" | "Function_Cast _ = 0"

definition register :: "js_args \<Rightarrow> engine \<Rightarrow> (js_return, engine) result" where
  "register args e =
     (if length args < 1 then (Throw ''invalid function signature for register'', e)
      else if length args = 1 \<and> IsFunction (arg args 0)
      then (Return RUndefined, set_callback BEGIN_REQUEST (Function_Cast (arg args 0)) e)
      else if \<not> IsNumber (arg args 0) \<or> \<not> IsFunction (arg args 1)
      then (Throw ''invalid function signature 2 for register'', e)
      else or_throw (from_v8_int (arg args 0)) e (\<lambda>type.
        case callback_type type of
          None \<Rightarrow> (Throw ''invalid callback type for register'', e)
        | Some t \<Rightarrow> (Return RUndefined, set_callback t (Function_Cast (arg args 1)) e)))"

text \<open>\<^verbatim>\<open>fs.register\<close> casts its argument without checking it; a value that is not a function fails V8's
  check.\<close>

definition fs_register :: "js_args \<Rightarrow> engine \<Rightarrow> (js_return, engine) result" where
  "fs_register args e =
     (if length args < 1 then (Throw ''invalid function signature for fs.register'', e)
      else if \<not> IsFunction (arg args 0) then (Crash, e)
      else (Return RUndefined, e\<lparr>function_directory_change := Some (Function_Cast (arg args 0))\<rparr>))"

section \<open>Executing scripts\<close>

definition ThrowException :: "bytes \<Rightarrow> engine \<Rightarrow> engine" where
  "ThrowException msg e = e\<lparr>scheduled := Some msg\<rparr>"

text \<open>A host function returns to its script: a C++ exception or a scheduled exception becomes the
  exception the script sees.\<close>

definition complete :: "(js_return, engine) result \<Rightarrow> js_completion \<times> engine" where
  "complete r =
     (case r of
        (Return x, e) \<Rightarrow>
          (case scheduled e of
             None \<Rightarrow> (JS_Value x, e)
           | Some msg \<Rightarrow> (JS_Exception msg, e\<lparr>scheduled := None\<rparr>))
      | (Throw msg, e) \<Rightarrow> (JS_Exception (c_str msg), e\<lparr>scheduled := None\<rparr>)
      | (Block, e) \<Rightarrow> (JS_Waits, e)
      | (Crash, e) \<Rightarrow> (JS_Dead, e))"

text \<open>The outcome of a call that did not return, at the type of its caller.\<close>

fun returned :: "'a outcome \<Rightarrow> bool" where
  "returned (Return _) = True" | "returned _ = False"

fun abort :: "'a outcome \<Rightarrow> 'b outcome" where
  "abort (Throw msg) = Throw msg"
| "abort Block = Block"
| "abort _ = Crash"

text \<open>\<open>execute_string\<close>, \<open>execute_file\<close> and \<open>load\<close> take the runner of compiled scripts as an argument, which
  ties the recursion through \<open>run\<close> below; \<open>None\<close> is an execution that ran out of fuel.\<close>

type_synonym script_runner = "bytes \<Rightarrow> js_completion list \<Rightarrow> engine \<Rightarrow> (bool, engine) result option"

definition execute_string :: "v8 \<Rightarrow> script_runner \<Rightarrow> bytes \<Rightarrow> engine \<Rightarrow> (bool, engine) result option" where
  "execute_string v runner source e =
     (if \<not> Compile v source then Some (Return False, report_exception v source [] e)
      else runner source [] e)"

definition execute_file ::
    "v8 \<Rightarrow> disk \<Rightarrow> script_runner \<Rightarrow> wstring \<Rightarrow> engine \<Rightarrow> (unit, engine) result option" where
  "execute_file v d runner script_path e =
     (case last_write_time d script_path of
        None \<Rightarrow> Some (Throw (time_error d script_path), e)
      | Some time \<Rightarrow>
          let e1 = e\<lparr>loaded_scripts := loaded_scripts e @ [(script_path, time)]\<rparr>
          in case open_rb d script_path of
               None \<Rightarrow>
                 Some (Return (), ThrowException ''failed to open a handle to the script file'' e1)
             | Some chars \<Rightarrow>
                 if read_error d script_path
                 then Some (Return (),
                            ThrowException ''failed to read the contents of the script file'' e1)
                 else map_option (\<lambda>r. chain r (\<lambda>ok e2.
                        if \<not> ok then (Return (), ThrowException ''failed to execute script file'' e2)
                        else (Return (),
                              vs_printf (''Loaded '' @ narrow d (filename script_path) @ '' script...''
                                         @ newline) e2)))
                      (execute_string v runner (c_str chars) e1))"

primrec load :: "v8 \<Rightarrow> disk \<Rightarrow> script_runner \<Rightarrow> js_args \<Rightarrow> engine \<Rightarrow> (js_return, engine) result option" where
  "load v d runner [] e = Some (Return RUndefined, e)"
| "load v d runner (a # as) e =
     (case from_v8_wstring a of
        Inl msg \<Rightarrow> Some (Throw msg, e)
      | Inr name \<Rightarrow>
          (case get_path (known_folder d) (app_pool_folder_name d) name of
             Inl msg \<Rightarrow> Some (Throw msg, e)
           | Inr path \<Rightarrow>
               (case execute_file v d runner path e of
                  None \<Rightarrow> None
                | Some r \<Rightarrow>
                    if returned (fst r) then load v d runner as (snd r)
                    else Some (abort (fst r), snd r))))"

text \<open>A host function ends and the script goes on, unless the process is gone.\<close>

definition resume ::
    "(js_completion \<Rightarrow> engine \<Rightarrow> (bool, engine) result option) \<Rightarrow> (js_return, engine) result
     \<Rightarrow> (bool, engine) result option" where
  "resume k r =
     (let c = complete r in if fst c = JS_Dead then Some (Crash, snd c) else k (fst c) (snd c))"

text \<open>One host call of a running script; the script goes on with the runner it is given.\<close>

definition run_step :: "v8 \<Rightarrow> disk \<Rightarrow> script_runner \<Rightarrow> script_runner" where
  "run_step v d runner source past e =
     (let go_on = (\<lambda>c e'. runner source (past @ [c]) e')
      in case Next v source past of
           Finish normal \<Rightarrow>
             Some (Return True, if normal then e else report_exception v source past e)
         | Call_print args \<Rightarrow> resume go_on (print v args e)
         | Call_register args \<Rightarrow> resume go_on (register args e)
         | Call_fs_register args \<Rightarrow> resume go_on (fs_register args e)
         | Call_load args \<Rightarrow>
             (case load v d runner args e of None \<Rightarrow> None | Some r \<Rightarrow> resume go_on r))"

primrec run :: "v8 \<Rightarrow> disk \<Rightarrow> nat \<Rightarrow> script_runner" where
  "run v d 0 = (\<lambda>source past e. None)"
| "run v d (Suc n) = run_step v d (run v d n)"

section \<open>Creating and resetting the engine\<close>

text \<open>\<^verbatim>\<open>if (global_x.IsEmpty()) global_x.Reset(...)\<close>: a template that exists is kept.\<close>

definition ensure :: "nat option \<Rightarrow> nat \<Rightarrow> nat option" where
  "ensure obj ctx = (case obj of None \<Rightarrow> Some ctx | Some c \<Rightarrow> Some c)"

definition initialize_objects :: "engine \<Rightarrow> engine" where
  "initialize_objects e =
     e\<lparr>global_ipc_object := ensure (global_ipc_object e) (shell_context e),
       global_db_object := ensure (global_db_object e) (shell_context e),
       global_fetch_object := ensure (global_fetch_object e) (shell_context e),
       global_http_response_object := ensure (global_http_response_object e) (shell_context e),
       global_http_request_object := ensure (global_http_request_object e) (shell_context e)\<rparr>"

definition reset_engine :: "engine \<Rightarrow> engine" where
  "reset_engine e =
     (let e1 = e\<lparr>global_http_response_object := None, global_http_request_object := None,
                 function_begin_request := None, function_directory_change := None,
                 function_send_response := None, function_pre_begin_request := None,
                 loaded_scripts := []\<rparr>
      in initialize_objects (e1\<lparr>shell_context := Suc (shell_context e1)\<rparr>))"

text \<open>\<^verbatim>\<open>start\<close> up to the watching loop: the isolate exists, nothing is loaded, and the root script is
  listed with the default file time.\<close>

definition no_engine :: engine where
  "no_engine = \<lparr>isolate = False, shell_context = 0, global_db_object = None, global_fetch_object = None,
     global_http_response_object = None, global_http_request_object = None, global_ipc_object = None,
     function_pre_begin_request = None, function_begin_request = None,
     function_directory_change = None, function_send_response = None, loaded_scripts = [],
     debug_output = [], scheduled = None\<rparr>"

definition file_time_default :: int where "file_time_default = 0"

definition start :: "wstring \<Rightarrow> engine" where
  "start script_path =
     no_engine\<lparr>isolate := True, loaded_scripts := [(script_path, file_time_default)]\<rparr>"

section \<open>Watching\<close>

text \<open>The inner loop: does one of the loaded scripts have another write time than recorded? Scripts
  whose time cannot be read are passed over.\<close>

primrec needs_reload :: "disk \<Rightarrow> (wstring \<times> int) list \<Rightarrow> bool" where
  "needs_reload d [] = False"
| "needs_reload d (script # rest) =
     (if (case last_write_time d (fst script) of None \<Rightarrow> False | Some t \<Rightarrow> snd script \<noteq> t)
      then True else needs_reload d rest)"

datatype wait = WAIT_OBJECT_0 | WAIT_TIMEOUT | WAIT_FAILED

record watcher =
  watched :: engine
  wait_for :: nat                 \<comment> \<open>the outer variable, declared before the loop\<close>
  change_notify_handle :: nat
  notifications_opened :: nat     \<comment> \<open>calls of \<^verbatim>\<open>FindFirstChangeNotificationW\<close>\<close>
  directory_calls :: "nat list"   \<comment> \<open>functions called by \<^verbatim>\<open>directory_change_callback\<close>\<close>

definition directory_change_callback :: "watcher \<Rightarrow> watcher" where
  "directory_change_callback w =
     (case function_directory_change (watched w) of
        None \<Rightarrow> w
      | Some f \<Rightarrow> w\<lparr>directory_calls := directory_calls w @ [f]\<rparr>)"

text \<open>One round of \<^verbatim>\<open>for (;;)\<close>. The second \<^verbatim>\<open>auto wait_for\<close> declares a new variable, so the outer one keeps
  its value. A C++ exception in this thread ends the process; an exception scheduled by
  \<^verbatim>\<open>execute_file\<close> finds no script to reach and is dropped.\<close>

definition watch_round ::
    "v8 \<Rightarrow> disk \<Rightarrow> nat \<Rightarrow> wstring \<Rightarrow> wait \<Rightarrow> watcher \<Rightarrow> (unit, watcher) result option" where
  "watch_round v d n script_path waited w =
     map_option (\<lambda>r.
        if \<not> returned (fst r) then (Crash, w\<lparr>watched := snd r\<rparr>)
        else
          let w1 = w\<lparr>watched := (snd r)\<lparr>scheduled := None\<rparr>\<rparr>;
              w2 = (if wait_for w1 \<noteq> 258
                    then w1\<lparr>change_notify_handle := Suc (notifications_opened w1),
                            notifications_opened := Suc (notifications_opened w1)\<rparr>
                    else w1)
          in (Return (), if waited = WAIT_OBJECT_0 then directory_change_callback w2 else w2))
      (if needs_reload d (loaded_scripts (watched w))
       then execute_file v d (run v d n) script_path (reset_engine (watched w))
       else Some (Return (), watched w))"

primrec watch_rounds ::
    "v8 \<Rightarrow> nat \<Rightarrow> wstring \<Rightarrow> (disk \<times> wait) list \<Rightarrow> watcher \<Rightarrow> (unit, watcher) result option" where
  "watch_rounds v n script_path [] w = Some (Return (), w)"
| "watch_rounds v n script_path (x # xs) w =
     (case watch_round v (fst x) n script_path (snd x) w of
        None \<Rightarrow> None
      | Some r \<Rightarrow>
          if returned (fst r) then watch_rounds v n script_path xs (snd r) else Some r)"

definition start_watching :: "wstring \<Rightarrow> watcher" where
  "start_watching script_path =
     \<lparr>watched = start script_path, wait_for = 0, change_notify_handle = 0,
      notifications_opened = 0, directory_calls = []\<rparr>"

text \<open>What \<^verbatim>\<open>load_and_watch\<close> does before its loop: it lists the root script, locates the filesystem directory
  and tries to create it when it is missing. \<open>is_directory\<close> and \<open>CreateDirectoryW\<close> are the answers of the
  operating system; a failure is only printed.\<close>

definition filesystem_name :: wstring where
  "filesystem_name = map of_char ''filesystem''"

definition load_and_watch_prologue ::
    "disk \<Rightarrow> (wstring \<Rightarrow> bool) \<Rightarrow> (wstring \<Rightarrow> bool) \<Rightarrow> wstring \<Rightarrow> engine \<Rightarrow> (wstring \<times> wstring, engine) result" where
  "load_and_watch_prologue d is_directory CreateDirectoryW script_name e =
     (case get_path (known_folder d) (app_pool_folder_name d) script_name of
        Inl msg \<Rightarrow> (Throw msg, e)
      | Inr script_path \<Rightarrow>
          let e1 = e\<lparr>loaded_scripts := loaded_scripts e @ [(script_path, file_time_default)]\<rparr>
          in case get_path (known_folder d) (app_pool_folder_name d) [] of
               Inl msg \<Rightarrow> (Throw msg, e1)
             | Inr folder \<Rightarrow>
                 let fs_directory = path_append (path_append folder (app_pool_folder_name d)) filesystem_name
                 in (Return (script_path, fs_directory),
                     if is_directory fs_directory then e1
                     else vs_printf (if CreateDirectoryW fs_directory
                                     then ''Successfully created a new workspace directory.'' @ newline
                                     else ''Failed to create a workspace directory!'' @ newline)
                            (vs_printf (''Attempting to create a filesystem directory.'' @ newline) e1)))"

text \<open>The root script and the filesystem directory lie in the same folder, and the engine then differs from
  the one the loop starts with in its debug output only.\<close>

lemma load_and_watch_prologue_paths:
  assumes "known_folder d = Some folder" and "script_name \<noteq> []"
    and "parent = path_append folder (app_pool_folder_name d)"
  shows "\<exists>out. load_and_watch_prologue d is_directory CreateDirectoryW script_name (no_engine\<lparr>isolate := True\<rparr>)
           = (Return (path_append parent (filename script_name), path_append parent filesystem_name),
              (start (path_append parent (filename script_name)))\<lparr>debug_output := out\<rparr>)"
  using assms
  by (cases "is_directory (path_append parent filesystem_name)")
    (force simp: load_and_watch_prologue_def get_path_def start_def no_engine_def vs_printf_def Let_def)+

text \<open>The function the server of debug builds binds to \<^verbatim>\<open>execute\<close>.\<close>

definition rpc_execute :: "v8 \<Rightarrow> script_runner \<Rightarrow> bytes \<Rightarrow> engine \<Rightarrow> (bool, engine) result option" where
  "rpc_execute v runner script e = execute_string v runner (c_str script) (reset_engine e)"

text \<open>A remote script runs in a fresh context without any registered function.\<close>

lemma rpc_execute_fresh:
  assumes "Compile v (c_str script)"
  shows "rpc_execute v runner script e = runner (c_str script) [] (reset_engine e)"
    and "callback_slot t (reset_engine e) = None"
  using assms by (auto simp: rpc_execute_def execute_string_def reset_engine_def initialize_objects_def Let_def)
    (cases t; simp)+

section \<open>Names cached across contexts\<close>

text \<open>\<open>names\<close> are the C strings behind the address \<open>lookup_key\<close>; an entry is a list of eternal handles,
  here the names they stand for.\<close>

definition find_or_create_eternal_name_cache ::
    "(nat \<Rightarrow> bytes list) \<Rightarrow> nat \<Rightarrow> (nat \<rightharpoonup> bytes list) \<Rightarrow> bytes list \<times> (nat \<rightharpoonup> bytes list)" where
  "find_or_create_eternal_name_cache names lookup_key cache =
     (case cache lookup_key of
        None \<Rightarrow> let new_vector = map c_str (names lookup_key)
                in (new_vector, cache(lookup_key \<mapsto> new_vector))
      | Some vector \<Rightarrow> (vector, cache))"

interpretation name_cache:
  memo_table "find_or_create_eternal_name_cache names" "\<lambda>k. map c_str (names k)" for names
  by unfold_locales (auto simp: find_or_create_eternal_name_cache_def Let_def)

section \<open>What scripts cannot break\<close>

text \<open>An invariant of the engine that survives the primitive effects of host functions survives every
  script, whatever it does and whatever scripts it loads.\<close>

lemma register_effect:
  "snd (register args e) = e \<or> (\<exists>ty f. snd (register args e) = set_callback ty f e)"
  unfolding register_def or_throw_def
  by (simp split: sum.split option.split del: set_callback.simps One_nat_def) blast

locale script_invariant =
  fixes d :: disk and I :: "engine \<Rightarrow> bool"
  assumes output_kept: "I e \<Longrightarrow> I (vs_printf b e)"
    and callback_kept: "I e \<Longrightarrow> I (set_callback ty f e)"
    and directory_kept: "I e \<Longrightarrow> I (e\<lparr>function_directory_change := Some f\<rparr>)"
    and schedule_kept: "I e \<Longrightarrow> I (e\<lparr>scheduled := x\<rparr>)"
    and push_kept: "I e \<Longrightarrow> last_write_time d p = Some t \<Longrightarrow>
                     I (e\<lparr>loaded_scripts := loaded_scripts e @ [(p, t)]\<rparr>)"
begin

lemma prints_kept: "I e \<Longrightarrow> I (vs_prints bs e)"
  by (induction bs arbitrary: e) (auto intro: output_kept)

lemma report_kept: "I e \<Longrightarrow> I (report_exception v src past e)"
  by (auto simp: report_exception_def Let_def split: option.split intro: prints_kept output_kept)

lemma throw_kept: "I e \<Longrightarrow> I (ThrowException msg e)"
  by (simp add: ThrowException_def schedule_kept)

lemma print_args_kept: "I e \<Longrightarrow> I (snd (print_args v i args e))"
  by (induction args arbitrary: i e) (auto simp: Let_def split: option.split intro: output_kept)

lemma register_kept: "I e \<Longrightarrow> I (snd (register args e))"
  using register_effect [of args e] by (auto simp del: set_callback.simps intro: callback_kept)

lemma fs_register_kept: "I e \<Longrightarrow> I (snd (fs_register args e))"
  by (simp add: fs_register_def directory_kept)

lemma chain_kept:
  "I (snd r) \<Longrightarrow> (\<And>a e. I e \<Longrightarrow> I (snd (k a e))) \<Longrightarrow> I (snd (chain r k))"
  by (auto simp: chain_def split: prod.split outcome.split)

lemma complete_kept: "I (snd r) \<Longrightarrow> I (snd (complete r))"
  by (auto simp: complete_def split: prod.splits outcome.splits option.splits intro: schedule_kept)

lemma execute_file_kept:
  assumes runner: "\<And>src past e r. runner src past e = Some r \<Longrightarrow> I e \<Longrightarrow> I (snd r)"
    and "execute_file v d runner p e = Some r" and "I e"
  shows "I (snd r)"
proof (cases "last_write_time d p")
  case (Some t)
  let ?e1 = "e\<lparr>loaded_scripts := loaded_scripts e @ [(p, t)]\<rparr>"
  have e1: "I ?e1" using push_kept [OF assms(3) Some] .
  have es: "I (snd r')" if "execute_string v runner src ?e1 = Some r'" for src r'
    using that e1 by (auto simp: execute_string_def split: if_splits intro: report_kept runner)
  have ch: "I (snd (chain r' (\<lambda>ok e2. if \<not> ok then (Return (), ThrowException m e2)
                              else (Return (), vs_printf b e2))))"
    if "execute_string v runner src ?e1 = Some r'" for src r' m b
    by (rule chain_kept [OF es [OF that]]) (simp add: throw_kept output_kept)
  show ?thesis
    using assms(2) Some e1
    by (auto simp: execute_file_def Let_def throw_kept simp del: split_paired_All
        dest!: ch split: option.splits if_splits)
qed (use assms in \<open>auto simp: execute_file_def\<close>)

lemma load_kept:
  assumes runner: "\<And>src past e r. runner src past e = Some r \<Longrightarrow> I e \<Longrightarrow> I (snd r)"
  shows "load v d runner names e = Some r \<Longrightarrow> I e \<Longrightarrow> I (snd r)"
proof (induction names arbitrary: e)
  case (Cons a as)
  have "I (snd r')" if "execute_file v d runner p e = Some r'" for p r'
    using runner that Cons.prems(2) by (rule execute_file_kept)
  with Cons show ?case
    by (auto simp del: split_paired_All split: sum.splits option.splits if_splits)
qed auto

lemma resume_kept:
  assumes "\<And>c e. I e \<Longrightarrow> k c e = Some r \<Longrightarrow> I (snd r)"
    and "resume k x = Some r" and "I (snd x)"
  shows "I (snd r)"
  using assms complete_kept [of x] by (auto simp: resume_def Let_def split: if_splits)

lemma run_kept: "run v d n src past e = Some r \<Longrightarrow> I e \<Longrightarrow> I (snd r)"
proof (induction n arbitrary: src past e r)
  case (Suc n)
  show ?case
  proof (cases "Next v src past")
    case (Call_print args)
    with Suc.prems(1) have "resume (\<lambda>c e'. run v d n src (past @ [c]) e') (print v args e) = Some r"
      by (simp add: run_step_def)
    moreover have "I (snd (print v args e))" using Suc.prems(2) by (simp add: print_def print_args_kept)
    ultimately show ?thesis by (rule resume_kept [rotated]) (rule Suc.IH)
  next
    case (Call_register args)
    with Suc.prems(1) have "resume (\<lambda>c e'. run v d n src (past @ [c]) e') (register args e) = Some r"
      by (simp add: run_step_def)
    moreover have "I (snd (register args e))" using Suc.prems(2) by (rule register_kept)
    ultimately show ?thesis by (rule resume_kept [rotated]) (rule Suc.IH)
  next
    case (Call_fs_register args)
    with Suc.prems(1) have "resume (\<lambda>c e'. run v d n src (past @ [c]) e') (fs_register args e) = Some r"
      by (simp add: run_step_def)
    moreover have "I (snd (fs_register args e))" using Suc.prems(2) by (rule fs_register_kept)
    ultimately show ?thesis by (rule resume_kept [rotated]) (rule Suc.IH)
  next
    case (Call_load args)
    with Suc.prems(1) obtain r' where
      r': "load v d (run v d n) args e = Some r'"
        "resume (\<lambda>c e'. run v d n src (past @ [c]) e') r' = Some r"
      by (auto simp: run_step_def split: option.splits)
    have "I (snd r')" using r'(1) Suc.prems(2) by (rule load_kept [rotated]) (rule Suc.IH)
    with r'(2) show ?thesis by (rule resume_kept [rotated]) (rule Suc.IH)
  qed (use Suc in \<open>auto simp: run_step_def intro: report_kept split: if_splits\<close>)
qed simp

lemma exec_kept:
  assumes "execute_file v d (run v d n) p e = Some r" and "I e"
  shows "I (snd r)"
  using run_kept assms by (rule execute_file_kept)

end

lemma set_callback_keeps [simp]:
  "loaded_scripts (set_callback ty f e) = loaded_scripts e"
  "function_directory_change (set_callback ty f e) = function_directory_change e"
  "shell_context (set_callback ty f e) = shell_context e"
  "isolate (set_callback ty f e) = isolate e"
  "debug_output (set_callback ty f e) = debug_output e"
  "global_http_response_object (set_callback ty f e) = global_http_response_object e"
  "global_http_request_object (set_callback ty f e) = global_http_request_object e"
  by (cases ty; simp)+

text \<open>Three invariants: the recorded write times are the current ones, the context and the object
  templates are those the last reset created, and the list of loaded scripts keeps its head.\<close>

definition times_current :: "disk \<Rightarrow> engine \<Rightarrow> bool" where
  "times_current d e \<longleftrightarrow> list_all (\<lambda>s. last_write_time d (fst s) = Some (snd s)) (loaded_scripts e)"

definition in_context :: "nat \<Rightarrow> engine \<Rightarrow> bool" where
  "in_context c e \<longleftrightarrow> shell_context e = c \<and> global_http_response_object e = Some c
     \<and> global_http_request_object e = Some c"

definition first_loaded :: "wstring \<times> int \<Rightarrow> engine \<Rightarrow> bool" where
  "first_loaded p e \<longleftrightarrow> loaded_scripts e \<noteq> [] \<and> hd (loaded_scripts e) = p"

interpretation current_times: script_invariant d "times_current d" for d
  by unfold_locales (simp_all add: times_current_def vs_printf_def)

interpretation same_context: script_invariant d "in_context c" for d c
  by unfold_locales (simp_all add: in_context_def vs_printf_def)

interpretation first_script: script_invariant d "first_loaded p" for d p
  by unfold_locales (simp_all add: first_loaded_def vs_printf_def)

lemma times_current_iff: "times_current d e \<Longrightarrow> \<not> needs_reload d (loaded_scripts e)"
proof -
  have "list_all (\<lambda>s. last_write_time d (fst s) = Some (snd s)) xs \<Longrightarrow> \<not> needs_reload d xs" for xs
    by (induction xs) auto
  then show "times_current d e \<Longrightarrow> ?thesis" by (simp add: times_current_def)
qed

lemma needs_reload_iff:
  "needs_reload d xs \<longleftrightarrow> (\<exists>s \<in> set xs. \<exists>t'. last_write_time d (fst s) = Some t' \<and> snd s \<noteq> t')"
  by (induction xs) (auto split: option.split)

lemma reset_engine_facts:
  "loaded_scripts (reset_engine e) = []"
  "function_directory_change (reset_engine e) = None"
  "in_context (Suc (shell_context e)) (reset_engine e)"
  "callback_slot ty (reset_engine e) = None"
  by (cases ty;
      simp add: reset_engine_def initialize_objects_def Let_def in_context_def ensure_def)+

text \<open>More fuel never changes the result of an execution that has one.\<close>

definition extends_runner :: "script_runner \<Rightarrow> script_runner \<Rightarrow> bool" where
  "extends_runner g h \<longleftrightarrow> (\<forall>src past e r. g src past e = Some r \<longrightarrow> h src past e = Some r)"

lemma extends_runnerD: "extends_runner g h \<Longrightarrow> g src past e = Some r \<Longrightarrow> h src past e = Some r"
  unfolding extends_runner_def by blast

lemma execute_file_mono:
  assumes "extends_runner g h" and "execute_file v d g p e = Some r"
  shows "execute_file v d h p e = Some r"
proof -
  have "execute_string v g src e' = Some r' \<Longrightarrow> execute_string v h src e' = Some r'" for src e' r'
    by (auto simp: execute_string_def split: if_splits intro: extends_runnerD [OF assms(1)])
  with assms(2) show ?thesis
    unfolding execute_file_def Let_def
    by (auto simp del: split_paired_All split_paired_Ex split: option.splits if_splits)
qed

lemma load_mono:
  assumes "extends_runner g h"
  shows "load v d g names e = Some r \<Longrightarrow> load v d h names e = Some r"
proof (induction names arbitrary: e)
  case (Cons a as)
  then show ?case
    by (auto simp del: split_paired_All split: sum.splits option.splits if_splits
        dest: execute_file_mono [OF assms])
qed simp

lemma run_step_mono:
  assumes "extends_runner g h"
  shows "extends_runner (run_step v d g) (run_step v d h)"
  unfolding extends_runner_def
proof (intro allI impI)
  fix src past e r
  assume r: "run_step v d g src past e = Some r"
  have go: "resume (\<lambda>c e'. h src (past @ [c]) e') x = Some r"
    if "resume (\<lambda>c e'. g src (past @ [c]) e') x = Some r" for x
    using that unfolding resume_def Let_def
    by (auto split: if_splits intro: extends_runnerD [OF assms])
  show "run_step v d h src past e = Some r"
  proof (cases "Next v src past")
    case (Call_load args)
    with r obtain x where "load v d g args e = Some x" "resume (\<lambda>c e'. g src (past @ [c]) e') x = Some r"
      by (auto simp: run_step_def split: option.splits)
    with Call_load load_mono [OF assms] go show ?thesis by (simp add: run_step_def)
  qed (use r go in \<open>simp_all add: run_step_def\<close>)
qed

lemma run_Suc: "extends_runner (run v d n) (run v d (Suc n))"
proof (induction n)
  case 0
  show ?case by (simp add: extends_runner_def)
next
  case (Suc n)
  then show ?case using run_step_mono [OF Suc] by simp
qed

lemma exec_more_fuel:
  assumes "execute_file v d (run v d n) p e = Some r" and "n \<le> m"
  shows "execute_file v d (run v d m) p e = Some r"
proof -
  have "extends_runner (run v d n) (run v d m)"
    using assms(2)
  proof (induction m rule: dec_induct)
    case base
    show ?case by (simp add: extends_runner_def)
  next
    case (step m)
    with run_Suc [of v d m] show ?case unfolding extends_runner_def by blast
  qed
  then show ?thesis using assms(1) by (rule execute_file_mono)
qed

section \<open>A round of the watching loop\<close>

lemma watch_round_cases:
  assumes "watch_round v d n p x w = Some (Return (), w')"
  obtains (reload) e where "needs_reload d (loaded_scripts (watched w))"
      "execute_file v d (run v d n) p (reset_engine (watched w)) = Some (Return (), e)"
      "watched w' = e\<lparr>scheduled := None\<rparr>"
  | (idle) "\<not> needs_reload d (loaded_scripts (watched w))" "watched w' = (watched w)\<lparr>scheduled := None\<rparr>"
proof (cases "needs_reload d (loaded_scripts (watched w))")
  case True
  with assms obtain r where r: "execute_file v d (run v d n) p (reset_engine (watched w)) = Some r"
      "returned (fst r)" "watched w' = (snd r)\<lparr>scheduled := None\<rparr>"
    by (auto simp: watch_round_def Let_def directory_change_callback_def
        split: if_splits option.splits)
  then have "r = (Return (), snd r)" by (cases r; cases "fst r") auto
  with True r reload [of "snd r"] show ?thesis by simp
next
  case False
  with assms idle show ?thesis
    by (auto simp: watch_round_def Let_def directory_change_callback_def
        split: if_splits option.splits)
qed

lemma watch_round_watcher:
  assumes "watch_round v d n p x w = Some (Return (), w')"
  shows "wait_for w' = wait_for w
     \<and> notifications_opened w' = (if wait_for w = 258 then id else Suc) (notifications_opened w)
     \<and> directory_calls w' = directory_calls w
          @ (case function_directory_change (watched w') of
               Some f \<Rightarrow> if x = WAIT_OBJECT_0 then [f] else [] | None \<Rightarrow> [])"
  using assms
  by (auto simp: watch_round_def Let_def directory_change_callback_def
      split: if_splits option.splits)

lemma executed_file_time:
  assumes "execute_file v d (run v d n) p e = Some (Return (), e')"
  obtains t where "last_write_time d p = Some t"
  using assms by (cases "last_write_time d p") (auto simp: execute_file_def)

lemma execute_file_first:
  assumes "execute_file v d (run v d n) p e = Some r" and "last_write_time d p = Some t"
    and "loaded_scripts e = []"
  shows "first_loaded (p, t) (snd r)"
proof -
  let ?e1 = "e\<lparr>loaded_scripts := loaded_scripts e @ [(p, t)]\<rparr>"
  have e1: "first_loaded (p, t) ?e1" using assms(3) by (simp add: first_loaded_def)
  have es: "first_loaded (p, t) (snd r')" if "execute_string v (run v d n) src ?e1 = Some r'" for src r'
    using that e1 first_script.run_kept
    by (auto simp: execute_string_def split: if_splits intro: first_script.report_kept)
  have ch: "first_loaded (p, t) (snd (chain r' (\<lambda>ok e2. if \<not> ok then (Return (), ThrowException m e2)
                              else (Return (), vs_printf b e2))))"
    if "execute_string v (run v d n) src ?e1 = Some r'" for src r' m b
    by (rule first_script.chain_kept [OF es [OF that]])
       (simp add: first_script.throw_kept first_script.output_kept)
  show ?thesis
    using assms(1,2) e1
    by (auto simp: execute_file_def Let_def first_script.throw_kept simp del: split_paired_All
        dest!: ch split: option.splits if_splits)
qed

section \<open>Properties\<close>


text \<open>The engine is replaced exactly when some loaded script that can be read has another write
  time than recorded. Then a new context exists, the request and response objects belong to it, and the main script heads the new list of loaded scripts;
  otherwise context and list are the old ones.\<close>
theorem reload_iff_changed:
  assumes "watch_round v d n p x w = Some (Return (), w')"
  shows "if \<exists>s \<in> set (loaded_scripts (watched w)). \<exists>t. last_write_time d (fst s) = Some t \<and> snd s \<noteq> t
         then in_context (Suc (shell_context (watched w))) (watched w')
              \<and> (\<exists>t. last_write_time d p = Some t \<and> first_loaded (p, t) (watched w'))
         else shell_context (watched w') = shell_context (watched w)
              \<and> loaded_scripts (watched w') = loaded_scripts (watched w)"
  using assms
proof (cases rule: watch_round_cases)
  case (reload e)
  obtain t where t: "last_write_time d p = Some t" using reload(2) by (rule executed_file_time)
  have "first_loaded (p, t) e"
    using execute_file_first [OF reload(2) t] by (simp add: reset_engine_facts)
  moreover have "in_context (Suc (shell_context (watched w))) e"
    using same_context.exec_kept [OF reload(2) reset_engine_facts(3)] by simp
  ultimately show ?thesis using reload t
    by (auto simp: needs_reload_iff first_loaded_def in_context_def)
next
  case idle
  then show ?thesis by (auto simp: needs_reload_iff)
qed

text \<open>Every round of the watching loop opens one more change notification and closes none, because
  the inner \<^verbatim>\<open>wait_for\<close> shadows the variable that should prevent it; the directory callback runs in
  the rounds that saw a change and in no others.\<close>
theorem watching_leaks_notifications:
  assumes "watch_rounds v n p rounds (start_watching p) = Some (Return (), w)"
  shows "notifications_opened w = length rounds
       \<and> length (directory_calls w) \<le> length (filter (\<lambda>x. snd x = WAIT_OBJECT_0) rounds)"
proof -
  have "wait_for w0 = 0 \<Longrightarrow> watch_rounds v n p rounds w0 = Some (Return (), w) \<Longrightarrow>
      notifications_opened w = notifications_opened w0 + length rounds
      \<and> length (directory_calls w)
          \<le> length (directory_calls w0) + length (filter (\<lambda>x. snd x = WAIT_OBJECT_0) rounds)"
    for w0
  proof (induction rounds arbitrary: w0)
    case (Cons a rounds)
    then obtain r where r: "watch_round v (fst a) n p (snd a) w0 = Some r" "returned (fst r)"
      "watch_rounds v n p rounds (snd r) = Some (Return (), w)"
      by (auto split: option.splits if_splits)
    then have w1: "watch_round v (fst a) n p (snd a) w0 = Some (Return (), snd r)"
      by (cases r; cases "fst r") auto
    from watch_round_watcher [OF w1] Cons.prems(1)
    have "wait_for (snd r) = 0" "notifications_opened (snd r) = Suc (notifications_opened w0)"
      "length (directory_calls (snd r))
         \<le> length (directory_calls w0) + (if snd a = WAIT_OBJECT_0 then 1 else 0)"
      by (auto split: option.splits)
    with Cons.IH [of "snd r"] r(3) show ?case by (auto split: if_splits)
  qed simp
  from this [of "start_watching p"] assms show ?thesis by (simp add: start_watching_def)
qed

text \<open>The registration a list of arguments asks for, by either signature.\<close>

fun registration :: "js_args \<Rightarrow> (CALLBACK_TYPES \<times> nat) option" where
  "registration [Function f] = Some (BEGIN_REQUEST, f)"
| "registration (Number k # Function f # _) =
     map_option (\<lambda>t. (t, f)) (callback_type (sint (int32_value k)))"
| "registration _ = None"

lemma callback_slot_set:
  "callback_slot t (set_callback u f e) = (if t = u then Some f else callback_slot t e)"
  by (cases t; cases u) simp_all

text \<open>\<^verbatim>\<open>register\<close> stores exactly the function its arguments name, under exactly the type they name,
  and keeps the other registrations; arguments of any other shape throw and change nothing.\<close>
theorem register_refines:
  "case registration args of
     Some (t, f) \<Rightarrow> \<exists>e'. register args e = (Return RUndefined, e')
        \<and> callback_slot u e' = (if u = t then Some f else callback_slot u e)
   | None \<Rightarrow> \<exists>msg. register args e = (Throw msg, e)"
  by (cases args rule: registration.cases)
     (auto simp: register_def callback_slot_set or_throw_def from_v8_int_def
       split: option.split simp del: set_callback.simps)

interpretation short_output: script_invariant d "\<lambda>e. list_all (\<lambda>b. length b \<le> 1023) (debug_output e)" for d
  by unfold_locales (simp_all add: vs_printf_def)

text \<open>No script can make the debug output overrun the 1024-byte buffer: everything passed to
  \<^verbatim>\<open>OutputDebugStringA\<close> while a script file and the scripts it loads run, error reports included, has
  at most 1023 bytes.\<close>
theorem debug_output_fits:
  assumes "execute_file v d (run v d n) p e = Some (r, e')"
    and "list_all (\<lambda>b. length b \<le> 1023) (debug_output e)"
  shows "list_all (\<lambda>b. length b \<le> 1023) (debug_output e')"
  using short_output.exec_kept [OF assms] by simp

text \<open>Scripts that make at most \<open>k\<close> host calls each and load each other without a cycle.\<close>

definition bounded_scripts :: "v8 \<Rightarrow> disk \<Rightarrow> nat \<Rightarrow> (bytes \<Rightarrow> nat) \<Rightarrow> bool" where
  "bounded_scripts v d k rank \<longleftrightarrow>
     (\<forall>src past. k \<le> length past \<longrightarrow> (\<exists>b. Next v src past = Finish b))
     \<and> (\<forall>src past args a name path chars.
          Next v src past = Call_load args \<longrightarrow> a \<in> set args \<longrightarrow> from_v8_wstring a = Inr name \<longrightarrow>
          get_path (known_folder d) (app_pool_folder_name d) name = Inr path \<longrightarrow>
          open_rb d path = Some chars \<longrightarrow> rank (c_str chars) < rank src)"

lemma execute_file_total:
  assumes "\<And>chars e. open_rb d p = Some chars \<Longrightarrow> \<exists>r. runner (c_str chars) [] e = Some r"
  shows "\<exists>r. execute_file v d runner p e = Some r"
proof -
  have "\<exists>r. execute_string v runner (c_str chars) e' = Some r" if "open_rb d p = Some chars" for chars e'
    using assms [OF that] by (simp add: execute_string_def)
  then show ?thesis
    by (simp add: execute_file_def Let_def split: option.split del: split_paired_Ex)
qed

lemma load_total:
  assumes "\<And>a name path chars e. a \<in> set names \<Longrightarrow> from_v8_wstring a = Inr name \<Longrightarrow>
      get_path (known_folder d) (app_pool_folder_name d) name = Inr path \<Longrightarrow>
      open_rb d path = Some chars \<Longrightarrow> \<exists>r. runner (c_str chars) [] e = Some r"
  shows "\<exists>r. load v d runner names e = Some r"
  using assms
proof (induction names arbitrary: e)
  case (Cons a as)
  have IH: "\<exists>r. load v d runner as e' = Some r" for e'
    by (rule Cons.IH) (rule Cons.prems, simp_all)
  show ?case
  proof (cases "from_v8_wstring a")
    case name: (Inr name)
    show ?thesis
    proof (cases "get_path (known_folder d) (app_pool_folder_name d) name")
      case path: (Inr path)
      have "\<exists>r. execute_file v d runner path e = Some r"
        by (rule execute_file_total) (rule Cons.prems [OF _ name path], simp_all)
      with IH name path show ?thesis by auto
    qed (simp add: name)
  qed simp
qed simp

lemma resume_total: "(\<And>c e. \<exists>r. k c e = Some r) \<Longrightarrow> \<exists>r. resume k x = Some r"
  by (simp add: resume_def Let_def)

lemma run_total:
  assumes "bounded_scripts v d k rank"
  shows "(k + 1) * rank src + (k + 1 - length past) \<le> n \<Longrightarrow> 0 < n \<Longrightarrow> \<exists>r. run v d n src past e = Some r"
proof (induction n arbitrary: src past e)
  case (Suc n)
  show ?case
  proof (cases "k \<le> length past")
    case True
    with assms obtain b where "Next v src past = Finish b" unfolding bounded_scripts_def by blast
    then show ?thesis by (simp add: run_step_def)
  next
    case False
    then have n: "(k + 1) * rank src + (k + 1 - length (past @ [c])) \<le> n" "0 < n" for c :: js_completion
      using Suc.prems(1) by auto
    have go: "\<exists>r. resume (\<lambda>c e'. run v d n src (past @ [c]) e') x = Some r" for x
      by (rule resume_total) (rule Suc.IH [OF n])
    show ?thesis
    proof (cases "Next v src past")
      case (Call_load args)
      have "\<exists>r. load v d (run v d n) args e = Some r"
      proof (rule load_total)
        fix a name path chars e'
        assume "a \<in> set args" "from_v8_wstring a = Inr name"
          "get_path (known_folder d) (app_pool_folder_name d) name = Inr path"
          "open_rb d path = Some chars"
        with assms Call_load have "rank (c_str chars) < rank src"
          unfolding bounded_scripts_def by blast
        then have "Suc (rank (c_str chars)) \<le> rank src" by simp
        then have "(k + 1) * Suc (rank (c_str chars)) \<le> (k + 1) * rank src" by (rule mult_le_mono2)
        with Suc.prems(1) False have "(k + 1) * rank (c_str chars) + (k + 1 - length []) \<le> n" by simp
        then show "\<exists>r. run v d n (c_str chars) [] e' = Some r" using n(2) by (rule Suc.IH)
      qed
      with Call_load go show ?thesis by (auto simp: run_step_def simp del: split_paired_Ex)
    qed (use go in \<open>auto simp: run_step_def simp del: split_paired_Ex\<close>)
  qed
qed simp


section \<open>Witnesses\<close>

text \<open>A main script that registers a callback, on a disk where every file is that script.\<close>

definition sample_v8 :: v8 where
  "sample_v8 = \<lparr>Compile = (\<lambda>_. True),
     Next = (\<lambda>_ past. if past = [] then Call_register [Function 7] else Finish True),
     ToDetailString = (\<lambda>_. Some []), Exception_of = (\<lambda>_ _. None), Message_of = (\<lambda>_ _. None),
     print_int = (\<lambda>_. [])\<rparr>"

definition sample_disk :: disk where
  "sample_disk = \<lparr>last_write_time = (\<lambda>_. Some 5), time_error = (\<lambda>_. []), open_rb = (\<lambda>_. Some []),
     read_error = (\<lambda>_. False), known_folder = Some [], app_pool_folder_name = [], narrow = (\<lambda>_. [])\<rparr>"

definition loaded_engine :: engine where
  "loaded_engine = vs_printf (''Loaded  script...'' @ newline)
     (no_engine\<lparr>isolate := True, shell_context := 1, global_db_object := Some 1,
        global_fetch_object := Some 1, global_http_response_object := Some 1,
        global_http_request_object := Some 1, global_ipc_object := Some 1,
        function_begin_request := Some 7, loaded_scripts := [([], 5)]\<rparr>)"

lemma sample_exec:
  "execute_file sample_v8 sample_disk (run sample_v8 sample_disk 2) [] (reset_engine (start []))
     = Some (Return (), loaded_engine)"
  by (simp add: execute_file_def execute_string_def run_step_def numeral_2_eq_2 sample_v8_def sample_disk_def
      resume_def complete_def register_def reset_engine_def initialize_objects_def start_def
      no_engine_def ensure_def vs_printf_def loaded_engine_def c_str_def)

definition watcher_after :: watcher where
  "watcher_after = \<lparr>watched = loaded_engine, wait_for = 0, change_notify_handle = 1,
      notifications_opened = 1, directory_calls = []\<rparr>"

lemma sample_round:
  "watch_round sample_v8 sample_disk 2 [] WAIT_TIMEOUT (start_watching []) = Some (Return (), watcher_after)"
proof -
  have "needs_reload sample_disk (loaded_scripts (start []))"
    by (simp add: start_def sample_disk_def file_time_default_def)
  moreover have "loaded_engine\<lparr>scheduled := None\<rparr> = loaded_engine"
    by (simp add: loaded_engine_def vs_printf_def no_engine_def)
  ultimately show ?thesis
    by (simp add: watch_round_def start_watching_def sample_exec watcher_after_def)
qed


theorem reload_iff_changed_witness:
  "in_context 1 loaded_engine \<and> first_loaded ([], 5) loaded_engine"
  using reload_iff_changed [OF sample_round]
  by (simp add: start_watching_def start_def no_engine_def sample_disk_def file_time_default_def
      watcher_after_def)

theorem watching_leaks_notifications_witness:
  "notifications_opened watcher_after = 1 \<and> length (directory_calls watcher_after) \<le> 0"
  using watching_leaks_notifications
    [of sample_v8 2 "[]" "[(sample_disk, WAIT_TIMEOUT)]" watcher_after] sample_round
  by simp

theorem debug_output_fits_witness:
  "list_all (\<lambda>b. length b \<le> 1023) (debug_output loaded_engine)"
  using debug_output_fits [OF sample_exec]
  by (simp add: reset_engine_def initialize_objects_def start_def no_engine_def)


end
