(* ===== verification/Dispatch.thy ===== *)
theory Dispatch
  imports Engine "HOL-Library.Multiset"
begin

text \<open>
  From the server's pipeline into the script and back: \<^verbatim>\<open>handle_callback\<close> of \<^verbatim>\<open>v8_wrapper.cpp\<close>, the
  notification methods of \<^verbatim>\<open>http_module.cpp\<close>, \<^verbatim>\<open>RegisterModule\<close> of \<^verbatim>\<open>main.cpp\<close> and the module factory.
  Calling a JavaScript function is a parameter; it may change the engine (a callback can register
  another one) and gives a value or, after an uncaught exception, nothing. A promise that is still
  pending is recorded together with the context to complete, and settling it runs the attached
  function. The properties concern the status codes handed to the pipeline and the completion of
  pending requests.
\<close>

section \<open>Status codes\<close>

definition RQ_NOTIFICATION_CONTINUE :: int where "RQ_NOTIFICATION_CONTINUE = 0"
definition RQ_NOTIFICATION_PENDING :: int where "RQ_NOTIFICATION_PENDING = 1"
definition RQ_NOTIFICATION_FINISH_REQUEST :: int where "RQ_NOTIFICATION_FINISH_REQUEST = 2"
definition GL_NOTIFICATION_CONTINUE :: int where "GL_NOTIFICATION_CONTINUE = 0"
definition GL_NOTIFICATION_HANDLED :: int where "GL_NOTIFICATION_HANDLED = 1"

lemmas status_defs =
  RQ_NOTIFICATION_CONTINUE_def RQ_NOTIFICATION_PENDING_def RQ_NOTIFICATION_FINISH_REQUEST_def
  GL_NOTIFICATION_CONTINUE_def GL_NOTIFICATION_HANDLED_def

section \<open>State\<close>

text \<open>Arguments of a callback: clones of the response and the request object, whose internal fields
  hold the context, and for \<^verbatim>\<open>SEND_RESPONSE\<close> the provider's flags.\<close>

record callback_arguments =
  http_response_object :: nat
  http_request_object :: nat
  flags :: "u32 option"

record server =
  engine :: engine
  invocations :: "(nat \<times> callback_arguments) list"
  awaiting :: "(nat \<times> nat) list"       \<comment> \<open>promise and context of every attached continuation\<close>
  completed :: "(nat \<times> int) list"      \<comment> \<open>calls of \<^verbatim>\<open>IndicateCompletion\<close>\<close>
  exceptions :: "bytes list"            \<comment> \<open>exceptions raised with \<^verbatim>\<open>v8pp::throw_ex\<close>\<close>

type_synonym js_call = "nat \<Rightarrow> callback_arguments \<Rightarrow> engine \<Rightarrow> js_value option \<times> engine"

section \<open>Handling a notification\<close>

definition number_or_zero :: "js_value \<Rightarrow> int" where
  "number_or_zero v = from_v8_default from_v8_int v 0"

text \<open>The part of \<^verbatim>\<open>handle_callback\<close> after the call of the function.\<close>

definition handle_result :: "CALLBACK_TYPES \<Rightarrow> nat \<Rightarrow> js_value \<Rightarrow> server \<Rightarrow> int \<times> server" where
  "handle_result type pHttpContext result_value s =
     (if type = PRE_BEGIN_REQUEST \<and> \<not> IsNumber result_value
      then (0, s\<lparr>exceptions := exceptions s @
                  [''The PRE_BEGIN_REQUEST callback must return either CONTINUE or FINISH.'']\<rparr>)
      else case result_value of
        Fulfilled x \<Rightarrow>
          (if number_or_zero x \<noteq> 0 then RQ_NOTIFICATION_FINISH_REQUEST else RQ_NOTIFICATION_CONTINUE, s)
      | Rejected x \<Rightarrow>
          (if number_or_zero x \<noteq> 0 then RQ_NOTIFICATION_FINISH_REQUEST else RQ_NOTIFICATION_CONTINUE, s)
      | PendingPromise p \<Rightarrow>
          (RQ_NOTIFICATION_PENDING, s\<lparr>awaiting := awaiting s @ [(p, pHttpContext)]\<rparr>)
      | _ \<Rightarrow>
          (if number_or_zero result_value \<noteq> 0
           then (if type = PRE_BEGIN_REQUEST then GL_NOTIFICATION_HANDLED
                 else RQ_NOTIFICATION_FINISH_REQUEST)
           else RQ_NOTIFICATION_CONTINUE, s))"

definition arguments_for :: "CALLBACK_TYPES \<Rightarrow> nat \<Rightarrow> u32 \<Rightarrow> callback_arguments" where
  "arguments_for type pHttpContext provider_flags =
     \<lparr>http_response_object = pHttpContext, http_request_object = pHttpContext,
      flags = (if type = SEND_RESPONSE then Some provider_flags else None)\<rparr>"

definition handle_callback ::
    "js_call \<Rightarrow> CALLBACK_TYPES \<Rightarrow> nat \<Rightarrow> u32 \<Rightarrow> server \<Rightarrow> int \<times> server" where
  "handle_callback Call type pHttpContext provider_flags s =
     (if \<not> isolate (engine s) then (0, s)
      else case callback_slot type (engine s) of
        None \<Rightarrow> (0, s)
      | Some f \<Rightarrow>
          let arguments = arguments_for type pHttpContext provider_flags;
              (result, e) = Call f arguments (engine s);
              s1 = s\<lparr>engine := e, invocations := invocations s @ [(f, arguments)]\<rparr>
          in case result of
               None \<Rightarrow> (0, s1)
             | Some result_value \<Rightarrow> handle_result type pHttpContext result_value s1)"

text \<open>The function attached with \<^verbatim>\<open>promise->Then(context, function, function)\<close>: settling a promise, either
  way, indicates completion for every context that waits on it, in the order of attachment.\<close>

definition completion_status :: "js_value \<Rightarrow> int" where
  "completion_status v =
     (if number_or_zero v \<noteq> 0 then RQ_NOTIFICATION_FINISH_REQUEST else RQ_NOTIFICATION_CONTINUE)"

definition promise_settled :: "nat \<Rightarrow> js_value \<Rightarrow> server \<Rightarrow> server" where
  "promise_settled p v s =
     s\<lparr>completed := completed s @
         map (\<lambda>(q, c). (c, completion_status v)) (filter (\<lambda>(q, c). q = p) (awaiting s)),
       awaiting := filter (\<lambda>(q, c). q \<noteq> p) (awaiting s)\<rparr>"

section \<open>The native module\<close>

definition OnBeginRequest :: "js_call \<Rightarrow> nat \<Rightarrow> u32 \<Rightarrow> server \<Rightarrow> int \<times> server" where
  "OnBeginRequest Call pHttpContext pProvider s = handle_callback Call BEGIN_REQUEST pHttpContext pProvider s"

definition OnSendResponse :: "js_call \<Rightarrow> nat \<Rightarrow> u32 \<Rightarrow> server \<Rightarrow> int \<times> server" where
  "OnSendResponse Call pHttpContext pProvider s = handle_callback Call SEND_RESPONSE pHttpContext pProvider s"

definition OnGlobalPreBeginRequest :: "js_call \<Rightarrow> nat \<Rightarrow> u32 \<Rightarrow> server \<Rightarrow> int \<times> server" where
  "OnGlobalPreBeginRequest Call context_of_provider pProvider s =
     handle_callback Call PRE_BEGIN_REQUEST context_of_provider pProvider s"

datatype registration_call = SetGlobalNotifications | SetRequestNotifications bool bool

text \<open>\<^verbatim>\<open>RegisterModule\<close>: \<open>hr\<close> gives the result of each registration call; the second one is made only if
  the first succeeded. \<^verbatim>\<open>FAILED(hr)\<close> is \<open>hr < 0\<close>.\<close>

definition RegisterModule ::
    "(registration_call \<Rightarrow> int) \<Rightarrow> wstring \<Rightarrow> int \<times> watcher \<times> registration_call list" where
  "RegisterModule hr script_path =
     (let w = start_watching script_path
      in if hr SetGlobalNotifications < 0
         then (hr SetGlobalNotifications, w, [SetGlobalNotifications])
         else (hr (SetRequestNotifications True True), w,
               [SetGlobalNotifications, SetRequestNotifications True True]))"

text \<open>\<^verbatim>\<open>ModuleFactory::GetHttpModule\<close>: \<open>allocated\<close> is the result of \<^verbatim>\<open>new HttpModule\<close>.\<close>

definition GetHttpModule :: "nat option \<Rightarrow> int \<times> nat option" where
  "GetHttpModule allocated =
     (case allocated of None \<Rightarrow> (- 2147024888, None) | Some pModule \<Rightarrow> (0, Some pModule))"

section \<open>Runs of the server\<close>

text \<open>An event is a notification from the pipeline, a promise that settles, or a step of the engine
  thread that replaces the engine. \<open>statuses\<close> records every status handed to the pipeline.\<close>

datatype event =
    Notify CALLBACK_TYPES nat u32
  | Settled nat js_value
  | Engine_Changed engine

fun serve_event :: "js_call \<Rightarrow> event \<Rightarrow> server \<times> (CALLBACK_TYPES \<times> nat \<times> int) list
    \<Rightarrow> server \<times> (CALLBACK_TYPES \<times> nat \<times> int) list" where
  "serve_event Call (Notify type c fl) (s, statuses) =
     (let (st, s') = handle_callback Call type c fl s in (s', statuses @ [(type, c, st)]))"
| "serve_event Call (Settled p v) (s, statuses) = (promise_settled p v s, statuses)"
| "serve_event Call (Engine_Changed e) (s, statuses) = (s\<lparr>engine := e\<rparr>, statuses)"

definition initial_server :: server where
  "initial_server = \<lparr>engine = no_engine, invocations = [], awaiting = [], completed = [], exceptions = []\<rparr>"

definition serve_events :: "js_call \<Rightarrow> event list \<Rightarrow> server \<times> (CALLBACK_TYPES \<times> nat \<times> int) list" where
  "serve_events Call es = fold (serve_event Call) es (initial_server, [])"

text \<open>The contexts to which a pending status was returned, and the contexts waited for or completed.\<close>

definition pending_contexts :: "(CALLBACK_TYPES \<times> nat \<times> int) list \<Rightarrow> nat list" where
  "pending_contexts statuses =
     map (\<lambda>(t, c, st). c)
       (filter (\<lambda>(t, c, st). t \<noteq> PRE_BEGIN_REQUEST \<and> st = RQ_NOTIFICATION_PENDING) statuses)"

definition accounted :: "server \<Rightarrow> nat multiset" where
  "accounted s = mset (map snd (awaiting s)) + mset (map fst (completed s))"

section \<open>What one notification does\<close>

lemma handle_callback_called:
  assumes "isolate (engine s)" and "callback_slot type (engine s) = Some f"
    and "Call f (arguments_for type c fl) (engine s) = (r, e)"
  shows "handle_callback Call type c fl s =
     (let t = s\<lparr>engine := e, invocations := invocations s @ [(f, arguments_for type c fl)]\<rparr>
      in case r of None \<Rightarrow> (0, t) | Some v \<Rightarrow> handle_result type c v t)"
  using assms by (simp add: handle_callback_def)

lemma handle_callback_cases:
  obtains (through) "handle_callback Call type c fl s = (0, s)"
  | (empty) t where "handle_callback Call type c fl s = (0, t)" "awaiting t = awaiting s"
      "completed t = completed s"
  | (result) v t where "handle_callback Call type c fl s = handle_result type c v t"
      "awaiting t = awaiting s" "completed t = completed s"
proof (cases "isolate (engine s) \<and> callback_slot type (engine s) \<noteq> None")
  case True
  then obtain f where f: "isolate (engine s)" "callback_slot type (engine s) = Some f" by auto
  obtain r e where r: "Call f (arguments_for type c fl) (engine s) = (r, e)" by force
  note h = handle_callback_called [where Call = Call, OF f r]
  show ?thesis
  proof (cases r)
    case None
    with h show ?thesis
      by (intro empty [of "s\<lparr>engine := e, invocations := invocations s @ [(f, arguments_for type c fl)]\<rparr>"])
        (simp_all add: Let_def)
  next
    case (Some v)
    with h show ?thesis
      by (intro result [of v "s\<lparr>engine := e, invocations := invocations s @ [(f, arguments_for type c fl)]\<rparr>"])
        (simp_all add: Let_def)
  qed
next
  case False
  then show ?thesis by (intro through) (auto simp: handle_callback_def)
qed

text \<open>The status \<open>st\<close> is legal for the notification, and the waiting list grew from \<open>old\<close> to \<open>new\<close> by an
  entry for the context exactly when the status is pending.\<close>

definition legal_status ::
    "CALLBACK_TYPES \<Rightarrow> nat \<Rightarrow> int \<Rightarrow> (nat \<times> nat) list \<Rightarrow> (nat \<times> nat) list \<Rightarrow> bool" where
  "legal_status type c st old new \<longleftrightarrow>
     (if type = PRE_BEGIN_REQUEST
      then st \<in> {GL_NOTIFICATION_CONTINUE, GL_NOTIFICATION_HANDLED} \<and> new = old
      else if st = RQ_NOTIFICATION_PENDING then \<exists>p. new = old @ [(p, c)]
      else st \<in> {RQ_NOTIFICATION_CONTINUE, RQ_NOTIFICATION_FINISH_REQUEST} \<and> new = old)"

lemma handle_result_status:
  assumes "handle_result type c v t = (st, t')"
  shows "completed t' = completed t \<and> invocations t' = invocations t
     \<and> legal_status type c st (awaiting t) (awaiting t')"
  using assms by (cases v) (auto simp: handle_result_def legal_status_def status_defs split: if_splits)

lemma handle_callback_status:
  assumes "handle_callback Call type c fl s = (st, s')"
  shows "completed s' = completed s
     \<and> legal_status type c st (awaiting s) (awaiting s')"
proof (cases Call type c fl s rule: handle_callback_cases)
  case (result v t)
  with assms handle_result_status [of type c v t st s'] show ?thesis by simp
qed (use assms in \<open>auto simp: legal_status_def status_defs\<close>)

lemma handle_callback_accounts:
  assumes "handle_callback Call type c fl s = (st, s')"
  shows "accounted s' = accounted s
      + (if type \<noteq> PRE_BEGIN_REQUEST \<and> st = RQ_NOTIFICATION_PENDING then {#c#} else {#})"
  using handle_callback_status [OF assms] by (auto simp: accounted_def legal_status_def split: if_splits)

lemma promise_settled_accounts: "accounted (promise_settled p v s) = accounted s"
proof -
  have "mset (map fst (map (\<lambda>(q, c). (c, x)) (filter (\<lambda>(q, c). q = p) xs)))
      + mset (map snd (filter (\<lambda>(q, c). q \<noteq> p) xs)) = mset (map snd xs)"
    for xs :: "(nat \<times> nat) list" and x :: int
    by (induction xs) auto
  then show ?thesis by (simp add: accounted_def promise_settled_def ac_simps)
qed

lemma serve_event_accounts:
  assumes "accounted (fst x) = mset (pending_contexts (snd x))"
  shows "accounted (fst (serve_event Call ev x)) = mset (pending_contexts (snd (serve_event Call ev x)))"
proof (cases x)
  case (Pair s statuses)
  show ?thesis
  proof (cases ev)
    case (Notify type c fl)
    obtain st s' where h: "handle_callback Call type c fl s = (st, s')" by force
    from handle_callback_accounts [OF h] assms Pair Notify h show ?thesis
      by (simp add: pending_contexts_def)
  next
    case (Settled p v)
    with assms Pair show ?thesis by (simp add: promise_settled_accounts)
  next
    case (Engine_Changed e)
    with assms Pair show ?thesis by (simp add: accounted_def)
  qed
qed

section \<open>Properties\<close>

text \<open>C2. Every request the pipeline was told to hold is released exactly once: in every run of
  notifications, settling promises and engine reloads, the contexts to which
  \<^verbatim>\<open>RQ_NOTIFICATION_PENDING\<close> was returned are, counted with multiplicity, exactly the contexts still
  waiting on a promise together with those for which completion was indicated.\<close>
theorem completion_exactly_once:
  "mset (pending_contexts (snd (serve_events Call es)))
     = mset (map snd (awaiting (fst (serve_events Call es))))
       + mset (map fst (completed (fst (serve_events Call es))))"
proof -
  have "accounted (fst x) = mset (pending_contexts (snd x)) \<Longrightarrow>
      accounted (fst (fold (serve_event Call) es x)) = mset (pending_contexts (snd (fold (serve_event Call) es x)))"
    for x
    by (induction es arbitrary: x) (simp_all add: serve_event_accounts)
  from this [of "(initial_server, [])"] show ?thesis
    by (simp add: serve_events_def accounted_def initial_server_def pending_contexts_def)
qed

text \<open>C15. The pipeline only gets codes that are legal for the notification: a global notification is
  continued or handled and never held, a request notification is continued, held or finished, and
  it is held exactly when a continuation for its context was attached to a pending promise.\<close>
theorem status_legal:
  "legal_status type c (fst (handle_callback Call type c fl s))
     (awaiting s) (awaiting (snd (handle_callback Call type c fl s)))"
  using handle_callback_status [of Call type c fl s] by (cases "handle_callback Call type c fl s") simp

text \<open>After \<^verbatim>\<open>RegisterModule\<close> and after every reset of the engine, until a script registers a
  callback, notifications of all types pass through: the status is \<^verbatim>\<open>CONTINUE\<close>, no script function is
  called and nothing changes.\<close>
theorem unregistered_passes_through:
  "engine s = watched (fst (snd (RegisterModule hr script_path))) \<or> engine s = reset_engine e \<Longrightarrow>
   handle_callback Call type c fl s = (RQ_NOTIFICATION_CONTINUE, s)"
proof -
  assume a: "engine s = watched (fst (snd (RegisterModule hr script_path))) \<or> engine s = reset_engine e"
  have "watched (fst (snd (RegisterModule hr script_path))) = start script_path"
    by (simp add: RegisterModule_def start_watching_def Let_def)
  moreover have "callback_slot type (start script_path) = None"
    by (cases type) (simp_all add: start_def no_engine_def)
  ultimately have "callback_slot type (engine s) = None" using a reset_engine_facts(4) by auto
  then show ?thesis by (simp add: handle_callback_def status_defs)
qed

theorem unregistered_passes_through_witness:
  "handle_callback (\<lambda>_ _ e. (None, e)) BEGIN_REQUEST 1 0
      (initial_server\<lparr>engine := reset_engine no_engine\<rparr>)
   = (RQ_NOTIFICATION_CONTINUE, initial_server\<lparr>engine := reset_engine no_engine\<rparr>)"
  by (rule unregistered_passes_through [of _ "\<lambda>_. 0" "[]" no_engine]) simp

text \<open>A registered function is the one that is called: after a successful \<^verbatim>\<open>register\<close> for a type, a
  notification of that type calls that function once, with the response and the request of the
  notifying context, and with the provider's flags if and only if a response is being sent.\<close>
theorem registered_is_called:
  assumes "isolate (engine s)" and "registration args = Some (type, f)"
  shows "\<exists>e'. register args (engine s) = (Return RUndefined, e')
       \<and> invocations (snd (handle_callback Call type c fl (s\<lparr>engine := e'\<rparr>)))
           = invocations s @ [(f, \<lparr>http_response_object = c, http_request_object = c,
                                   flags = (if type = SEND_RESPONSE then Some fl else None)\<rparr>)]"
proof -
  have reg: "register args (engine s) = (Return RUndefined, set_callback type f (engine s))"
    using assms(2)
    by (cases args rule: registration.cases)
       (auto simp: register_def or_throw_def from_v8_int_def simp del: set_callback.simps)
  let ?s = "s\<lparr>engine := set_callback type f (engine s)\<rparr>"
  obtain r e where r: "Call f (arguments_for type c fl) (engine ?s) = (r, e)" by force
  have "invocations (snd (handle_result type c v t)) = invocations t" for v t
    using handle_result_status [of type c v t] by (cases "handle_result type c v t") auto
  with handle_callback_called [where Call = Call, OF _ _ r] assms(1)
  have "invocations (snd (handle_callback Call type c fl ?s)) = invocations s @ [(f, arguments_for type c fl)]"
    by (simp add: callback_slot_set Let_def split: option.split)
  with reg show ?thesis by (simp add: arguments_for_def)
qed

theorem registered_is_called_witness:
  "\<exists>e'. register [Function 7] (start []) = (Return RUndefined, e')
     \<and> invocations (snd (handle_callback (\<lambda>_ _ e. (None, e)) BEGIN_REQUEST 3 0
           (initial_server\<lparr>engine := e'\<rparr>)))
       = [(7, \<lparr>http_response_object = 3, http_request_object = 3, flags = None\<rparr>)]"
proof -
  let ?s = "initial_server\<lparr>engine := start []\<rparr>"
  have "isolate (engine ?s)" "registration [Function 7] = Some (BEGIN_REQUEST, 7)"
    by (simp_all add: start_def)
  from registered_is_called [OF this, of "\<lambda>_ _ e. (None, e)" 3 0] show ?thesis
    by (simp add: initial_server_def)
qed

end
