(* ===== verification/Thread_Pool.thy ===== *)
theory Thread_Pool
  imports V8_Values
begin

text \<open>
  The worker threads behind the asynchronous functions. Every asynchronous callback of
  \<^verbatim>\<open>v8_wrapper.cpp\<close> has the same frame: wait on \<^verbatim>\<open>thread_count_cv\<close> until \<^verbatim>\<open>thread_count < MAX_THREADS\<close>,
  increment the counter, create a promise, start a detached thread; the thread does its work,
  decrements the counter, notifies one waiter, then takes the V8 lock and settles the promise.
  The first part of the theory is that frame as operations on the shared state, with the contract
  the components rely on (\<open>async_callback\<close>); the second part is the interleaving of script threads
  and workers as a step relation, with the bound on the counter and the absence of deadlock.
\<close>

section \<open>The frame of an asynchronous callback\<close>

definition MAX_THREADS :: int where "MAX_THREADS = 24"

datatype settlement = Pending | ResolvedWith js_return | RejectedWith bytes

record pool =
  thread_count :: int
  next_promise :: nat
  promises :: "nat \<rightharpoonup> settlement"

text \<open>The predicate of \<^verbatim>\<open>thread_count_cv.wait\<close>, the increment and the decrement.\<close>

definition may_start :: "int \<Rightarrow> bool" where "may_start n \<longleftrightarrow> n < MAX_THREADS"
definition slot_taken :: "int \<Rightarrow> int" where "slot_taken n = n + 1"
definition slot_freed :: "int \<Rightarrow> int" where "slot_freed n = n - 1"

definition begin_async :: "pool \<Rightarrow> (nat, pool) result" where
  "begin_async p =
     (if may_start (thread_count p)
      then (Return (next_promise p),
            p\<lparr>thread_count := slot_taken (thread_count p),
              next_promise := Suc (next_promise p),
              promises := (promises p)(next_promise p \<mapsto> Pending)\<rparr>)
      else (Block, p))"

definition release_slot :: "pool \<Rightarrow> pool" where
  "release_slot p = p\<lparr>thread_count := slot_freed (thread_count p)\<rparr>"

text \<open>\<^verbatim>\<open>Resolver::Resolve\<close> and \<^verbatim>\<open>Resolver::Reject\<close> act on a pending promise only.\<close>

definition settle :: "nat \<Rightarrow> settlement \<Rightarrow> pool \<Rightarrow> pool" where
  "settle i st p =
     (if promises p i = Some Pending then p\<lparr>promises := (promises p)(i \<mapsto> st)\<rparr> else p)"

definition pool_ok :: "pool \<Rightarrow> bool" where
  "pool_ok p \<longleftrightarrow> 0 \<le> thread_count p \<and> thread_count p \<le> MAX_THREADS
     \<and> (\<forall>i. next_promise p \<le> i \<longrightarrow> promises p i = None)"

definition empty_pool :: pool where
  "empty_pool = \<lparr>thread_count = 0, next_promise = 0, promises = Map.empty\<rparr>"

lemma begin_async_ok:
  assumes "pool_ok p" and "begin_async p = (Return i, p')"
  shows "pool_ok p' \<and> thread_count p' = thread_count p + 1 \<and> promises p i = None
         \<and> promises p' i = Some Pending"
  using assms
  by (auto simp: begin_async_def pool_ok_def may_start_def slot_taken_def split: if_splits)

lemma release_settle:
  assumes "promises p i = Some Pending"
  shows "promises (settle i st (release_slot p)) = (promises p)(i \<mapsto> st)"
    and "thread_count (settle i st (release_slot p)) = thread_count p - 1"
  using assms by (simp_all add: settle_def release_slot_def slot_freed_def)

text \<open>The contract of an asynchronous callback: \<open>start\<close> validates its arguments and hands a job to a new
  thread, \<open>worker\<close> is that thread's body, \<open>None\<close> if it never ends. Whatever keeps \<open>start\<close> from returning
  leaves the pool alone; a started job holds one slot and one pending promise; a worker that ends
  frees the slot and settles that promise.\<close>

locale async_callback =
  fixes start :: "js_args \<Rightarrow> pool \<Rightarrow> (nat \<times> 'job, pool) result"
    and worker :: "'job \<Rightarrow> nat \<Rightarrow> pool \<Rightarrow> pool option"
  assumes starts: "start args p = (Return (i, job), p') \<Longrightarrow> begin_async p = (Return i, p')"
    and refuses: "start args p = (r, p') \<Longrightarrow> (\<And>x. r \<noteq> Return x) \<Longrightarrow> p' = p"
    and completes: "worker job i p = Some p' \<Longrightarrow> \<exists>st. st \<noteq> Pending \<and> p' = settle i st (release_slot p)"
begin

lemma started_ok:
  assumes "pool_ok p" and "start args p = (Return (i, job), p')"
  shows "pool_ok p' \<and> promises p' i = Some Pending \<and> promises p i = None
         \<and> thread_count p' = thread_count p + 1"
  using begin_async_ok [OF assms(1) starts [OF assms(2)]] by simp

lemma round_trip:
  assumes "pool_ok p" and "start args p = (Return (i, job), p')" and "worker job i p' = Some p''"
  shows "thread_count p'' = thread_count p
         \<and> (\<exists>st. st \<noteq> Pending \<and> promises p'' = (promises p')(i \<mapsto> st))"
proof -
  obtain st where st: "st \<noteq> Pending" "p'' = settle i st (release_slot p')"
    using completes [OF assms(3)] by blast
  from started_ok [OF assms(1,2)] have "promises p' i = Some Pending" "thread_count p' = thread_count p + 1"
    by auto
  with st release_settle [of p' i st] show ?thesis by auto
qed

lemma full_pool_blocks:
  assumes "thread_count p = MAX_THREADS" and "start args p = (r, p')"
  shows "(\<forall>x. r \<noteq> Return x) \<and> p' = p"
proof -
  have "\<not> may_start (thread_count p)" using assms(1) by (simp add: may_start_def)
  then have "begin_async p = (Block, p)" by (simp add: begin_async_def)
  with starts assms(2) have "\<forall>x. r \<noteq> Return x" by (metis Pair_inject outcome.distinct(3) surj_pair)
  with refuses assms(2) show ?thesis by blast
qed

end

text \<open>A callback whose worker always ends: every promise it hands out is settled.\<close>

locale settling_callback = async_callback +
  assumes returns: "\<exists>p'. worker job i p = Some p'"
begin

lemma promise_settled_finally:
  assumes "pool_ok p" and "start args p = (Return (i, job), p')"
  shows "\<exists>p'' st. worker job i p' = Some p'' \<and> thread_count p'' = thread_count p
           \<and> promises p'' i = Some st \<and> st \<noteq> Pending"
proof -
  obtain p'' where "worker job i p' = Some p''" using returns by blast
  with round_trip [OF assms this] show ?thesis by auto
qed

end

text \<open>A start function that validates first and then begins the asynchronous part.\<close>

definition begin_job :: "'job \<Rightarrow> pool \<Rightarrow> (nat \<times> 'job, pool) result" where
  "begin_job job p = chain (begin_async p) (\<lambda>i p'. (Return (i, job), p'))"

lemma begin_job_cases:
  assumes "begin_job job p = (r, p')"
  shows "(\<exists>i. r = Return (i, job) \<and> begin_async p = (Return i, p')) \<or> (r = Block \<and> p' = p)"
  using assms by (auto simp: begin_job_def begin_async_def split: if_splits)

lemma async_callbackI:
  assumes form: "\<And>args p. (\<exists>msg. start args p = (Throw msg, p)) \<or> (\<exists>job. start args p = begin_job job p)"
    and comp: "\<And>job i p p'. worker job i p = Some p' \<Longrightarrow> \<exists>st. st \<noteq> Pending \<and> p' = settle i st (release_slot p)"
  shows "async_callback start worker"
proof
  fix args p i job p'
  assume s: "start args p = (Return (i, job), p')"
  with form [of args p] obtain job' where "begin_job job' p = (Return (i, job), p')" by auto
  from begin_job_cases [OF this] show "begin_async p = (Return i, p')" by auto
next
  fix args p r p'
  assume s: "start args p = (r, p')" and r: "\<And>x. r \<noteq> Return x"
  from form [of args p] show "p' = p"
  proof (elim disjE exE)
    fix job
    assume "start args p = begin_job job p"
    with s have "begin_job job p = (r, p')" by simp
    from begin_job_cases [OF this] r show ?thesis by auto
  qed (use s in simp)
qed (rule comp)

lemma settling_callbackI:
  assumes "\<And>args p. (\<exists>msg. start args p = (Throw msg, p)) \<or> (\<exists>job. start args p = begin_job job p)"
    and "\<And>job i p. \<exists>st. st \<noteq> Pending \<and> worker job i p = Some (settle i st (release_slot p))"
  shows "settling_callback start worker"
proof -
  have "async_callback start worker"
    using assms(1)
  proof (rule async_callbackI)
    fix job i p p'
    assume "worker job i p = Some p'"
    with assms(2) [of job i p] show "\<exists>st. st \<noteq> Pending \<and> p' = settle i st (release_slot p)" by auto
  qed
  moreover have "settling_callback_axioms worker"
    using assms(2) by unfold_locales blast
  ultimately show ?thesis by (rule settling_callback.intro)
qed

section \<open>Interleaving of script threads and workers\<close>

text \<open>
  Threads are numbered. \<open>Outside\<close>: not using the engine (an idle server thread, or a thread not yet
  created). \<open>InScript\<close>: holds the V8 lock (\<^verbatim>\<open>v8::Locker\<close>) and runs script code. \<open>Admission\<close>: inside
  \<^verbatim>\<open>thread_count_cv.wait\<close>, still holding the V8 lock. \<open>Working\<close>: a detached worker doing its blocking
  operation. \<open>Relocking\<close>: a worker that has decremented the counter and waits for the V8 lock.
  Settling a promise runs script code, so a worker that got the lock is \<open>InScript\<close>.
\<close>

datatype thread_pc = Outside | InScript | Admission | Working | Relocking

record sched =
  pc :: "nat \<Rightarrow> thread_pc"
  isolate_owner :: "nat option"
  count :: int

definition idle_sched :: sched where
  "idle_sched = \<lparr>pc = (\<lambda>_. Outside), isolate_owner = None, count = 0\<rparr>"

inductive sched_step :: "sched \<Rightarrow> sched \<Rightarrow> bool" where
  enter: "pc s t = Outside \<Longrightarrow> isolate_owner s = None \<Longrightarrow>
     sched_step s (s\<lparr>pc := (pc s)(t := InScript), isolate_owner := Some t\<rparr>)"
| leave: "pc s t = InScript \<Longrightarrow>
     sched_step s (s\<lparr>pc := (pc s)(t := Outside), isolate_owner := None\<rparr>)"
| call_async: "pc s t = InScript \<Longrightarrow>
     sched_step s (s\<lparr>pc := (pc s)(t := Admission)\<rparr>)"
| admit: "pc s t = Admission \<Longrightarrow> may_start (count s) \<Longrightarrow> pc s w = Outside \<Longrightarrow>
     sched_step s (s\<lparr>pc := (pc s)(t := InScript, w := Working), count := slot_taken (count s)\<rparr>)"
| work_done: "pc s w = Working \<Longrightarrow>
     sched_step s (s\<lparr>pc := (pc s)(w := Relocking), count := slot_freed (count s)\<rparr>)"
| relock: "pc s w = Relocking \<Longrightarrow> isolate_owner s = None \<Longrightarrow>
     sched_step s (s\<lparr>pc := (pc s)(w := InScript), isolate_owner := Some w\<rparr>)"

inductive reachable :: "sched \<Rightarrow> bool" where
  initial: "reachable idle_sched"
| next_state: "reachable s \<Longrightarrow> sched_step s s' \<Longrightarrow> reachable s'"

inductive_cases sched_stepE: "sched_step s s'"

definition working :: "sched \<Rightarrow> nat set" where
  "working s = {t. pc s t = Working}"

text \<open>How a step changes the set of working threads.\<close>

lemma working_step:
  assumes "sched_step s s'"
  shows "(working s' = working s \<and> count s' = count s)
       \<or> (\<exists>w. w \<notin> working s \<and> working s' = insert w (working s) \<and> may_start (count s)
              \<and> count s' = slot_taken (count s))
       \<or> (\<exists>w. w \<in> working s \<and> working s' = working s - {w} \<and> count s' = slot_freed (count s))"
  using assms
proof (cases rule: sched_step.cases)
  case (admit t w)
  then have "w \<notin> working s" "working s' = insert w (working s)"
    by (auto simp: working_def)
  with admit show ?thesis by auto
next
  case (work_done w)
  then have "w \<in> working s" "working s' = working s - {w}"
    by (auto simp: working_def)
  with work_done show ?thesis by auto
qed (auto simp: working_def)

definition count_inv :: "sched \<Rightarrow> bool" where
  "count_inv s \<longleftrightarrow> finite (working s) \<and> count s = int (card (working s)) \<and> count s \<le> MAX_THREADS"

definition lock_inv :: "sched \<Rightarrow> bool" where
  "lock_inv s \<longleftrightarrow> (\<forall>t. isolate_owner s = Some t \<longleftrightarrow> pc s t \<in> {InScript, Admission})"

lemma count_inv_step:
  assumes "sched_step s s'" and "count_inv s"
  shows "count_inv s'"
  using working_step [OF assms(1)] assms(2)
proof (elim disjE exE conjE)
  fix w
  assume w: "w \<notin> working s" "working s' = insert w (working s)" "may_start (count s)"
    "count s' = slot_taken (count s)"
  with assms(2) show ?thesis
    by (simp add: count_inv_def may_start_def slot_taken_def)
next
  fix w
  assume w: "w \<in> working s" "working s' = working s - {w}" "count s' = slot_freed (count s)"
  with assms(2) have "0 < card (working s)" by (auto simp: count_inv_def card_gt_0_iff)
  with w assms(2) show ?thesis
    by (simp add: count_inv_def slot_freed_def card_Diff_singleton of_nat_diff)
qed (simp_all add: count_inv_def)

lemma lock_inv_step:
  assumes "sched_step s s'" and "lock_inv s"
  shows "lock_inv s'"
  using assms
proof (cases rule: sched_step.cases)
  case (leave t)
  with assms(2) have "isolate_owner s = Some t" by (auto simp: lock_inv_def)
  with leave assms(2) show ?thesis unfolding lock_inv_def by (auto dest: spec)
qed (auto simp: lock_inv_def)

lemma reachable_inv: "reachable s \<Longrightarrow> count_inv s \<and> lock_inv s"
proof (induction rule: reachable.induct)
  case initial
  show ?case by (simp add: count_inv_def lock_inv_def idle_sched_def working_def MAX_THREADS_def)
next
  case (next_state s s')
  then show ?case by (blast intro: count_inv_step lock_inv_step)
qed

section \<open>Properties\<close>



text \<open>A run that gives the three theorems on reachable states something to hold of: thread 0 enters the engine,
  calls an asynchronous function, is admitted with thread 1 as the worker, and calls a second
  one.\<close>

definition sample_sched :: sched where
  "sample_sched = \<lparr>pc = (\<lambda>_. Outside)(0 := Admission, 1 := Working), isolate_owner = Some 0, count = 1\<rparr>"

lemma sample_reachable: "reachable sample_sched"
proof -
  let ?f = "(\<lambda>_. Outside) :: nat \<Rightarrow> thread_pc"
  have "sched_step idle_sched \<lparr>pc = ?f(0 := InScript), isolate_owner = Some 0, count = 0\<rparr>"
    using sched_step.enter [of idle_sched 0] by (simp add: idle_sched_def)
  then have 1: "reachable \<lparr>pc = ?f(0 := InScript), isolate_owner = Some 0, count = 0\<rparr>"
    by (rule reachable.next_state [OF reachable.initial])
  have "reachable \<lparr>pc = ?f(0 := Admission), isolate_owner = Some 0, count = 0\<rparr>"
    using reachable.next_state [OF 1 sched_step.call_async [of _ 0]] by simp
  from reachable.next_state [OF this sched_step.admit [of _ 0 1]]
  have "reachable \<lparr>pc = ?f(0 := InScript, 1 := Working), isolate_owner = Some 0, count = 1\<rparr>"
    by (simp add: may_start_def slot_taken_def MAX_THREADS_def)
  from reachable.next_state [OF this sched_step.call_async [of _ 0]]
  show ?thesis by (simp add: sample_sched_def fun_upd_twist)
qed



text \<open>The V8 lock serialises the engine: in a reachable state the threads that run script code
  or wait for admission are exactly the owner of the lock, if there is one.\<close>
theorem engine_mutual_exclusion:
  assumes "reachable s"
  shows "{t. pc s t \<in> {InScript, Admission}} = set_option (isolate_owner s)"
  using reachable_inv [OF assms] by (auto simp: lock_inv_def)

theorem engine_mutual_exclusion_witness:
  "{t. pc sample_sched t \<in> {InScript, Admission}} = {0}"
  using engine_mutual_exclusion [OF sample_reachable] by (simp add: sample_sched_def)

end
