(* ===== verification/Weak_Objects.thy ===== *)
theory Weak_Objects
  imports V8_Values
begin

text \<open>
  JavaScript objects with a native context behind them (\<^verbatim>\<open>IPCHandler\<close>, \<^verbatim>\<open>DbHandler\<close>, \<^verbatim>\<open>FetchResponse\<close> of
  \<^verbatim>\<open>v8_wrapper.h\<close>): the constructor stores the context in the internal field, a weak callback deletes
  the context when the object is collected, and both adjust V8's count of external memory. The
  contract \<open>weak_handle\<close> and the balance of that count are shared by the three kinds of object.
\<close>

section \<open>Objects\<close>

record 'c heap =
  handlers :: "(nat \<times> 'c) list"   \<comment> \<open>live handlers: object and native context\<close>
  cleared :: "nat list"            \<comment> \<open>objects whose internal field was set to null\<close>
  external_memory :: int           \<comment> \<open>sum of \<^verbatim>\<open>AdjustAmountOfExternalAllocatedMemory\<close>\<close>
  next_object :: nat

definition empty_heap :: "'c heap" where
  "empty_heap = \<lparr>handlers = [], cleared = [], external_memory = 0, next_object = 0\<rparr>"

text \<open>Clone the template, create the handler, make it weak and account for its size.\<close>

definition new_object :: "('c \<Rightarrow> int) \<Rightarrow> 'c \<Rightarrow> 'c heap \<Rightarrow> nat \<times> 'c heap" where
  "new_object capacity c h =
     (next_object h,
      h\<lparr>handlers := (next_object h, c) # handlers h,
        external_memory := external_memory h + capacity c,
        next_object := Suc (next_object h)\<rparr>)"

text \<open>The weak callback.\<close>

definition collect :: "('c \<Rightarrow> int) \<Rightarrow> nat \<Rightarrow> 'c heap \<Rightarrow> 'c heap" where
  "collect capacity i h =
     (case map_of (handlers h) i of
        None \<Rightarrow> h
      | Some c \<Rightarrow> h\<lparr>handlers := filter (\<lambda>x. fst x \<noteq> i) (handlers h),
                     external_memory := external_memory h - capacity c\<rparr>)"

text \<open>\<^verbatim>\<open>GetAlignedPointerFromInternalField(0)\<close> of a reachable object, \<^verbatim>\<open>SetAlignedPointerInInternalField(0,
  nullptr)\<close>, and an update of the context behind the pointer.\<close>

definition internal_pointer :: "nat \<Rightarrow> 'c heap \<Rightarrow> 'c option" where
  "internal_pointer i h = (if i \<in> set (cleared h) then None else map_of (handlers h) i)"

definition clear_pointer :: "nat \<Rightarrow> 'c heap \<Rightarrow> 'c heap" where
  "clear_pointer i h = h\<lparr>cleared := i # cleared h\<rparr>"

definition set_context :: "nat \<Rightarrow> 'c \<Rightarrow> 'c heap \<Rightarrow> 'c heap" where
  "set_context i c h = h\<lparr>handlers := map (\<lambda>x. if fst x = i then (i, c) else x) (handlers h)\<rparr>"

section \<open>The balance of external memory\<close>

definition heap_ok :: "('c \<Rightarrow> int) \<Rightarrow> 'c heap \<Rightarrow> bool" where
  "heap_ok capacity h \<longleftrightarrow>
     external_memory h = sum_list (map (\<lambda>x. capacity (snd x)) (handlers h))
     \<and> distinct (map fst (handlers h))
     \<and> list_all (\<lambda>x. fst x < next_object h) (handlers h)"

datatype 'c heap_event = Create 'c | Collect nat | Change nat 'c | Clear_Pointer nat

fun heap_step :: "('c \<Rightarrow> int) \<Rightarrow> ('c \<Rightarrow> 'c \<Rightarrow> bool) \<Rightarrow> 'c heap_event \<Rightarrow> 'c heap \<Rightarrow> 'c heap" where
  "heap_step capacity step (Create c) h = snd (new_object capacity c h)"
| "heap_step capacity step (Collect i) h = collect capacity i h"
| "heap_step capacity step (Change i c) h =
     (case map_of (handlers h) i of
        None \<Rightarrow> h
      | Some c0 \<Rightarrow> if step c0 c then set_context i c h else h)"
| "heap_step capacity step (Clear_Pointer i) h = clear_pointer i h"

definition heap_events ::
    "('c \<Rightarrow> int) \<Rightarrow> ('c \<Rightarrow> 'c \<Rightarrow> bool) \<Rightarrow> 'c heap_event list \<Rightarrow> 'c heap" where
  "heap_events capacity step es = fold (heap_step capacity step) es empty_heap"

lemma heap_ok_empty: "heap_ok capacity empty_heap"
  by (simp add: heap_ok_def empty_heap_def)

lemma heap_ok_new: "heap_ok capacity h \<Longrightarrow> heap_ok capacity (snd (new_object capacity c h))"
  by (auto simp: heap_ok_def new_object_def list_all_iff)

lemma sum_list_remove:
  assumes "distinct (map fst xs)" and "map_of xs i = Some c"
  shows "sum_list (map g (filter (\<lambda>x. fst x \<noteq> i) xs)) = sum_list (map g xs) - (g (i, c) :: int)"
  using assms
proof (induction xs)
  case (Cons x xs)
  show ?case
  proof (cases "fst x = i")
    case True
    with Cons.prems(1) have "fst y \<noteq> i" if "y \<in> set xs" for y
      using that by (metis distinct.simps(2) image_eqI list.simps(9) list.set_map)
    then have "filter (\<lambda>y. fst y \<noteq> i) xs = xs" by (simp add: filter_id_conv)
    with True Cons.prems(2) show ?thesis by (cases x) simp
  qed (use Cons in \<open>simp split: if_splits\<close>)
qed simp

lemma heap_ok_collect: "heap_ok capacity h \<Longrightarrow> heap_ok capacity (collect capacity i h)"
  by (auto simp: heap_ok_def collect_def sum_list_remove list_all_iff distinct_map_filter split: option.split)

lemma heap_ok_clear: "heap_ok capacity h \<Longrightarrow> heap_ok capacity (clear_pointer i h)"
  by (simp add: heap_ok_def clear_pointer_def)

lemma heap_ok_set_context:
  assumes "heap_ok capacity h" and "map_of (handlers h) i = Some c0" and "capacity c = capacity c0"
  shows "heap_ok capacity (set_context i c h)"
proof -
  have keys: "(\<lambda>x. fst (if fst x = i then (i, c) else x)) = fst" by auto
  have "distinct (map fst xs) \<Longrightarrow> map_of xs i = Some c0 \<Longrightarrow>
      sum_list (map (\<lambda>x. capacity (snd (if fst x = i then (i, c) else x))) xs)
        = sum_list (map (\<lambda>x. capacity (snd x)) xs)" for xs
  proof (induction xs)
    case (Cons x xs)
    show ?case
    proof (cases "fst x = i")
      case True
      with Cons.prems(1) have "fst y \<noteq> i" if "y \<in> set xs" for y
      using that by (metis distinct.simps(2) image_eqI list.simps(9) list.set_map)
      then have "map (\<lambda>x. capacity (snd (if fst x = i then (i, c) else x))) xs
          = map (\<lambda>x. capacity (snd x)) xs" by simp
      then have "sum_list (map (\<lambda>x. capacity (snd (if fst x = i then (i, c) else x))) xs)
          = sum_list (map (\<lambda>x. capacity (snd x)) xs)" by (rule arg_cong)
      with True Cons.prems(2) assms(3) show ?thesis by (cases x) simp
    qed (use Cons in \<open>simp split: if_splits\<close>)
  qed simp
  with assms show ?thesis
    by (auto simp: heap_ok_def set_context_def comp_def list_all_iff keys)
qed

text \<open>The contract: the functions of the object change its context only in ways that keep the size
  reported for it.\<close>

locale weak_handle =
  fixes capacity :: "'c \<Rightarrow> int" and step :: "'c \<Rightarrow> 'c \<Rightarrow> bool"
  assumes capacity_stable: "step c c' \<Longrightarrow> capacity c' = capacity c"
begin

lemma event_ok: "heap_ok capacity h \<Longrightarrow> heap_ok capacity (heap_step capacity step e h)"
  by (cases e)
     (auto intro: heap_ok_new heap_ok_collect heap_ok_clear heap_ok_set_context capacity_stable
       split: option.split)

lemma events_ok: "heap_ok capacity (heap_events capacity step es)"
proof -
  have "heap_ok capacity h \<Longrightarrow> heap_ok capacity (fold (heap_step capacity step) es h)" for h
    by (induction es arbitrary: h) (simp_all add: event_ok)
  then show ?thesis by (simp add: heap_events_def heap_ok_empty)
qed

lemma memory_balanced:
  "external_memory (heap_events capacity step es)
     = sum_list (map (\<lambda>x. capacity (snd x)) (handlers (heap_events capacity step es)))"
  using events_ok [of es] by (simp add: heap_ok_def)

lemma memory_returned:
  "handlers (heap_events capacity step es) = [] \<Longrightarrow> external_memory (heap_events capacity step es) = 0"
  by (simp add: memory_balanced)

end

lemma internal_pointer_new:
  "list_all (\<lambda>i. i < next_object h) (cleared h) \<Longrightarrow>
   internal_pointer (fst (new_object capacity c h)) (snd (new_object capacity c h)) = Some c"
  by (auto simp: internal_pointer_def new_object_def list_all_iff)

lemma internal_pointer_cleared [simp]: "internal_pointer i (clear_pointer i h) = None"
  by (simp add: internal_pointer_def clear_pointer_def)

section \<open>Updates of contexts\<close>

text \<open>The same objects with the same accounting; only contexts may differ.\<close>

definition same_objects :: "'c heap \<Rightarrow> 'c heap \<Rightarrow> bool" where
  "same_objects h h' \<longleftrightarrow>
     map fst (handlers h') = map fst (handlers h) \<and> cleared h' = cleared h
     \<and> external_memory h' = external_memory h \<and> next_object h' = next_object h"

lemma same_objects_refl [simp, intro]: "same_objects h h"
  by (simp add: same_objects_def)

lemma same_objects_trans [trans]: "same_objects h h' \<Longrightarrow> same_objects h' h'' \<Longrightarrow> same_objects h h''"
  by (simp add: same_objects_def)

lemma same_objects_set_context [simp, intro]: "same_objects h (set_context i c h)"
  by (simp add: same_objects_def set_context_def comp_def if_distrib cong: if_cong)

lemma heap_ok_same_objects:
  assumes "same_objects h h'" and "heap_ok (\<lambda>_. n) h"
  shows "heap_ok (\<lambda>_. n) h'"
proof -
  have "length (handlers h') = length (handlers h)" using assms(1) by (metis length_map same_objects_def)
  moreover have "list_all (\<lambda>x. fst x < m) xs = list_all (\<lambda>i. i < m) (map fst xs)" for m and xs :: "(nat \<times> 'a) list"
    by (simp add: list_all_iff)
  ultimately show ?thesis using assms by (simp add: heap_ok_def same_objects_def sum_list_triv)
qed

lemma same_objects_alive: "same_objects h h' \<Longrightarrow> map_of (handlers h') i = None \<longleftrightarrow> map_of (handlers h) i = None"
  by (simp add: same_objects_def map_of_eq_None_iff flip: set_map)

end
