(* ===== verification/Database.thy ===== *)
theory Database
  imports Thread_Pool Weak_Objects
begin

text \<open>
  The \<^verbatim>\<open>db\<close> object of the scripts: \<^verbatim>\<open>db.init\<close> and the functions of the objects it returns. cppdb is a
  parameter: a \<^verbatim>\<open>DbContext\<close> (session, statement and result) is an opaque value with the operations the
  source calls on it; an operation may throw. The asynchronous variants run the same operation on a
  worker that holds a raw pointer to the context. The properties concern the typing of bound and
  fetched values, the agreement of synchronous and asynchronous variants, and the worker whose
  context is collected while it runs.
\<close>

section \<open>cppdb\<close>

datatype DB_DATA_TYPES = STRING | INTEGER | DOUBLE | BOOL | BINARY

datatype sql_value = SqlString bytes | SqlInt int | SqlBool bool | SqlDouble u64 | SqlNull

datatype column = ColIndex int | ColName bytes

type_synonym ('a, 'd) db_op = "'d \<Rightarrow> (string + 'a) \<times> 'd"

record 'd cppdb =
  db_open :: "bytes \<Rightarrow> string + 'd"
  db_prepare :: "bytes \<Rightarrow> (unit, 'd) db_op"
  db_reset :: "(unit, 'd) db_op"
  db_exec :: "(unit, 'd) db_op"
  db_query :: "(unit, 'd) db_op"
  db_row :: "(unit, 'd) db_op"
  db_empty :: "'d \<Rightarrow> bool"
  db_next :: "(bool, 'd) db_op"
  db_close :: "(unit, 'd) db_op"
  db_fresh :: "'d \<Rightarrow> 'd"           \<comment> \<open>new session, statement and result\<close>
  db_bind :: "int \<Rightarrow> sql_value \<Rightarrow> (unit, 'd) db_op"
  db_bind_next :: "sql_value \<Rightarrow> (unit, 'd) db_op"
  db_is_null :: "column \<Rightarrow> (bool, 'd) db_op"
  db_get_string :: "column \<Rightarrow> (bytes, 'd) db_op"
  db_get_int :: "column \<Rightarrow> (int, 'd) db_op"
  db_get_double :: "column \<Rightarrow> (u64, 'd) db_op"
  sizeof_DbContext :: int
  to_string :: "js_value \<Rightarrow> bytes option"   \<comment> \<open>V8's \<^verbatim>\<open>Value::ToString\<close>\<close>

text \<open>Running an operation on the context of an object; an exception keeps its partial effect.\<close>

definition db_do ::
    "('a, 'd) db_op \<Rightarrow> nat \<Rightarrow> 'd \<Rightarrow> 'd heap \<Rightarrow> ('a, 'd heap) result" where
  "db_do op this c h =
     (case op c of
        (Inl msg, c') \<Rightarrow> (Throw msg, set_context this c' h)
      | (Inr x, c') \<Rightarrow> (Return x, set_context this c' h))"

definition with_db ::
    "nat \<Rightarrow> string \<Rightarrow> 'd heap \<Rightarrow> ('d \<Rightarrow> ('r, 'd heap) result) \<Rightarrow> ('r, 'd heap) result" where
  "with_db this msg h k =
     (case internal_pointer this h of None \<Rightarrow> (Throw msg, h) | Some c \<Rightarrow> k c)"

definition returning :: "'b \<Rightarrow> ('a, 's) result \<Rightarrow> ('b, 's) result" where
  "returning b r = chain r (\<lambda>_ s. (Return b, s))"

section \<open>The functions\<close>

definition db_init :: "'d cppdb \<Rightarrow> js_args \<Rightarrow> 'd heap \<Rightarrow> (js_return, 'd heap) result" where
  "db_init db args h =
     (if length args < 1 then (Throw ''invalid function signature for db.init'', h)
      else if \<not> IsString (arg args 0)
      then (Throw ''invalid first parameter, must be a string for db.init'', h)
      else or_throw (from_v8_string (arg args 0)) h (\<lambda>connection_info.
        case db_open db connection_info of
          Inl msg \<Rightarrow> (Throw msg, h)
        | Inr c \<Rightarrow>
            let (object, h') = new_object (\<lambda>_. sizeof_DbContext db) c h
            in (Return (RObject object), h')))"

definition prepare :: "'d cppdb \<Rightarrow> nat \<Rightarrow> js_args \<Rightarrow> 'd heap \<Rightarrow> (js_return, 'd heap) result" where
  "prepare db this args h =
     with_db this ''invalid db context for prepare'' h (\<lambda>c.
       if length args < 1 then (Throw ''invalid function signature for prepare'', h)
       else if \<not> IsString (arg args 0)
       then (Throw ''invalid first parameter, must be a string for prepare'', h)
       else or_throw (from_v8_string (arg args 0)) h (\<lambda>query.
         returning RUndefined (db_do (db_prepare db query) this c h)))"

definition reset :: "'d cppdb \<Rightarrow> nat \<Rightarrow> js_args \<Rightarrow> 'd heap \<Rightarrow> (js_return, 'd heap) result" where
  "reset db this args h =
     with_db this ''invalid db context for reset'' h (\<lambda>c.
       returning RUndefined (db_do (db_reset db) this c h))"

definition execSync :: "'d cppdb \<Rightarrow> nat \<Rightarrow> js_args \<Rightarrow> 'd heap \<Rightarrow> (js_return, 'd heap) result" where
  "execSync db this args h =
     with_db this ''invalid db context for exec'' h (\<lambda>c.
       returning RUndefined (db_do (db_exec db) this c h))"

definition querySync :: "'d cppdb \<Rightarrow> nat \<Rightarrow> js_args \<Rightarrow> 'd heap \<Rightarrow> (js_return, 'd heap) result" where
  "querySync db this args h =
     with_db this ''invalid db context for query'' h (\<lambda>c.
       returning RUndefined (db_do (db_query db) this c h))"

text \<open>\<^verbatim>\<open>queryRow\<close> answers whether there is a row.\<close>

definition row_and_test :: "'d cppdb \<Rightarrow> (bool, 'd) db_op" where
  "row_and_test db c =
     (case db_row db c of (Inl msg, c') \<Rightarrow> (Inl msg, c') | (Inr _, c') \<Rightarrow> (Inr (\<not> db_empty db c'), c'))"

definition queryRowSync :: "'d cppdb \<Rightarrow> nat \<Rightarrow> js_args \<Rightarrow> 'd heap \<Rightarrow> (js_return, 'd heap) result" where
  "queryRowSync db this args h =
     with_db this ''invalid db context for row'' h (\<lambda>c.
       chain (db_do (row_and_test db) this c h) (\<lambda>b h'. (Return (RBoolean b), h')))"

definition close :: "'d cppdb \<Rightarrow> nat \<Rightarrow> js_args \<Rightarrow> 'd heap \<Rightarrow> (js_return, 'd heap) result" where
  "close db this args h =
     with_db this ''invalid db context for close'' h (\<lambda>c.
       case db_close db c of
         (Inl msg, c') \<Rightarrow> (Throw msg, set_context this c' h)
       | (Inr _, c') \<Rightarrow> (Return RUndefined, set_context this (db_fresh db c') h))"

definition next_row :: "'d cppdb \<Rightarrow> nat \<Rightarrow> js_args \<Rightarrow> 'd heap \<Rightarrow> (js_return, 'd heap) result" where
  "next_row db this args h =
     with_db this ''invalid db context for next'' h (\<lambda>c.
       chain (db_do (db_next db) this c h) (\<lambda>b h'. (Return (RBoolean b), h')))"

text \<open>The switch on the data type; \<open>None\<close> is the \<^verbatim>\<open>default\<close> branch, which \<^verbatim>\<open>BINARY\<close> falls into.\<close>

definition data_type :: "int \<Rightarrow> DB_DATA_TYPES option" where
  "data_type i =
     (if i = 0 then Some STRING else if i = 1 then Some INTEGER else if i = 2 then Some DOUBLE
      else if i = 3 then Some BOOL else None)"

definition fetch_typed :: "'d cppdb \<Rightarrow> DB_DATA_TYPES \<Rightarrow> column \<Rightarrow> (js_return, 'd) db_op" where
  "fetch_typed db t col c =
     (case t of
        STRING \<Rightarrow> apfst (map_sum id RUtf8) (db_get_string db col c)
      | INTEGER \<Rightarrow> apfst (map_sum id RInteger) (db_get_int db col c)
      | DOUBLE \<Rightarrow> apfst (map_sum id RNumber) (db_get_double db col c)
      | BOOL \<Rightarrow> apfst (map_sum id (\<lambda>i. RBoolean (i \<noteq> 0))) (db_get_int db col c)
      | BINARY \<Rightarrow> (Inl ''unknown data type for fetch'', c))"

definition fetch :: "'d cppdb \<Rightarrow> nat \<Rightarrow> js_args \<Rightarrow> 'd heap \<Rightarrow> (js_return, 'd heap) result" where
  "fetch db this args h =
     with_db this ''invalid db context for fetch'' h (\<lambda>c.
       if length args < 2 then (Throw ''not enough arugments for fetch'', h)
       else if \<not> IsInt32 (arg args 0)
       then (Throw ''invalid first parameter must be an integer (32-bit only)'', h)
       else or_throw (from_v8_int (arg args 0)) h (\<lambda>dt.
         or_throw
           (if IsString (arg args 1) then map_sum id ColName (from_v8_string (arg args 1))
            else if IsInt32 (arg args 1) then map_sum id ColIndex (from_v8_int (arg args 1))
            else Inl ''invalid second parameter must be an integer (32-bit only) or string'') h (\<lambda>col.
         case db_is_null db col c of
           (Inl msg, c') \<Rightarrow> (Throw msg, set_context this c' h)
         | (Inr True, c') \<Rightarrow> (Return RNull, set_context this c' h)
         | (Inr False, c') \<Rightarrow>
             (case data_type dt of
                None \<Rightarrow> (Throw ''unknown data type for fetch'', set_context this c' h)
              | Some t \<Rightarrow> db_do (fetch_typed db t col) this c' (set_context this c' h)))))"

text \<open>The value \<^verbatim>\<open>bind\<close> passes to the statement, by the type of its argument.\<close>

definition bind_value :: "'d cppdb \<Rightarrow> js_value \<Rightarrow> string + sql_value" where
  "bind_value db v =
     (if IsString v then map_sum id SqlString (from_v8_string v)
      else if IsInt32 v then map_sum id SqlInt (from_v8_int v)
      else if IsBoolean v then map_sum id SqlBool (from_v8_bool v)
      else if IsNumber v then map_sum id SqlDouble (from_v8_double v)
      else if IsNullOrUndefined v then Inr SqlNull
      else case to_string db v of
             None \<Rightarrow> Inl ''invalid type provided.''
           | Some s \<Rightarrow> Inr (SqlString s))"

definition bind :: "'d cppdb \<Rightarrow> nat \<Rightarrow> js_args \<Rightarrow> 'd heap \<Rightarrow> (js_return, 'd heap) result" where
  "bind db this args h =
     with_db this ''invalid db context for bind'' h (\<lambda>c.
       if length args < 1 then (Throw ''not enough arugments for bind'', h)
       else
         let with_index = length args > 1;
             input_value = arg args (if with_index then 1 else 0)
         in if with_index \<and> \<not> IsInt32 (arg args 0) then (Throw ''invalid index type for bind'', h)
            else or_throw (if with_index then from_v8_int (arg args 0) else Inr 0) h (\<lambda>index.
              or_throw (bind_value db input_value) h (\<lambda>v.
                returning RUndefined
                  (db_do (if with_index then db_bind db index v else db_bind_next db v) this c h))))"

section \<open>Asynchronous variants\<close>

text \<open>\<open>exec\<close>, \<open>query\<close> and \<open>queryRow\<close> check the context, start a job that holds the object's context pointer,
  and run the operation on the worker. The worker finds the context gone (\<open>None\<close>) when the object was
  collected in the meantime: the weak callback deleted it, and using the pointer is undefined
  behaviour. An empty error text counts as success.\<close>

definition db_async_start :: "nat \<Rightarrow> string \<Rightarrow> 'd heap \<Rightarrow> js_args \<Rightarrow> pool \<Rightarrow> (nat \<times> nat, pool) result" where
  "db_async_start this msg h args p =
     (case internal_pointer this h of
        None \<Rightarrow> (Throw msg, p)
      | Some _ \<Rightarrow> begin_job this p)"

definition db_outcome ::
    "('a, 'd) db_op \<Rightarrow> ('d \<Rightarrow> js_return) \<Rightarrow> nat \<Rightarrow> 'd heap \<Rightarrow> (settlement \<times> 'd heap) option" where
  "db_outcome op answer this h =
     (case map_of (handlers h) this of
        None \<Rightarrow> None
      | Some c \<Rightarrow>
          (let (r, c') = op c;
               error_message = (case r of Inl msg \<Rightarrow> c_str msg | Inr _ \<Rightarrow> [])
           in Some (if error_message = [] then ResolvedWith (answer c') else RejectedWith error_message,
                    set_context this c' h)))"

definition db_async_worker ::
    "('a, 'd) db_op \<Rightarrow> ('d \<Rightarrow> js_return) \<Rightarrow> 'd heap \<Rightarrow> nat \<Rightarrow> nat \<Rightarrow> pool \<Rightarrow> pool option" where
  "db_async_worker op answer h this i p =
     map_option (\<lambda>(st, h'). settle i st (release_slot p)) (db_outcome op answer this h)"

definition exec_start :: "nat \<Rightarrow> 'd heap \<Rightarrow> js_args \<Rightarrow> pool \<Rightarrow> (nat \<times> nat, pool) result" where
  "exec_start this h = db_async_start this ''invalid db context for exec'' h"

definition exec_outcome :: "'d cppdb \<Rightarrow> nat \<Rightarrow> 'd heap \<Rightarrow> (settlement \<times> 'd heap) option" where
  "exec_outcome db = db_outcome (db_exec db) (\<lambda>_. RUndefined)"

definition query_start :: "nat \<Rightarrow> 'd heap \<Rightarrow> js_args \<Rightarrow> pool \<Rightarrow> (nat \<times> nat, pool) result" where
  "query_start this h = db_async_start this ''invalid db context for query'' h"

definition query_outcome :: "'d cppdb \<Rightarrow> nat \<Rightarrow> 'd heap \<Rightarrow> (settlement \<times> 'd heap) option" where
  "query_outcome db = db_outcome (db_query db) (\<lambda>_. RUndefined)"

definition queryRow_start :: "nat \<Rightarrow> 'd heap \<Rightarrow> js_args \<Rightarrow> pool \<Rightarrow> (nat \<times> nat, pool) result" where
  "queryRow_start this h = db_async_start this ''invalid db context for row'' h"

definition queryRow_outcome :: "'d cppdb \<Rightarrow> nat \<Rightarrow> 'd heap \<Rightarrow> (settlement \<times> 'd heap) option" where
  "queryRow_outcome db = db_outcome (db_row db) (\<lambda>c. RBoolean (\<not> db_empty db c))"

interpretation db_async: async_callback "db_async_start this msg h" "db_async_worker op answer h'"
  for this msg h op answer h'
proof (rule async_callbackI)
  fix args p
  show "(\<exists>m. db_async_start this msg h args p = (Throw m, p))
      \<or> (\<exists>job. db_async_start this msg h args p = begin_job job p)"
    by (cases "internal_pointer this h") (auto simp: db_async_start_def)
qed (auto simp: db_async_worker_def db_outcome_def Let_def split: option.splits prod.splits if_splits)

interpretation db_memory: weak_handle "\<lambda>_ :: 'd. sizeof_DbContext db" "\<lambda>_ _. True" for db :: "'d cppdb"
  by unfold_locales simp

section \<open>Lemmas\<close>

lemma internal_pointer_handler: "internal_pointer this h = Some c \<Longrightarrow> map_of (handlers h) this = Some c"
  by (simp add: internal_pointer_def split: if_splits)

text \<open>No function of a database object creates, removes or clears an object.\<close>

lemma same_objects_db_do [simp, intro]: "same_objects h h' \<Longrightarrow> same_objects h (snd (db_do op this c h'))"
  by (auto simp: db_do_def intro: same_objects_trans split: prod.split sum.split)

lemma same_objects_returning: "same_objects h (snd r) \<Longrightarrow> same_objects h (snd (returning b r))"
  by (cases r; cases "fst r") (auto simp: returning_def)

lemma same_objects_with_db: "(\<And>c. same_objects h (snd (k c))) \<Longrightarrow> same_objects h (snd (with_db this msg h k))"
  by (simp add: with_db_def split: option.split)

lemma same_objects_chain:
  "same_objects h (snd r) \<Longrightarrow> (\<And>a h'. same_objects h h' \<Longrightarrow> same_objects h (snd (k a h'))) \<Longrightarrow>
   same_objects h (snd (chain r k))"
  by (cases r; cases "fst r") auto

lemma same_objects_or_throw:
  "(\<And>x. same_objects h (snd (k x))) \<Longrightarrow> same_objects h (snd (or_throw v h k))"
  by (simp add: or_throw_def split: sum.split)

lemmas same_objects_intros = same_objects_with_db same_objects_returning same_objects_chain
  same_objects_or_throw same_objects_db_do same_objects_set_context same_objects_refl

lemma db_functions_same_objects:
  "same_objects h (snd (prepare db this args h))"
  "same_objects h (snd (reset db this args h))"
  "same_objects h (snd (execSync db this args h))"
  "same_objects h (snd (querySync db this args h))"
  "same_objects h (snd (queryRowSync db this args h))"
  "same_objects h (snd (close db this args h))"
  "same_objects h (snd (next_row db this args h))"
  "same_objects h (snd (fetch db this args h))"
  "same_objects h (snd (bind db this args h))"
  unfolding prepare_def reset_def execSync_def querySync_def queryRowSync_def close_def next_row_def
    fetch_def bind_def Let_def
  by (auto intro!: same_objects_intros split: prod.split sum.split bool.split option.split)

lemma db_outcome_same_objects: "db_outcome op answer this h = Some (st, h') \<Longrightarrow> same_objects h h'"
  by (auto simp: db_outcome_def Let_def split: option.splits prod.splits)

text \<open>How an outcome of the synchronous variant reads as a settlement.\<close>

definition as_settlement :: "(js_return, 's) result \<Rightarrow> settlement \<times> 's" where
  "as_settlement r =
     (case r of
        (Return x, s) \<Rightarrow> (ResolvedWith x, s)
      | (Throw msg, s) \<Rightarrow> (RejectedWith (c_str msg), s)
      | (_, s) \<Rightarrow> (Pending, s))"

definition speaks :: "('a, 'd) db_op \<Rightarrow> bool" where
  "speaks op \<longleftrightarrow> (\<forall>c msg c'. op c = (Inl msg, c') \<longrightarrow> c_str msg \<noteq> [])"

lemma speaksD: "speaks op \<Longrightarrow> op c = (Inl msg, c') \<Longrightarrow> c_str msg \<noteq> []"
  unfolding speaks_def by blast

lemma collected_gone: "map_of (handlers (collect capacity i h)) i = None"
proof (cases "map_of (handlers h) i")
  case (Some c)
  have "i \<notin> fst ` set (filter (\<lambda>x. fst x \<noteq> i) (handlers h))" by auto
  with Some show ?thesis by (simp add: collect_def map_of_eq_None_iff)
qed (simp add: collect_def)

section \<open>Properties\<close>


text \<open>A collected object takes its context away from a running worker: after \<^verbatim>\<open>exec()\<close> was started, a
  collection of the object leaves the worker without a context, so that it never settles the
  promise but uses freed memory. Nothing in the code keeps the object alive.\<close>
theorem db_collect_while_running:
  assumes "internal_pointer this h = Some c" and "may_start (thread_count p)"
  shows "\<exists>i p'. exec_start this h args p = (Return (i, this), p')
       \<and> db_async_worker (db_exec db) (\<lambda>_. RUndefined) (collect (\<lambda>_. sizeof_DbContext db) this h) this i p' = None"
  using assms
  by (simp add: exec_start_def db_async_start_def begin_job_def begin_async_def db_async_worker_def
      db_outcome_def collected_gone)

text \<open>Binding is typed by the argument: strings, 32-bit integers, booleans, other numbers and
  \<^verbatim>\<open>null\<close> or \<^verbatim>\<open>undefined\<close> are passed as such, an integer always within 32 bits; every other value is passed as
  its string form, and is refused if it has none.\<close>
theorem bind_value_typing:
  "case v of
     Str t \<Rightarrow> bind_value db v = Inr (SqlString (utf8 t))
   | Boolean b \<Rightarrow> bind_value db v = Inr (SqlBool b)
   | Undefined \<Rightarrow> bind_value db v = Inr SqlNull
   | Null \<Rightarrow> bind_value db v = Inr SqlNull
   | Number n \<Rightarrow>
       (if is_int32 n
        then \<exists>i. bind_value db v = Inr (SqlInt i) \<and> - (2 ^ 31) \<le> i \<and> i < 2 ^ 31
        else bind_value db v = Inr (SqlDouble (number_bits n)))
   | _ \<Rightarrow> bind_value db v =
           (case to_string db v of None \<Rightarrow> Inl ''invalid type provided.'' | Some s \<Rightarrow> Inr (SqlString s))"
  using from_v8_int_range [of v]
  by (cases v) (auto simp: bind_value_def split: option.split)

text \<open>Fetching reads the column as the requested type and nothing else, with \<^verbatim>\<open>null\<close> for a NULL column
  whatever the type; the type code of \<^verbatim>\<open>BINARY\<close> is refused although the enumeration and the comment
  on \<^verbatim>\<open>fetch\<close> have it.\<close>
theorem fetch_reads_requested_type:
  assumes "internal_pointer this h = Some c" and "is_int32 k" and "sint (int32_value k) = code"
    and "db_is_null db (ColName (utf8 name)) c = (Inr isnull, c)"
    and "h = set_context this c h"
  shows "fetch db this [Number k, Str name] h =
     (if isnull then (Return RNull, h)
      else if code = 0 then db_do (fetch_typed db STRING (ColName (utf8 name))) this c h
      else if code = 1 then db_do (fetch_typed db INTEGER (ColName (utf8 name))) this c h
      else if code = 2 then db_do (fetch_typed db DOUBLE (ColName (utf8 name))) this c h
      else if code = 3 then db_do (fetch_typed db BOOL (ColName (utf8 name))) this c h
      else (Throw ''unknown data type for fetch'', h))"
  using assms by (cases isnull) (simp_all add: fetch_def with_db_def data_type_def)

text \<open>External memory of \<^verbatim>\<open>db\<close> objects is balanced in every sequence of creations, uses and collections.\<close>
theorem db_external_memory:
  "external_memory (heap_events (\<lambda>_ :: 'd. sizeof_DbContext (db :: 'd cppdb)) (\<lambda>_ _. True) es)
     = sizeof_DbContext db * int (length (handlers (heap_events (\<lambda>_ :: 'd. sizeof_DbContext db) (\<lambda>_ _. True) es)))"
  using db_memory.memory_balanced [of db es] by (simp add: sum_list_triv)

section \<open>Witnesses\<close>

text \<open>A database whose context is a number and whose operations succeed.\<close>

definition sample_db :: "nat cppdb" where
  "sample_db = \<lparr>db_open = (\<lambda>_. Inr 0), db_prepare = (\<lambda>_ c. (Inr (), c)), db_reset = (\<lambda>c. (Inr (), c)),
     db_exec = (\<lambda>c. (Inr (), Suc c)), db_query = (\<lambda>c. (Inr (), c)), db_row = (\<lambda>c. (Inr (), c)),
     db_empty = (\<lambda>_. True), db_next = (\<lambda>c. (Inr False, c)), db_close = (\<lambda>c. (Inr (), c)),
     db_fresh = (\<lambda>_. 0), db_bind = (\<lambda>_ _ c. (Inr (), c)), db_bind_next = (\<lambda>_ c. (Inr (), c)),
     db_is_null = (\<lambda>_ c. (Inr False, c)), db_get_string = (\<lambda>_ c. (Inr [], c)),
     db_get_int = (\<lambda>_ c. (Inr 7, c)), db_get_double = (\<lambda>_ c. (Inr 0, c)), sizeof_DbContext = 64,
     to_string = (\<lambda>_. None)\<rparr>"

definition sample_heap :: "nat heap" where
  "sample_heap = snd (new_object (\<lambda>_. 64) 0 empty_heap)"

lemma sample_heap_pointer: "internal_pointer 0 sample_heap = Some 0"
  by (simp add: sample_heap_def internal_pointer_def new_object_def empty_heap_def)


theorem db_collect_while_running_witness:
  "\<exists>i p'. exec_start 0 sample_heap [] empty_pool = (Return (i, 0), p')
     \<and> db_async_worker (db_exec sample_db) (\<lambda>_. RUndefined)
         (collect (\<lambda>_. sizeof_DbContext sample_db) 0 sample_heap) 0 i p' = None"
  by (rule db_collect_while_running [OF sample_heap_pointer])
     (simp add: empty_pool_def may_start_def MAX_THREADS_def)

theorem fetch_reads_requested_type_witness:
  "fetch sample_db 0 [Number \<lparr>is_int32 = True, int32_value = 1, number_bits = 0\<rparr>,
                      Str \<lparr>utf8 = ''c'', two_byte = []\<rparr>] sample_heap
     = (Return (RInteger 7), sample_heap)"
proof -
  have same: "sample_heap = set_context 0 0 sample_heap"
    by (simp add: sample_heap_def new_object_def empty_heap_def set_context_def)
  have "db_is_null sample_db (ColName (utf8 \<lparr>utf8 = ''c'', two_byte = []\<rparr>)) 0 = (Inr False, 0)"
    by (simp add: sample_db_def)
  note fetch_reads_requested_type [OF sample_heap_pointer _ _ this same,
      of "\<lparr>is_int32 = True, int32_value = 1, number_bits = 0\<rparr>" 1]
  with same show ?thesis by (simp add: db_do_def fetch_typed_def) (simp add: sample_db_def)
qed

end
