(* ===== verification/Gzip.thy ===== *)
theory Gzip
  imports Thread_Pool
begin

text \<open>
  The \<^verbatim>\<open>gzip\<close> object of the scripts and the buffer loops of \<^verbatim>\<open>Include/gzip/compress.hpp\<close> and
  \<^verbatim>\<open>decompress.hpp\<close>. zlib is a parameter: a stream accepts a buffer of some size and gives the bytes it
  stored. The properties: both loops end and collect exactly the stream's output, a compressed
  string decompresses to itself, the output of a decompression is bounded, and decompressing an
  empty array never ends.
\<close>

section \<open>zlib\<close>

datatype inflate_status = Z_OK | Z_STREAM_END | Z_BUF_ERROR | Z_ERROR "bytes option"

text \<open>\<open>deflate st n\<close> and \<open>inflate st n\<close> are the calls with \<^verbatim>\<open>Z_FINISH\<close> and \<^verbatim>\<open>avail_out = n\<close>; the bytes are the ones
  stored at \<^verbatim>\<open>next_out\<close>, so that \<^verbatim>\<open>avail_out\<close> afterwards is \<open>n\<close> minus their number. \<open>Z_ERROR\<close> carries
  \<^verbatim>\<open>strm->msg\<close>, which may be null.\<close>

record 'z zlib =
  deflateInit :: "int \<Rightarrow> bytes \<Rightarrow> 'z option"
  deflate :: "'z \<Rightarrow> nat \<Rightarrow> bytes \<times> 'z"
  inflateInit :: "bytes \<Rightarrow> 'z option"
  inflate :: "'z \<Rightarrow> nat \<Rightarrow> inflate_status \<times> bytes \<times> 'z"

definition Z_DEFAULT_COMPRESSION :: int where "Z_DEFAULT_COMPRESSION = - 1"

section \<open>Buffers\<close>

text \<open>\<^verbatim>\<open>std::string::resize\<close> and a write through a pointer into the string.\<close>

definition resize :: "nat \<Rightarrow> bytes \<Rightarrow> bytes" where
  "resize n s = take n s @ replicate (n - length s) (CHR 0x00)"

definition store_at :: "nat \<Rightarrow> bytes \<Rightarrow> bytes \<Rightarrow> bytes" where
  "store_at pos b s = take pos s @ b @ drop (pos + length b) s"

section \<open>compress.hpp\<close>

definition compress_max :: nat where "compress_max = 2000000000"

definition increase :: "nat \<Rightarrow> nat" where "increase sz = sz div 2 + 1024"

partial_function (option) compress_loop ::
    "'z zlib \<Rightarrow> nat \<Rightarrow> bytes \<Rightarrow> nat \<Rightarrow> 'z \<Rightarrow> bytes option" where
  "compress_loop z sz output size_compressed st =
     (let output1 = (if length output < size_compressed + increase sz
                     then resize (size_compressed + increase sz) output else output);
          (b, st') = deflate z st (increase sz);
          output2 = store_at size_compressed b output1;
          size_compressed' = size_compressed + length b
      in if increase sz - length b = 0
         then compress_loop z sz output2 size_compressed' st'
         else Some (resize size_compressed' output2))"

definition compress :: "'z zlib \<Rightarrow> bytes \<Rightarrow> int \<Rightarrow> (string + bytes) option" where
  "compress z data level =
     (if length data > compress_max
      then Some (Inl ''size may use more memory than intended when decompressing'')
      else case deflateInit z level data of
        None \<Rightarrow> Some (Inl ''deflate init failed'')
      | Some st \<Rightarrow> map_option Inr (compress_loop z (length data) [] 0 st))"

section \<open>decompress.hpp\<close>

definition decompress_max :: nat where "decompress_max = 1000000000"

text \<open>The result is an error text, the output, or a crash when a null message is turned into a string.\<close>

datatype decompressed = Output bytes | Error string | Null_Message

partial_function (option) decompress_loop ::
    "'z zlib \<Rightarrow> nat \<Rightarrow> bytes \<Rightarrow> nat \<Rightarrow> 'z \<Rightarrow> decompressed option" where
  "decompress_loop z sz output size_uncompressed st =
     (let resize_to = size_uncompressed + 2 * sz
      in if resize_to > decompress_max
         then Some (Error ''size of output string will use more memory then intended when decompressing'')
         else
           let output1 = resize resize_to output;
               r = inflate z st (2 * sz);
               b = fst (snd r);
               st' = snd (snd r);
               output2 = store_at size_uncompressed b output1;
               size_uncompressed' = size_uncompressed + length b
           in (case fst r of
                 Z_ERROR None \<Rightarrow> Some Null_Message
               | Z_ERROR (Some msg) \<Rightarrow> Some (Error msg)
               | _ \<Rightarrow>
                   if 2 * sz - length b = 0
                   then decompress_loop z sz output2 size_uncompressed' st'
                   else Some (Output (resize size_uncompressed' output2))))"

definition decompress :: "'z zlib \<Rightarrow> bytes \<Rightarrow> decompressed option" where
  "decompress z data =
     (case inflateInit z data of
        None \<Rightarrow> Some (Error ''inflate init failed'')
      | Some st \<Rightarrow>
          if length data > decompress_max \<or> length data * 2 > decompress_max
          then Some (Error ''size may use more memory than intended when decompressing'')
          else decompress_loop z (length data) [] 0 st)"

section \<open>The functions of the gzip object\<close>

definition compression_level :: "js_args \<Rightarrow> int" where
  "compression_level args =
     (if length args > 1 \<and> IsInt32 (arg args 1)
      then (case from_v8_int (arg args 1) of Inr i \<Rightarrow> max 0 (min i 9) | Inl _ \<Rightarrow> 0)
      else Z_DEFAULT_COMPRESSION)"

definition gzip_compress_start :: "js_args \<Rightarrow> pool \<Rightarrow> (nat \<times> (bytes \<times> int), pool) result" where
  "gzip_compress_start args p =
     (if length args < 1 then (Throw ''invalid function signature for gzip.compress'', p)
      else if \<not> IsString (arg args 0)
      then (Throw ''invalid first parameter, must be a string for gzip.compress'', p)
      else or_throw (from_v8_string (arg args 0)) p (\<lambda>string.
        begin_job (string, compression_level args) p))"

text \<open>The worker: an exception leaves the result empty, and an empty result rejects the promise. \<open>None\<close>
  is a loop that never ends.\<close>

definition compress_settlement :: "'z zlib \<Rightarrow> bytes \<times> int \<Rightarrow> settlement option" where
  "compress_settlement z job =
     map_option (\<lambda>r.
        let compressed = (case r of Inl _ \<Rightarrow> [] | Inr b \<Rightarrow> b)
        in if compressed \<noteq> [] then ResolvedWith (RUint8Array compressed)
           else RejectedWith ''failed to compress using gzip.'')
      (compress z (fst job) (snd job))"

definition gzip_compress_worker :: "'z zlib \<Rightarrow> bytes \<times> int \<Rightarrow> nat \<Rightarrow> pool \<Rightarrow> pool option" where
  "gzip_compress_worker z job i p =
     map_option (\<lambda>st. settle i st (release_slot p)) (compress_settlement z job)"

definition gzip_decompress_start :: "js_args \<Rightarrow> pool \<Rightarrow> (nat \<times> bytes, pool) result" where
  "gzip_decompress_start args p =
     (if length args < 1 then (Throw ''invalid function signature for gzip.decompress'', p)
      else case arg args 0 of
        Uint8Array w \<Rightarrow> begin_job (view_buffer w) p
      | _ \<Rightarrow> (Throw ''invalid first parameter, must be a uint8array for gzip.decompress'', p))"

text \<open>The worker reads the array's memory through a raw pointer; \<open>job\<close> is what it finds there. A null
  message is undefined behaviour that ends the process, so the worker does not complete.\<close>

definition decompress_settlement :: "'z zlib \<Rightarrow> bytes \<Rightarrow> settlement option" where
  "decompress_settlement z job =
     (case decompress z job of
        None \<Rightarrow> None
      | Some Null_Message \<Rightarrow> None
      | Some (Error _) \<Rightarrow> Some (RejectedWith ''failed to decompress using gzip.'')
      | Some (Output decompressed) \<Rightarrow>
          Some (if decompressed \<noteq> [] then ResolvedWith (RUtf8 decompressed)
                else RejectedWith ''failed to decompress using gzip.''))"

definition gzip_decompress_worker :: "'z zlib \<Rightarrow> bytes \<Rightarrow> nat \<Rightarrow> pool \<Rightarrow> pool option" where
  "gzip_decompress_worker z job i p =
     map_option (\<lambda>st. settle i st (release_slot p)) (decompress_settlement z job)"

interpretation gzip_compress: async_callback gzip_compress_start "gzip_compress_worker z" for z
  by (rule async_callbackI)
     (auto simp: gzip_compress_start_def gzip_compress_worker_def compress_settlement_def or_throw_def Let_def split: sum.split)

interpretation gzip_decompress: async_callback gzip_decompress_start "gzip_decompress_worker z" for z
  by (rule async_callbackI)
     (auto simp: gzip_decompress_start_def gzip_decompress_worker_def decompress_settlement_def
       split: js_value.split option.splits decompressed.splits)

section \<open>Documented behaviour of zlib\<close>

text \<open>\<open>pend st\<close> is the output a stream has still to deliver. Levels \<open>-1\<close> to \<open>9\<close> are accepted; a call delivers
  as much as fits; compressed data is never empty; inflating compressed data gives the original
  back and reports no error on the way.\<close>

definition deflate_laws :: "'z zlib \<Rightarrow> ('z \<Rightarrow> bytes) \<Rightarrow> (int \<Rightarrow> bytes \<Rightarrow> bytes) \<Rightarrow> bool" where
  "deflate_laws z pend enc \<longleftrightarrow>
     (\<forall>level data. - 1 \<le> level \<longrightarrow> level \<le> 9 \<longrightarrow>
        (\<exists>st. deflateInit z level data = Some st \<and> pend st = enc level data) \<and> enc level data \<noteq> [])
     \<and> (\<forall>st n. fst (deflate z st n) = take n (pend st) \<and> pend (snd (deflate z st n)) = drop n (pend st))"

definition inflate_laws :: "'z zlib \<Rightarrow> ('z \<Rightarrow> bytes) \<Rightarrow> (int \<Rightarrow> bytes \<Rightarrow> bytes) \<Rightarrow> bool" where
  "inflate_laws z pend enc \<longleftrightarrow>
     (\<forall>level data. - 1 \<le> level \<longrightarrow> level \<le> 9 \<longrightarrow>
        (\<exists>st. inflateInit z (enc level data) = Some st \<and> pend st = data))
     \<and> (\<forall>st n. (\<forall>msg. fst (inflate z st n) \<noteq> Z_ERROR msg)
            \<and> fst (snd (inflate z st n)) = take n (pend st)
            \<and> pend (snd (snd (inflate z st n))) = drop n (pend st))"

lemma deflate_facts:
  assumes "deflate_laws z pend enc"
  shows deflate_opens: "- 1 \<le> level \<Longrightarrow> level \<le> 9 \<Longrightarrow>
      \<exists>st. deflateInit z level data = Some st \<and> pend st = enc level data"
    and enc_nonempty: "- 1 \<le> level \<Longrightarrow> level \<le> 9 \<Longrightarrow> enc level data \<noteq> []"
    and deflate_gives: "fst (deflate z st n) = take n (pend st)"
    and deflate_left: "pend (snd (deflate z st n)) = drop n (pend st)"
  using assms unfolding deflate_laws_def by blast+

lemma inflate_facts:
  assumes "inflate_laws z pend enc"
  shows inflate_opens: "- 1 \<le> level \<Longrightarrow> level \<le> 9 \<Longrightarrow>
      \<exists>st. inflateInit z (enc level data) = Some st \<and> pend st = data"
    and inflate_no_error: "fst (inflate z st n) \<noteq> Z_ERROR msg"
    and inflate_gives: "fst (snd (inflate z st n)) = take n (pend st)"
    and inflate_left: "pend (snd (snd (inflate z st n))) = drop n (pend st)"
  using assms unfolding inflate_laws_def by blast+

section \<open>The loops\<close>

lemma length_resize [simp]: "length (resize n s) = n"
  by (simp add: resize_def)

lemma take_resize: "n \<le> length s \<Longrightarrow> n \<le> m \<Longrightarrow> take n (resize m s) = take n s"
  by (simp add: resize_def min_def)

lemma take_store_at:
  "pos \<le> length s \<Longrightarrow> take (pos + length b) (store_at pos b s) = take pos s @ b"
  by (simp add: store_at_def)

lemma length_store_at:
  "pos + length b \<le> length s \<Longrightarrow> length (store_at pos b s) = length s"
  by (simp add: store_at_def)

lemma resize_shrink: "n \<le> length s \<Longrightarrow> resize n s = take n s"
  by (simp add: resize_def)

lemma compress_loop_collects:
  assumes "deflate_laws z pend enc"
  shows "sc \<le> length out \<Longrightarrow> compress_loop z sz out sc st = Some (take sc out @ pend st)"
proof (induction "length (pend st)" arbitrary: out sc st rule: less_induct)
  case less
  let ?inc = "increase sz"
  let ?out1 = "if length out < sc + ?inc then resize (sc + ?inc) out else out"
  obtain b st' where d: "deflate z st ?inc = (b, st')" by force
  then have b: "b = take ?inc (pend st)" and st': "pend st' = drop ?inc (pend st)"
    using deflate_gives [OF assms, of st ?inc] deflate_left [OF assms, of st ?inc] by auto
  let ?out2 = "store_at sc b ?out1"
  have o1: "take sc ?out1 = take sc out" "sc + length b \<le> length ?out1"
    using less.prems b by (auto simp: take_resize)
  have o2: "take (sc + length b) ?out2 = take sc out @ b" "sc + length b \<le> length ?out2"
    using o1 take_store_at [of sc ?out1 b] length_store_at [of sc b ?out1] by auto
  have step: "compress_loop z sz out sc st =
      (if ?inc - length b = 0 then compress_loop z sz ?out2 (sc + length b) st'
       else Some (resize (sc + length b) ?out2))"
    by (subst compress_loop.simps) (simp add: d Let_def)
  show ?case
  proof (cases "?inc \<le> length (pend st)")
    case True
    then have "length b = ?inc" "length (pend st') < length (pend st)"
      using b st' by (simp_all add: increase_def)
    then have "compress_loop z sz out sc st = compress_loop z sz ?out2 (sc + length b) st'"
      unfolding step by simp
    also have "\<dots> = Some (take (sc + length b) ?out2 @ pend st')"
      using \<open>length (pend st') < length (pend st)\<close> o2(2) by (rule less.hyps)
    also have "\<dots> = Some (take sc out @ pend st)" unfolding o2(1) st' by (simp add: b)
    finally show ?thesis .
  next
    case False
    then have "b = pend st" "?inc - length b \<noteq> 0" using b by simp_all
    then show ?thesis unfolding step using o2 by (simp only: resize_shrink if_False)
  qed
qed

lemma decompress_loop_collects:
  assumes "inflate_laws z pend enc" and "0 < sz"
  shows "su \<le> length out \<Longrightarrow> su + length (pend st) + 2 * sz \<le> decompress_max \<Longrightarrow>
    decompress_loop z sz out su st = Some (Output (take su out @ pend st))"
proof (induction "length (pend st)" arbitrary: out su st rule: less_induct)
  case less
  let ?out1 = "resize (su + 2 * sz) out"
  obtain r b st' where d: "inflate z st (2 * sz) = (r, b, st')" by (metis prod.collapse)
  then have b: "b = take (2 * sz) (pend st)" and st': "pend st' = drop (2 * sz) (pend st)"
    and r: "r \<noteq> Z_ERROR msg" for msg
    using inflate_gives [OF assms(1), of st "2 * sz"] inflate_left [OF assms(1), of st "2 * sz"]
      inflate_no_error [OF assms(1), of st "2 * sz"] by auto
  let ?out2 = "store_at su b ?out1"
  have o1: "take su ?out1 = take su out" "su + length b \<le> length ?out1"
    using less.prems(1) b by (auto simp: take_resize)
  have o2: "take (su + length b) ?out2 = take su out @ b" "su + length b \<le> length ?out2"
    using o1 take_store_at [of su ?out1 b] length_store_at [of su b ?out1] by auto
  have "\<not> su + 2 * sz > decompress_max" using less.prems(2) by simp
  then have step: "decompress_loop z sz out su st =
      (if 2 * sz - length b = 0 then decompress_loop z sz ?out2 (su + length b) st'
       else Some (Output (resize (su + length b) ?out2)))"
    by (subst decompress_loop.simps) (use r in \<open>auto simp: d Let_def split: inflate_status.split\<close>)
  show ?case
  proof (cases "2 * sz \<le> length (pend st)")
    case True
    then have "length b = 2 * sz" "length (pend st') < length (pend st)"
      using b st' assms(2) by simp_all
    then have "decompress_loop z sz out su st = decompress_loop z sz ?out2 (su + length b) st'"
      unfolding step by simp
    also have "\<dots> = Some (Output (take (su + length b) ?out2 @ pend st'))"
      by (rule less.hyps [OF \<open>length (pend st') < length (pend st)\<close> o2(2)])
         (use less.prems(2) b st' True in simp)
    also have "\<dots> = Some (Output (take su out @ pend st))" unfolding o2(1) st' by (simp add: b)
    finally show ?thesis .
  next
    case False
    then have "b = pend st" "2 * sz - length b \<noteq> 0" using b by simp_all
    then show ?thesis unfolding step using o2 by (simp only: resize_shrink if_False)
  qed
qed

lemma compression_level_range: "- 1 \<le> compression_level args \<and> compression_level args \<le> 9"
  by (auto simp: compression_level_def Z_DEFAULT_COMPRESSION_def split: sum.split)

lemma compress_total:
  assumes "deflate_laws z pend enc" and "- 1 \<le> level" and "level \<le> 9" and "length data \<le> compress_max"
  shows "compress z data level = Some (Inr (enc level data))"
proof -
  obtain st where "deflateInit z level data = Some st" "pend st = enc level data"
    using deflate_opens [OF assms(1-3)] by blast
  with assms(4) compress_loop_collects [OF assms(1), of 0 "[]"] show ?thesis
    by (simp add: compress_def)
qed

lemma decompress_encoded:
  assumes "inflate_laws z pend enc" and "- 1 \<le> level" and "level \<le> 9" and "enc level data \<noteq> []"
    and "length data + 2 * length (enc level data) \<le> decompress_max"
  shows "decompress z (enc level data) = Some (Output data)"
proof -
  obtain st where "inflateInit z (enc level data) = Some st" "pend st = data"
    using inflate_opens [OF assms(1-3)] by blast
  with assms(4,5) decompress_loop_collects [OF assms(1), of "length (enc level data)" 0 "[]" st]
  show ?thesis by (simp add: decompress_def)
qed

text \<open>What holds of the loop whenever it returns.\<close>

lemma decompress_loop_bounded:
  assumes ret: "decompress_loop z sz out su st = Some r"
    and law: "\<forall>st n. length (fst (snd (inflate z st n))) \<le> n"
  shows "\<forall>b. r = Output b \<longrightarrow> length b \<le> decompress_max"
proof -
  have "(\<forall>st n. length (fst (snd (inflate z st n))) \<le> n) \<longrightarrow> (\<forall>b. r = Output b \<longrightarrow> length b \<le> decompress_max)"
  proof (rule decompress_loop.raw_induct [where P = "\<lambda>z sz out su st r.
        (\<forall>st n. length (fst (snd (inflate z st n))) \<le> n) \<longrightarrow> (\<forall>b. r = Output b \<longrightarrow> length b \<le> decompress_max)",
        OF _ ret], goal_cases)
    case (1 loop z sz out su st r)
    show ?case
    proof (intro impI allI)
      fix b
      assume law: "\<forall>st n. length (fst (snd (inflate z st n))) \<le> n" and b: "r = Output b"
      from law have "length (fst (snd (inflate z st (2 * sz)))) \<le> 2 * sz" by blast
      with 1(2) b law 1(1) show "length b \<le> decompress_max"
        by (auto simp: Let_def split: if_splits inflate_status.splits option.splits)
    qed
  qed
  with law show ?thesis by blast
qed

lemma decompress_loop_zero:
  assumes law: "\<forall>st. \<exists>st'. inflate z st 0 = (Z_BUF_ERROR, [], st')"
  shows "decompress_loop z 0 out 0 st = None"
proof (rule ccontr)
  assume "decompress_loop z 0 out 0 st \<noteq> None"
  then obtain r where ret: "decompress_loop z 0 out 0 st = Some r" by auto
  have "(\<forall>st. \<exists>st'. inflate z st 0 = (Z_BUF_ERROR, [], st')) \<longrightarrow> (0 :: nat) = 0 \<longrightarrow> (0 :: nat) = 0 \<longrightarrow> False"
  proof (rule decompress_loop.raw_induct [where P = "\<lambda>z sz out su st r.
        (\<forall>st. \<exists>st'. inflate z st 0 = (Z_BUF_ERROR, [], st')) \<longrightarrow> sz = 0 \<longrightarrow> su = 0 \<longrightarrow> False", OF _ ret], goal_cases)
    case (1 loop z sz out su st r)
    show ?case
    proof (intro impI)
      assume law: "\<forall>st. \<exists>st'. inflate z st 0 = (Z_BUF_ERROR, [], st')" and "sz = 0" "su = 0"
      moreover from law obtain st' where "inflate z st 0 = (Z_BUF_ERROR, [], st')" by blast
      ultimately have "loop z 0 (store_at 0 [] (resize 0 out)) 0 st' = Some r"
        using 1(2) by (simp add: Let_def decompress_max_def)
      with 1(1) [OF this] law show False by blast
    qed
  qed
  with law show False by blast
qed

text \<open>The worker of \<^verbatim>\<open>gzip.compress\<close> resolves its promise with the encoded text.\<close>

lemma gzip_compress_resolves:
  assumes "deflate_laws z pend enc" and "b = enc (compression_level (Str t # args)) (utf8 t)"
    and "length (utf8 t) \<le> decompress_max"
    and "gzip_compress_start (Str t # args) p = (Return (i, job), p')"
  shows "gzip_compress_worker z job i p' = Some (settle i (ResolvedWith (RUint8Array b)) (release_slot p'))"
proof -
  let ?level = "compression_level (Str t # args)"
  have lv: "- 1 \<le> ?level" "?level \<le> 9" using compression_level_range by auto
  have "b \<noteq> []" using enc_nonempty [OF assms(1) lv] assms(2) by simp
  moreover have "job = (utf8 t, ?level)"
    using assms(4) begin_job_cases by (fastforce simp: gzip_compress_start_def)
  moreover have "compress z (utf8 t) ?level = Some (Inr b)"
    using compress_total [OF assms(1) lv, of "utf8 t"] assms(2,3)
    by (simp add: compress_max_def decompress_max_def)
  ultimately show ?thesis by (simp add: gzip_compress_worker_def compress_settlement_def)
qed

section \<open>Properties\<close>

text \<open>Compressing and decompressing through the promises gives the text back: a call of
  \<^verbatim>\<open>gzip.compress\<close>, with any level argument, hands out a promise that its worker resolves with a byte
  array, and \<^verbatim>\<open>gzip.decompress\<close> of that array is resolved with the original bytes. Both loops end. The
  text must not be empty and must fit the limit of 1,000,000,000 bytes.\<close>
theorem gzip_roundtrip:
  assumes "deflate_laws z pend enc" and "inflate_laws z pend enc"
    and "utf8 t \<noteq> []" and "b = enc (compression_level (Str t # args)) (utf8 t)"
    and "length (utf8 t) + 2 * length b \<le> decompress_max"
    and "gzip_compress_start (Str t # args) p = (Return (i, job), p')"
    and "gzip_decompress_start [Uint8Array w] q = (Return (j, job'), q')" and "view_buffer w = b"
  shows "gzip_compress_worker z job i p' = Some (settle i (ResolvedWith (RUint8Array b)) (release_slot p'))
       \<and> gzip_decompress_worker z job' j q' = Some (settle j (ResolvedWith (RUtf8 (utf8 t))) (release_slot q'))"
proof
  have lv: "- 1 \<le> compression_level (Str t # args)" "compression_level (Str t # args) \<le> 9"
    using compression_level_range by auto
  show "gzip_compress_worker z job i p' = Some (settle i (ResolvedWith (RUint8Array b)) (release_slot p'))"
    using gzip_compress_resolves [OF assms(1) assms(4) _ assms(6)] assms(5) by simp
  have ne: "b \<noteq> []" using enc_nonempty [OF assms(1) lv] assms(4) by simp
  have "job' = b"
    using assms(7,8) begin_job_cases by (fastforce simp: gzip_decompress_start_def)
  moreover have "decompress z b = Some (Output (utf8 t))"
    using decompress_encoded [OF assms(2) lv, of "utf8 t"] ne assms(4,5) by simp
  ultimately show "gzip_decompress_worker z job' j q'
      = Some (settle j (ResolvedWith (RUtf8 (utf8 t))) (release_slot q'))"
    using assms(3) by (simp add: gzip_decompress_worker_def decompress_settlement_def)
qed

text \<open>A decompression can never produce more than 1,000,000,000 bytes, whatever the input: the loop
  refuses to grow the buffer beyond the limit.\<close>
theorem decompress_bounded:
  assumes "\<And>st n. length (fst (snd (inflate z st n))) \<le> n" and "decompress z data = Some (Output b)"
  shows "length b \<le> decompress_max"
proof -
  from assms(2) obtain st where "decompress_loop z (length data) [] 0 st = Some (Output b)"
    by (auto simp: decompress_def split: option.splits if_splits)
  from decompress_loop_bounded [OF this] assms(1) show ?thesis by blast
qed

text \<open>C40. Decompressing an empty array never ends: the output buffer has \<open>2 * 0\<close> bytes, so zlib always
  reports a full buffer. The worker never finishes, its thread slot is never freed and its promise
  never settled.\<close>
theorem decompress_empty_diverges:
  assumes "inflateInit z [] = Some st0" and "\<And>st. \<exists>st'. inflate z st 0 = (Z_BUF_ERROR, [], st')"
  shows "gzip_decompress_worker z [] i p = None"
proof -
  have "decompress_loop z 0 [] 0 st0 = None" by (rule decompress_loop_zero) (use assms(2) in blast)
  then show ?thesis using assms(1) by (simp add: gzip_decompress_worker_def decompress_settlement_def decompress_def)
qed

text \<open>The asynchronous frame of \<^verbatim>\<open>gzip.compress\<close> keeps the pool balanced: a started job that ends gives
  its thread slot back and settles exactly its own promise, and a full pool makes the call wait
  without a trace.\<close>
theorem gzip_compress_balanced:
  assumes "pool_ok p" and "gzip_compress_start args p = (Return (i, job), p')"
    and "gzip_compress_worker z job i p' = Some p''"
  shows "pool_ok p' \<and> promises p' i = Some Pending \<and> thread_count p'' = thread_count p
       \<and> (\<exists>st. st \<noteq> Pending \<and> promises p'' = (promises p')(i \<mapsto> st))"
  using gzip_compress.started_ok [OF assms(1,2)] gzip_compress.round_trip [OF assms] by simp

section \<open>Witnesses\<close>

text \<open>A stream that stores: compressed data is a mark followed by the data.\<close>

definition stored_zlib :: "bytes zlib" where
  "stored_zlib = \<lparr>deflateInit = (\<lambda>_ d. Some (CHR ''z'' # d)), deflate = (\<lambda>st n. (take n st, drop n st)),
     inflateInit = (\<lambda>d. Some (tl d)),
     inflate = (\<lambda>st n. (if n = 0 then Z_BUF_ERROR else Z_OK, take n st, drop n st))\<rparr>"

lemma stored_laws:
  "deflate_laws stored_zlib (\<lambda>st. st) (\<lambda>_ d. CHR ''z'' # d)"
  "inflate_laws stored_zlib (\<lambda>st. st) (\<lambda>_ d. CHR ''z'' # d)"
  by (simp_all add: deflate_laws_def inflate_laws_def stored_zlib_def)

definition hi :: js_string where "hi = \<lparr>utf8 = ''hi'', two_byte = []\<rparr>"

lemma started_sample: "\<exists>i p'. begin_job job empty_pool = (Return (i, job), p')"
  by (simp add: begin_job_def begin_async_def empty_pool_def may_start_def MAX_THREADS_def)

theorem gzip_roundtrip_witness:
  "\<exists>i job p' j job' q'.
     gzip_compress_start [Str hi] empty_pool = (Return (i, job), p')
   \<and> gzip_compress_worker stored_zlib job i p' = Some (settle i (ResolvedWith (RUint8Array ''zhi'')) (release_slot p'))
   \<and> gzip_decompress_start [Uint8Array \<lparr>view_buffer = ''zhi'', view_offset = 0, view_length = 3\<rparr>] empty_pool
       = (Return (j, job'), q')
   \<and> gzip_decompress_worker stored_zlib job' j q' = Some (settle j (ResolvedWith (RUtf8 ''hi'')) (release_slot q'))"
proof -
  let ?w = "\<lparr>view_buffer = ''zhi'', view_offset = 0, view_length = 3\<rparr>"
  obtain i p' where c: "gzip_compress_start [Str hi] empty_pool
      = (Return (i, (''hi'', compression_level [Str hi])), p')"
    using started_sample [of "(''hi'', compression_level [Str hi])"]
    by (auto simp: gzip_compress_start_def hi_def)
  obtain j q' where d: "gzip_decompress_start [Uint8Array ?w] empty_pool = (Return (j, ''zhi''), q')"
    using started_sample [of "''zhi''"] by (auto simp: gzip_decompress_start_def)
  have "utf8 hi \<noteq> []" "''zhi'' = CHR ''z'' # utf8 hi"
    "length (utf8 hi) + 2 * length ''zhi'' \<le> decompress_max" "view_buffer ?w = ''zhi''"
    by (simp_all add: hi_def decompress_max_def)
  note gzip_roundtrip [OF stored_laws this(1,2,3) c d this(4)]
  with c d show ?thesis by (auto simp: hi_def)
qed

theorem decompress_bounded_witness:
  "decompress stored_zlib ''zhi'' = Some (Output ''hi'') \<and> length ''hi'' \<le> decompress_max"
proof -
  have d: "decompress stored_zlib ''zhi'' = Some (Output ''hi'')"
    using decompress_encoded [OF stored_laws(2), of 0 "''hi''"] by (simp add: decompress_max_def)
  moreover have "length (fst (snd (inflate stored_zlib st n))) \<le> n" for st n
    by (simp add: stored_zlib_def)
  ultimately show ?thesis using decompress_bounded [of stored_zlib "''zhi''" "''hi''"] by blast
qed

theorem decompress_empty_diverges_witness:
  "gzip_decompress_worker stored_zlib [] 0 empty_pool = None"
  by (rule decompress_empty_diverges [of _ "[]"]) (simp_all add: stored_zlib_def)

theorem gzip_compress_balanced_witness:
  "\<exists>i job p' p''. gzip_compress_start [Str hi] empty_pool = (Return (i, job), p')
     \<and> gzip_compress_worker stored_zlib job i p' = Some p'' \<and> thread_count p'' = 0"
proof -
  let ?job = "(''hi'', compression_level [Str hi])"
  obtain i p' where c: "gzip_compress_start [Str hi] empty_pool = (Return (i, ?job), p')"
    using started_sample [of ?job] by (auto simp: gzip_compress_start_def hi_def)
  have "compress stored_zlib ''hi'' (compression_level [Str hi]) = Some (Inr ''zhi'')"
    using compress_total [OF stored_laws(1), of _ "''hi''"] compression_level_range [of "[Str hi]"]
    by (simp add: compress_max_def)
  then obtain p'' where w: "gzip_compress_worker stored_zlib ?job i p' = Some p''"
    by (auto simp: gzip_compress_worker_def compress_settlement_def)
  have "pool_ok empty_pool" by (simp add: pool_ok_def empty_pool_def MAX_THREADS_def)
  from gzip_compress_balanced [OF this c w] c w show ?thesis by (auto simp: empty_pool_def)
qed

end
