(* ===== verification/Script_Api.thy ===== *)
theory Script_Api
  imports Module_Binding Dispatch Database Gzip
begin

text \<open>
  The namespace of the scripts: the modules that \<^verbatim>\<open>create_shell_context\<close> puts into the global object and
  the five objects of \<^verbatim>\<open>initialize_objects\<close>, built with \<^verbatim>\<open>v8pp::module\<close> in the order of the source. A C++
  lambda that is bound to a name is represented by a constructor; what calling it does is defined in
  the theory of the running module. The properties: the global object offers exactly the listed
  functions (also those of \<^verbatim>\<open>crypto.bcrypt\<close>, which is attached before it is filled), no name is bound
  twice, and the constants mean to the callbacks what they are called.
\<close>

section \<open>The functions\<close>

datatype shell_function = Fn_print | Fn_load | Fn_register
datatype fs_fn = Fs_register | Fs_copy | Fs_exists | Fs_delete | Fs_write | Fs_read
datatype async_fn = Http_fetch | Gzip_compress | Gzip_decompress | Bcrypt_hash | Bcrypt_check
datatype ipc_fn = Ipc_set | Ipc_get | Ipc_close
datatype db_fn =
    Db_prepare | Db_reset | Db_exec | Db_execSync | Db_query | Db_querySync | Db_queryRow
  | Db_queryRowSync | Db_close | Db_next | Db_fetch | Db_bind
datatype fetch_fn = Fetch_status | Fetch_text | Fetch_blob | Fetch_headers
datatype response_fn =
    Rs_clear | Rs_clearHeaders | Rs_closeConnection | Rs_disableBuffering | Rs_setNeedDisconnect
  | Rs_getKernelCacheEnabled | Rs_resetConnection | Rs_getStatus | Rs_setStatus | Rs_redirect
  | Rs_setErrorDescription | Rs_disableKernelCache | Rs_deleteHeader | Rs_getHeader | Rs_read
  | Rs_write | Rs_setHeader
datatype request_fn =
    Rq_read | Rq_setUrl | Rq_deleteHeader | Rq_setHeader | Rq_getMethod | Rq_getAbsPath
  | Rq_getFullUrl | Rq_getQueryString | Rq_getPath | Rq_getHost | Rq_getLocalAddress
  | Rq_getRemoteAddress | Rq_getHeader

datatype api_function =
    Shell shell_function
  | Fs fs_fn
  | Async async_fn
  | Ipc_init
  | Db_init
  | Ipc ipc_fn
  | Db db_fn
  | FetchFn fetch_fn
  | Response response_fn
  | Request request_fn

type_synonym api_templates = "api_function templates"

section \<open>create\_shell\_context\<close>

definition global_bindings :: "api_function binding list" where
  "global_bindings =
     [Bind_Function ''print'' (Shell Fn_print),
      Bind_Function ''load'' (Shell Fn_load),
      Bind_Function ''register'' (Shell Fn_register),
      Bind_Const ''BEGIN_REQUEST'' 0,
      Bind_Const ''SEND_RESPONSE'' 1,
      Bind_Const ''PRE_BEGIN_REQUEST'' 2,
      Bind_Const ''CONTINUE'' 0,
      Bind_Const ''FINISH'' 1]"

definition http_bindings :: "api_function binding list" where
  "http_bindings = [Bind_Function ''fetch'' (Async Http_fetch)]"

definition ipc_bindings :: "api_function binding list" where
  "ipc_bindings = [Bind_Function ''init'' Ipc_init]"

definition fs_bindings :: "api_function binding list" where
  "fs_bindings =
     [Bind_Function ''register'' (Fs Fs_register),
      Bind_Function ''copy'' (Fs Fs_copy),
      Bind_Function ''exists'' (Fs Fs_exists),
      Bind_Function ''delete'' (Fs Fs_delete),
      Bind_Function ''write'' (Fs Fs_write),
      Bind_Function ''read'' (Fs Fs_read)]"

definition db_bindings :: "api_function binding list" where
  "db_bindings =
     [Bind_Function ''init'' Db_init,
      Bind_Const ''STRING'' 0,
      Bind_Const ''INTEGER'' 1,
      Bind_Const ''DOUBLE'' 2,
      Bind_Const ''BOOL'' 3]"

definition gzip_bindings :: "api_function binding list" where
  "gzip_bindings =
     [Bind_Function ''compress'' (Async Gzip_compress),
      Bind_Function ''decompress'' (Async Gzip_decompress),
      Bind_Const ''NO_COMPRESSION'' 0,
      Bind_Const ''BEST_SPEED'' 1,
      Bind_Const ''BEST_COMPRESSION'' 9]"

definition bcrypt_bindings :: "api_function binding list" where
  "bcrypt_bindings =
     [Bind_Function ''hash'' (Async Bcrypt_hash),
      Bind_Function ''check'' (Async Bcrypt_check)]"

text \<open>The module \<^verbatim>\<open>crypto\<close> gets \<^verbatim>\<open>bcrypt\<close> while that module is still empty.\<close>

definition crypto_modules :: "api_templates \<Rightarrow> nat \<times> api_templates" where
  "crypto_modules s =
     (let (crypto_module, s1) = module_new s;
          (bcrypt_module, s2) = module_new s1;
          s3 = module_set_const_module crypto_module ''bcrypt'' bcrypt_module s2
      in (crypto_module, apply_bindings bcrypt_module bcrypt_bindings s3))"

definition global_modules :: "nat \<Rightarrow> nat \<Rightarrow> nat \<Rightarrow> nat \<Rightarrow> nat \<Rightarrow> nat \<Rightarrow> api_function binding list" where
  "global_modules ipc_module http_module fs_module db_module crypto_module gzip_module =
     [Bind_Module ''ipc'' ipc_module,
      Bind_Module ''http'' http_module,
      Bind_Module ''fs'' fs_module,
      Bind_Module ''db'' db_module,
      Bind_Module ''crypto'' crypto_module,
      Bind_Module ''gzip'' gzip_module]"

definition filled_module :: "api_function binding list \<Rightarrow> api_templates \<Rightarrow> nat \<times> api_templates" where
  "filled_module bs s = (let (m, s1) = module_new s in (m, apply_bindings m bs s1))"

text \<open>The result is the template of the global object of the new context.\<close>

definition create_shell_context :: "api_templates \<Rightarrow> nat \<times> api_templates" where
  "create_shell_context s0 =
     (let (global, s1) = filled_module global_bindings s0;
          (http_module, s2) = filled_module http_bindings s1;
          (ipc_module, s3) = filled_module ipc_bindings s2;
          (fs_module, s4) = filled_module fs_bindings s3;
          (db_module, s5) = filled_module db_bindings s4;
          (gzip_module, s6) = filled_module gzip_bindings s5;
          (crypto_module, s7) = crypto_modules s6
      in (global, apply_bindings global
            (global_modules ipc_module http_module fs_module db_module crypto_module gzip_module) s7))"

section \<open>The objects with an internal field\<close>

definition ipc_object_bindings :: "api_function binding list" where
  "ipc_object_bindings =
     [Bind_Function ''set'' (Ipc Ipc_set),
      Bind_Function ''get'' (Ipc Ipc_get),
      Bind_Function ''close'' (Ipc Ipc_close)]"

definition db_object_bindings :: "api_function binding list" where
  "db_object_bindings =
     [Bind_Function ''prepare'' (Db Db_prepare),
      Bind_Function ''reset'' (Db Db_reset),
      Bind_Function ''exec'' (Db Db_exec),
      Bind_Function ''execSync'' (Db Db_execSync),
      Bind_Function ''query'' (Db Db_query),
      Bind_Function ''querySync'' (Db Db_querySync),
      Bind_Function ''queryRow'' (Db Db_queryRow),
      Bind_Function ''queryRowSync'' (Db Db_queryRowSync),
      Bind_Function ''close'' (Db Db_close),
      Bind_Function ''next'' (Db Db_next),
      Bind_Function ''fetch'' (Db Db_fetch),
      Bind_Function ''bind'' (Db Db_bind)]"

definition fetch_object_bindings :: "api_function binding list" where
  "fetch_object_bindings =
     [Bind_Function ''status'' (FetchFn Fetch_status),
      Bind_Function ''text'' (FetchFn Fetch_text),
      Bind_Function ''blob'' (FetchFn Fetch_blob),
      Bind_Function ''headers'' (FetchFn Fetch_headers)]"

definition response_object_bindings :: "api_function binding list" where
  "response_object_bindings =
     [Bind_Function ''clear'' (Response Rs_clear),
      Bind_Function ''clearHeaders'' (Response Rs_clearHeaders),
      Bind_Function ''closeConnection'' (Response Rs_closeConnection),
      Bind_Function ''disableBuffering'' (Response Rs_disableBuffering),
      Bind_Function ''setNeedDisconnect'' (Response Rs_setNeedDisconnect),
      Bind_Function ''getKernelCacheEnabled'' (Response Rs_getKernelCacheEnabled),
      Bind_Function ''resetConnection'' (Response Rs_resetConnection),
      Bind_Function ''getStatus'' (Response Rs_getStatus),
      Bind_Function ''setStatus'' (Response Rs_setStatus),
      Bind_Function ''redirect'' (Response Rs_redirect),
      Bind_Function ''setErrorDescription'' (Response Rs_setErrorDescription),
      Bind_Function ''disableKernelCache'' (Response Rs_disableKernelCache),
      Bind_Function ''deleteHeader'' (Response Rs_deleteHeader),
      Bind_Function ''getHeader'' (Response Rs_getHeader),
      Bind_Function ''read'' (Response Rs_read),
      Bind_Function ''write'' (Response Rs_write),
      Bind_Function ''setHeader'' (Response Rs_setHeader)]"

definition request_object_bindings :: "api_function binding list" where
  "request_object_bindings =
     [Bind_Function ''read'' (Request Rq_read),
      Bind_Function ''setUrl'' (Request Rq_setUrl),
      Bind_Function ''deleteHeader'' (Request Rq_deleteHeader),
      Bind_Function ''setHeader'' (Request Rq_setHeader),
      Bind_Function ''getMethod'' (Request Rq_getMethod),
      Bind_Function ''getAbsPath'' (Request Rq_getAbsPath),
      Bind_Function ''getFullUrl'' (Request Rq_getFullUrl),
      Bind_Function ''getQueryString'' (Request Rq_getQueryString),
      Bind_Function ''getPath'' (Request Rq_getPath),
      Bind_Function ''getHost'' (Request Rq_getHost),
      Bind_Function ''getLocalAddress'' (Request Rq_getLocalAddress),
      Bind_Function ''getRemoteAddress'' (Request Rq_getRemoteAddress),
      Bind_Function ''getHeader'' (Request Rq_getHeader)]"

text \<open>One of the blocks of \<^verbatim>\<open>initialize_objects\<close>: fill a new module, reserve an internal field, and keep an
  instance from which the objects are cloned.\<close>

definition object_module :: "api_function binding list \<Rightarrow> api_templates \<Rightarrow> nat \<times> api_templates" where
  "object_module bs s =
     (let (m, s1) = filled_module bs s in (m, SetInternalFieldCount m 1 s1))"

section \<open>The templates that are built\<close>

definition template_of :: "api_function binding list \<Rightarrow> api_function object_template" where
  "template_of bs = \<lparr>template_properties = map entry bs, internal_field_count = 0\<rparr>"

definition shell_templates :: "nat \<Rightarrow> api_templates" where
  "shell_templates n =
     [template_of (global_bindings @ global_modules (n + 2) (n + 1) (n + 3) (n + 4) (n + 6) (n + 5)),
      template_of http_bindings,
      template_of ipc_bindings,
      template_of fs_bindings,
      template_of db_bindings,
      template_of gzip_bindings,
      template_of [Bind_Module ''bcrypt'' (n + 7)],
      template_of bcrypt_bindings]"

lemma apply_bindings_at:
  "apply_bindings (length s) bs (s @ template_of cs # r) = s @ template_of (cs @ bs) # r"
proof (induction bs arbitrary: cs)
  case (Cons b bs)
  have "apply_binding (length s) b (s @ template_of cs # r) = s @ template_of (cs @ [b]) # r"
    by (cases b) (simp_all add: template_of_def module_set_def module_set_const_def
        module_set_const_module_def Template_Set_def nth_append)
  with Cons [of "cs @ [b]"] show ?case by (simp add: apply_bindings_def)
qed (simp add: apply_bindings_def)

lemma filled_module_eq: "filled_module bs s = (length s, s @ [template_of bs])"
  using apply_bindings_at [of s bs "[]" "[]"]
  by (simp add: filled_module_def module_new_def ObjectTemplate_New_def template_of_def)

lemma crypto_modules_eq:
  "crypto_modules s = (length s, s @ [template_of [Bind_Module ''bcrypt'' (Suc (length s))], template_of bcrypt_bindings])"
  using apply_bindings_at [of "s @ [template_of [Bind_Module ''bcrypt'' (Suc (length s))]]" bcrypt_bindings "[]" "[]"]
  by (simp add: crypto_modules_def module_new_def ObjectTemplate_New_def template_of_def
      module_set_const_module_def Template_Set_def nth_append)

lemma create_shell_context_eq:
  "create_shell_context s = (length s, s @ shell_templates (length s))"
  by (simp add: create_shell_context_def filled_module_eq crypto_modules_eq apply_bindings_at
      shell_templates_def numeral_eq_Suc)

section \<open>The namespace\<close>

text \<open>The global object of a context created when the isolate already has the templates \<open>s\<close>.\<close>

definition shell_instance :: "api_templates \<Rightarrow> api_function property option" where
  "shell_instance s =
     (let (global, s') = create_shell_context s in new_instance (length s') s' global)"

lemmas binding_defs =
  global_bindings_def http_bindings_def ipc_bindings_def fs_bindings_def db_bindings_def
  gzip_bindings_def bcrypt_bindings_def global_modules_def

text \<open>An object with the properties that a list of bindings gives, below it the objects given for its
  modules.\<close>

definition bound_object :: "api_function binding list \<Rightarrow> (string \<times> api_function property) list \<Rightarrow> api_function property" where
  "bound_object bs subs =
     PObject (map (\<lambda>b. case entry b of
                 (name, FunctionTemplate f, a) \<Rightarrow> (name, PFunction f, a)
               | (name, Constant c, a) \<Rightarrow> (name, PConstant c, a)) bs
              @ map (\<lambda>(name, p). (name, p, ReadOnly OR DontDelete)) subs) 0"

definition shell_object :: "api_function property" where
  "shell_object =
     bound_object global_bindings
       [(''ipc'', bound_object ipc_bindings []),
        (''http'', bound_object http_bindings []),
        (''fs'', bound_object fs_bindings []),
        (''db'', bound_object db_bindings []),
        (''crypto'', bound_object [] [(''bcrypt'', bound_object bcrypt_bindings [])]),
        (''gzip'', bound_object gzip_bindings [])]"

lemma shell_templates_nth:
  "(s @ shell_templates (length s)) ! length s =
     template_of (global_bindings @ global_modules (length s + 2) (length s + 1) (length s + 3)
       (length s + 4) (length s + 6) (length s + 5))"
  "(s @ shell_templates (length s)) ! (length s + 1) = template_of http_bindings"
  "(s @ shell_templates (length s)) ! (length s + 2) = template_of ipc_bindings"
  "(s @ shell_templates (length s)) ! (length s + 3) = template_of fs_bindings"
  "(s @ shell_templates (length s)) ! (length s + 4) = template_of db_bindings"
  "(s @ shell_templates (length s)) ! (length s + 5) = template_of gzip_bindings"
  "(s @ shell_templates (length s)) ! (length s + 6) = template_of [Bind_Module ''bcrypt'' (length s + 7)]"
  "(s @ shell_templates (length s)) ! (length s + 7) = template_of bcrypt_bindings"
  by (simp_all add: nth_append shell_templates_def)

lemma shell_instance_eq: "shell_instance s = Some shell_object"
proof -
  define t where "t = s @ shell_templates (length s)"
  note at = shell_templates_nth [of s, folded t_def, simplified]
  have "new_instance (Suc (Suc (Suc n))) t (length s) = Some shell_object" for n
    by (simp add: at template_of_def binding_defs shell_object_def bound_object_def)
  moreover have "length t = Suc (Suc (Suc (length s + 5)))" by (simp add: t_def shell_templates_def)
  ultimately have "new_instance (length t) t (length s) = Some shell_object" by metis
  then show ?thesis by (simp add: shell_instance_def create_shell_context_eq flip: t_def)
qed

lemmas shell_simps = shell_object_def bound_object_def binding_defs

text \<open>The number behind a constant of the namespace, and the number as a value a script passes on; the
  bits of its double are not read by the callbacks.\<close>

definition api_constant :: "api_templates \<Rightarrow> string list \<Rightarrow> int option" where
  "api_constant s path =
     (case Option.bind (shell_instance s) (\<lambda>g. get_path_of g path) of
        Some (PConstant (RInteger i)) \<Rightarrow> Some i
      | _ \<Rightarrow> None)"

definition script_number :: "u64 \<Rightarrow> int \<Rightarrow> js_value" where
  "script_number bits i = Number \<lparr>is_int32 = True, int32_value = word_of_int i, number_bits = bits\<rparr>"

lemma from_v8_script_number:
  "- (2 ^ 31) \<le> i \<Longrightarrow> i < 2 ^ 31 \<Longrightarrow> from_v8_int (script_number bits i) = Inr i"
  using signed_take_bit_int_eq_self [of 31 i] by (simp add: script_number_def sint_sbintrunc')

lemma IsNumber_script_number [simp]: "IsNumber (script_number bits i)" "IsInt32 (script_number bits i)"
  by (simp_all add: script_number_def)

lemma register_constant:
  assumes "callback_type i = Some t" and "- (2 ^ 31) \<le> i" and "i < 2 ^ 31"
  shows "register [script_number bits i, Function f] e = (Return RUndefined, set_callback t f e)"
  using assms by (simp add: register_def from_v8_script_number)

lemma handle_constant:
  assumes "- (2 ^ 31) \<le> i" and "i < 2 ^ 31"
  shows "handle_result t ctx (script_number bits i) srv =
    (if i = 0 then RQ_NOTIFICATION_CONTINUE
     else if t = PRE_BEGIN_REQUEST then GL_NOTIFICATION_HANDLED else RQ_NOTIFICATION_FINISH_REQUEST, srv)"
proof -
  have "number_or_zero (script_number bits i) = i"
    using from_v8_script_number [OF assms] by (simp add: number_or_zero_def from_v8_default_def)
  then show ?thesis by (simp add: handle_result_def script_number_def)
qed

lemma level_constant:
  assumes "0 \<le> i" and "i \<le> 9"
  shows "compression_level [v, script_number bits i] = i"
  using assms by (simp add: compression_level_def from_v8_script_number)

lemma api_constant_simps [simp]:
  "api_constant s [''BEGIN_REQUEST''] = Some 0"
  "api_constant s [''SEND_RESPONSE''] = Some 1"
  "api_constant s [''PRE_BEGIN_REQUEST''] = Some 2"
  "api_constant s [''CONTINUE''] = Some 0"
  "api_constant s [''FINISH''] = Some 1"
  "api_constant s [''db'', ''STRING''] = Some 0"
  "api_constant s [''db'', ''INTEGER''] = Some 1"
  "api_constant s [''db'', ''DOUBLE''] = Some 2"
  "api_constant s [''db'', ''BOOL''] = Some 3"
  "api_constant s [''gzip'', ''NO_COMPRESSION''] = Some 0"
  "api_constant s [''gzip'', ''BEST_SPEED''] = Some 1"
  "api_constant s [''gzip'', ''BEST_COMPRESSION''] = Some 9"
  by (simp_all add: api_constant_def shell_instance_eq shell_simps)

section \<open>Properties\<close>

text \<open>Whatever templates the isolate already has, the global object of a new context offers
  exactly these functions, and no name is bound twice: the functions of \<^verbatim>\<open>crypto.bcrypt\<close> are there although
  the module was attached to \<^verbatim>\<open>crypto\<close> before they were set.\<close>

theorem shell_namespace:
  "\<exists>g. shell_instance s = Some g
     \<and> function_paths g =
        [([''print''], Shell Fn_print), ([''load''], Shell Fn_load), ([''register''], Shell Fn_register),
         ([''ipc'', ''init''], Ipc_init),
         ([''http'', ''fetch''], Async Http_fetch),
         ([''fs'', ''register''], Fs Fs_register), ([''fs'', ''copy''], Fs Fs_copy),
         ([''fs'', ''exists''], Fs Fs_exists), ([''fs'', ''delete''], Fs Fs_delete),
         ([''fs'', ''write''], Fs Fs_write), ([''fs'', ''read''], Fs Fs_read),
         ([''db'', ''init''], Db_init),
         ([''crypto'', ''bcrypt'', ''hash''], Async Bcrypt_hash),
         ([''crypto'', ''bcrypt'', ''check''], Async Bcrypt_check),
         ([''gzip'', ''compress''], Async Gzip_compress),
         ([''gzip'', ''decompress''], Async Gzip_decompress)]
     \<and> list_all (\<lambda>(path, f). get_path_of g path = Some (PFunction f)) (function_paths g)"
  by (simp add: shell_instance_eq shell_simps)


end
