(* ===== verification/Http_Context.thy ===== *)
theory Http_Context
  imports V8_Values
begin

text \<open>
  What the request and response objects of a script share: the \<^verbatim>\<open>IHttpContext\<close> pointer in the internal
  field of the JavaScript object, the calls made through it, and the answers of the server. IIS is
  code outside the repository. Its state is represented by the history of calls made on it; an
  \<open>iis\<close> record gives, for every history, the answers (\<^verbatim>\<open>HRESULT\<close> failed or not, header values, entity
  chunks, bytes read), so that no behaviour of the server is fixed in the definitions. The contract
  of a callback, \<open>http_callback\<close>, and its consequences for whole scripts are proved once here.
\<close>

section \<open>Calls and answers\<close>

datatype header_id = HttpHeaderContentType | HttpHeaderContentEncoding

text \<open>Arguments are kept at the width of the server's interface: \<^verbatim>\<open>USHORT\<close> status codes and header
  lengths, \<^verbatim>\<open>ULONG\<close> or \<^verbatim>\<open>DWORD\<close> for the rest.\<close>

datatype http_call =
    Clear
  | ClearHeaders
  | CloseConnection
  | DisableBuffering
  | SetNeedDisconnect
  | ResetConnection
  | SetStatus "16 word" bytes
  | Redirect bytes bool bool
  | SetErrorDescription wstring u32 bool
  | DisableKernelCache u32
  | DeleteHeader bytes
  | SetHeader bytes bytes "16 word" bool
  | SetHeaderById header_id bytes "16 word" bool
  | WriteEntityChunk bytes "16 word" bool
  | ReadEntityBody nat
  | AllocateRequestMemory u32
  | InsertEntityBody bytes
  | SetUrl bytes u32 bool
  | RequestDeleteHeader bytes
  | RequestSetHeader bytes bytes "16 word" bool

datatype entity_chunk = FromMemory bytes | FromOther

record cooked_url =
  url_text :: wstring          \<comment> \<open>the buffer all pointers of \<^verbatim>\<open>HTTP_COOKED_URL\<close> point into\<close>
  FullUrlLength :: "16 word"   \<comment> \<open>lengths count bytes\<close>
  pHost :: nat
  HostLength :: "16 word"
  pAbsPath :: nat
  AbsPathLength :: "16 word"
  pQueryString :: nat
  QueryStringLength :: "16 word"

datatype sockaddr = AF_INET u32 | AF_INET6 "128 word" | AF_OTHER nat

type_synonym history = "http_call list"

record iis =
  failed :: "history \<Rightarrow> bool"            \<comment> \<open>\<^verbatim>\<open>FAILED(hr)\<close> of the last call\<close>
  status_code :: "history \<Rightarrow> 16 word"
  kernel_cache_enabled :: "history \<Rightarrow> bool"
  response_header :: "history \<Rightarrow> bytes \<Rightarrow> bytes option"
  entity_chunks :: "history \<Rightarrow> entity_chunk list"
  remaining_bytes :: "history \<Rightarrow> u32"
  entity_body :: "history \<Rightarrow> bytes"       \<comment> \<open>what the last \<^verbatim>\<open>ReadEntityBody\<close> stored in the buffer\<close>
  request_memory :: "history \<Rightarrow> bool"     \<comment> \<open>the last \<^verbatim>\<open>AllocateRequestMemory\<close> gave a pointer\<close>
  request_header :: "history \<Rightarrow> bytes \<Rightarrow> bytes option"
  http_method :: "history \<Rightarrow> bytes"
  cooked :: "history \<Rightarrow> cooked_url"
  local_address :: "history \<Rightarrow> sockaddr option"
  remote_address :: "history \<Rightarrow> sockaddr option"
  InetNtop :: "sockaddr \<Rightarrow> bytes"
  ToString :: "js_value \<Rightarrow> bytes option"  \<comment> \<open>V8's conversion of a value that is not a string\<close>
  kMaxLength :: nat                       \<comment> \<open>\<^verbatim>\<open>v8::String::kMaxLength\<close>\<close>

section \<open>The context pointer\<close>

text \<open>\<open>NullContext\<close> is a null internal field, \<open>Context req resp\<close> a live context that has or has not a
  request and a response, \<open>Freed\<close> a pointer to a context whose request has ended:
  \<^verbatim>\<open>RESET_INTERNAL_POINTERS\<close> expands to nothing, so the pointers of the objects are never cleared.\<close>

datatype context_pointer = NullContext | Context bool bool | Freed

record http =
  http_context :: context_pointer
  calls :: history

definition call :: "http_call \<Rightarrow> http \<Rightarrow> http" where
  "call c s = s\<lparr>calls := calls s @ [c]\<rparr>"

text \<open>The first line of every callback.\<close>

definition with_response :: "string \<Rightarrow> http \<Rightarrow> ('r, http) result \<Rightarrow> ('r, http) result" where
  "with_response msg s r =
     (case http_context s of
        NullContext \<Rightarrow> (Throw msg, s)
      | Context _ has_response \<Rightarrow> if has_response then r else (Throw msg, s)
      | Freed \<Rightarrow> (Crash, s))"

definition with_request :: "string \<Rightarrow> http \<Rightarrow> ('r, http) result \<Rightarrow> ('r, http) result" where
  "with_request msg s r =
     (case http_context s of
        NullContext \<Rightarrow> (Throw msg, s)
      | Context has_request _ \<Rightarrow> if has_request then r else (Throw msg, s)
      | Freed \<Rightarrow> (Crash, s))"

text \<open>A call whose result is checked.\<close>

definition checked :: "iis \<Rightarrow> http_call \<Rightarrow> string \<Rightarrow> http \<Rightarrow> (js_return, http) result" where
  "checked env c msg s =
     (let s' = call c s
      in if failed env (calls s') then (Throw msg, s') else (Return RUndefined, s'))"

text \<open>\<^verbatim>\<open>String::Utf8Value\<close> converts any value; the pointer is null when the conversion throws.\<close>

definition Utf8Value :: "iis \<Rightarrow> js_value \<Rightarrow> bytes option" where
  "Utf8Value env v = (case v of Str s \<Rightarrow> Some (utf8 s) | _ \<Rightarrow> ToString env v)"

text \<open>\<^verbatim>\<open>v8pp::to_v8\<close> on characters: \<^verbatim>\<open>ToLocalChecked\<close> aborts when the string is too long for V8.\<close>

definition to_v8 :: "iis \<Rightarrow> bytes \<Rightarrow> 's \<Rightarrow> (js_return, 's) result" where
  "to_v8 env b s = (if length b \<le> kMaxLength env then (Return (RUtf8 b), s) else (Crash, s))"

definition ushort :: "nat \<Rightarrow> 16 word" where
  "ushort n = word_of_nat n"

lemma call_simps [simp]:
  "calls (call c s) = calls s @ [c]"
  "http_context (call c s) = http_context s"
  by (simp_all add: call_def)

lemma unat_ushort: "n < 2 ^ 16 \<Longrightarrow> unat (ushort n) = n"
  by (simp add: ushort_def unat_of_nat take_bit_nat_eq_self)

lemma http_eqI:
  "http_context s = http_context t \<Longrightarrow> calls s = calls t \<Longrightarrow> (s :: http) = t"
  by simp

section \<open>The contract of a callback\<close>

text \<open>Every callback leaves the pointer alone and only adds calls, and is refused without a call when
  the object is missing or when fewer arguments than its arity were passed.\<close>

definition extends :: "http \<Rightarrow> http \<Rightarrow> bool" where
  "extends s s' \<longleftrightarrow> http_context s' = http_context s \<and> prefix (calls s) (calls s')"

lemma extends_refl [simp, intro]: "extends s s"
  by (simp add: extends_def)

lemma extends_trans [trans]: "extends s t \<Longrightarrow> extends t u \<Longrightarrow> extends s u"
  by (auto simp: extends_def)

lemma extends_call [simp, intro]: "extends s (call c s)"
  by (simp add: extends_def)

lemma extends_call_trans: "extends s t \<Longrightarrow> extends s (call c t)"
  by (blast intro: extends_trans)

lemma extends_checked: "extends s t \<Longrightarrow> extends s (snd (checked env c msg t))"
  by (auto simp: checked_def Let_def intro: extends_call_trans)

lemma extends_to_v8: "extends s t \<Longrightarrow> extends s (snd (to_v8 env b t))"
  by (simp add: to_v8_def)

lemma extends_with:
  "extends s (snd r) \<Longrightarrow> extends s (snd (with_response msg s r))"
  "extends s (snd r) \<Longrightarrow> extends s (snd (with_request msg s r))"
  by (auto simp: with_response_def with_request_def split: context_pointer.splits)

lemma extends_or_throw:
  "extends s t \<Longrightarrow> (\<And>x. extends s (snd (k x))) \<Longrightarrow> extends s (snd (or_throw c t k))"
  by (cases c) (auto simp: or_throw_def)

lemma extends_chain:
  assumes "extends s (snd r)" and "\<And>a t. extends s t \<Longrightarrow> extends s (snd (k a t))"
  shows "extends s (snd (chain r k))"
  using assms by (auto simp: chain_def split: prod.splits outcome.splits)

lemmas extends_intros =
  extends_with extends_or_throw extends_checked extends_to_v8 extends_call_trans extends_chain

locale http_callback =
  fixes f :: "js_args \<Rightarrow> http \<Rightarrow> (js_return, http) result"
    and present :: "context_pointer \<Rightarrow> bool"
    and arity :: nat
  assumes absent: "\<not> present (http_context s) \<Longrightarrow> http_context s \<noteq> Freed \<Longrightarrow>
      \<exists>msg. f args s = (Throw msg, s)"
    and stale: "http_context s = Freed \<Longrightarrow> f args s = (Crash, s)"
    and short: "length args < arity \<Longrightarrow> http_context s \<noteq> Freed \<Longrightarrow> \<exists>msg. f args s = (Throw msg, s)"
    and grows: "extends s (snd (f args s))"
begin

lemma rejected_makes_no_call:
  assumes "\<not> present (http_context s) \<or> length args < arity" and "http_context s \<noteq> Freed"
  shows "\<exists>e. forward_function f args s = (JS_Exception e, s)"
  using assms absent [of s args] short [of args s] by (auto simp: forward_function_def)

lemma pointer_kept: "http_context (snd (f args s)) = http_context s"
  using grows by (simp add: extends_def)

lemma forward_grows: "extends s (snd (forward_function f args s))"
  using grows [of s args] by (auto simp: forward_function_def split: prod.splits outcome.splits)

end

text \<open>The callbacks have the same frame; these rules reduce the contract to the part after the guards.\<close>

fun has_response :: "context_pointer \<Rightarrow> bool" where
  "has_response (Context _ r) = r" | "has_response _ = False"

fun has_request :: "context_pointer \<Rightarrow> bool" where
  "has_request (Context q _) = q" | "has_request _ = False"

lemma response_callbackI:
  assumes "\<And>args s. f args s = with_response msg s (if length args < n then (Throw sig, s) else g args s)"
    and "\<And>args s. extends s (snd (g args s))"
  shows "http_callback f has_response n"
proof
  fix args s
  show "extends s (snd (f args s))" unfolding assms(1) by (rule extends_with) (simp add: assms(2))
qed (auto simp: assms(1) with_response_def split: context_pointer.splits)

lemma response_callback0I:
  assumes "\<And>args s. f args s = with_response msg s (g args s)"
    and "\<And>args s. extends s (snd (g args s))"
  shows "http_callback f has_response 0"
  by (rule response_callbackI [where g = g and msg = msg]) (simp_all add: assms)

lemma request_callbackI:
  assumes "\<And>args s. f args s = with_request msg s (if length args < n then (Throw sig, s) else g args s)"
    and "\<And>args s. extends s (snd (g args s))"
  shows "http_callback f has_request n"
proof
  fix args s
  show "extends s (snd (f args s))" unfolding assms(1) by (rule extends_with) (simp add: assms(2))
qed (auto simp: assms(1) with_request_def split: context_pointer.splits)

lemma request_callback0I:
  assumes "\<And>args s. f args s = with_request msg s (g args s)"
    and "\<And>args s. extends s (snd (g args s))"
  shows "http_callback f has_request 0"
  by (rule request_callbackI [where g = g and msg = msg]) (simp_all add: assms)

text \<open>A script run: the calls a script makes on its object, in order. An exception the script does
  not catch ends it; a script may also catch it and go on, so the run simply continues.\<close>

type_synonym http_function = "js_args \<Rightarrow> http \<Rightarrow> (js_return, http) result"

primrec run_script :: "(http_function \<times> js_args) list \<Rightarrow> http \<Rightarrow> js_completion list \<times> http" where
  "run_script [] s = ([], s)"
| "run_script (c # cs) s =
     (let (r, s1) = forward_function (fst c) (snd c) s
      in if r = JS_Dead then ([r], s1)
         else let (rs, s2) = run_script cs s1 in (r # rs, s2))"

lemma run_script_extends:
  assumes "\<And>c s. c \<in> set cs \<Longrightarrow> extends s (snd (forward_function (fst c) (snd c) s))"
  shows "extends s (snd (run_script cs s))"
  using assms
proof (induction cs arbitrary: s)
  case (Cons c cs)
  obtain r t where f: "forward_function (fst c) (snd c) s = (r, t)" by force
  with Cons.prems [of c s] have "extends s t" by simp
  moreover have "extends t (snd (run_script cs t))" using Cons by simp
  ultimately show ?case using f by (auto simp: Let_def case_prod_beta intro: extends_trans)
qed simp

end
