(* ===== verification/Http_Response.thy ===== *)
theory Http_Response
  imports Http_Context
begin

text \<open>
  The response object scripts see (\<^verbatim>\<open>initialize_objects\<close>, "HttpResponse JS Object"): every function of
  its module as one definition, guards and conversions in source order, and the module itself as the
  table of its functions. The properties cover the delivery of a written body in chunks, the
  assembly of a read body, and the contract of all functions of the table.
\<close>

section \<open>The functions of the response object\<close>

text \<open>Functions without arguments.\<close>

definition response_clear :: http_function where
  "response_clear args s =
     with_response ''invalid p_http_response for clear'' s (Return RUndefined, call Clear s)"

definition response_clearHeaders :: http_function where
  "response_clearHeaders args s =
     with_response ''invalid p_http_response for clearHeaders'' s
       (Return RUndefined, call ClearHeaders s)"

definition response_closeConnection :: http_function where
  "response_closeConnection args s =
     with_response ''invalid p_http_response for closeConnection'' s
       (Return RUndefined, call CloseConnection s)"

definition response_disableBuffering :: http_function where
  "response_disableBuffering args s =
     with_response ''invalid p_http_response for disableBuffering'' s
       (Return RUndefined, call DisableBuffering s)"

definition response_setNeedDisconnect :: http_function where
  "response_setNeedDisconnect args s =
     with_response ''invalid p_http_response for setNeedDisconnect'' s
       (Return RUndefined, call SetNeedDisconnect s)"

definition response_getKernelCacheEnabled :: "iis \<Rightarrow> http_function" where
  "response_getKernelCacheEnabled env args s =
     with_response ''invalid p_http_response for getKernelCacheEnabled'' s
       (Return (RBoolean (kernel_cache_enabled env (calls s))), s)"

definition response_resetConnection :: http_function where
  "response_resetConnection args s =
     with_response ''invalid p_http_response for resetConnection'' s
       (Return RUndefined, call ResetConnection s)"

definition response_getStatus :: "iis \<Rightarrow> http_function" where
  "response_getStatus env args s =
     with_response ''invalid p_http_response for getStatus'' s
       (Return (RUnsigned (unat (status_code env (calls s)))), s)"

text \<open>Functions with converted arguments. An \<^verbatim>\<open>int\<close> status code is narrowed to \<^verbatim>\<open>USHORT\<close>.\<close>

definition response_setStatus :: "iis \<Rightarrow> http_function" where
  "response_setStatus env args s =
     with_response ''invalid p_http_response for setStatus'' s
      (if length args < 2 then (Throw ''invalid signature for setStatus'', s)
       else or_throw (from_v8_int (arg args 0)) s (\<lambda>code.
            or_throw (from_v8_cstring (arg args 1)) s (\<lambda>message.
            checked env (SetStatus (word_of_int code) message) ''failed to setStatus'' s)))"

definition response_redirect :: "iis \<Rightarrow> http_function" where
  "response_redirect env args s =
     with_response ''invalid p_http_response for redirect'' s
      (if length args < 3 then (Throw ''invalid signature for redirect'', s)
       else or_throw (from_v8_string (arg args 0)) s (\<lambda>url.
            or_throw (from_v8_bool (arg args 1)) s (\<lambda>reset_status_code.
            or_throw (from_v8_bool (arg args 2)) s (\<lambda>include_parameters.
            checked env (Redirect (c_str url) reset_status_code include_parameters)
              ''failed to redirect'' s))))"

definition response_setErrorDescription :: "iis \<Rightarrow> http_function" where
  "response_setErrorDescription env args s =
     with_response ''invalid p_http_response for setErrorDescription'' s
      (if length args < 2 then (Throw ''invalid signature for setErrorDescription'', s)
       else or_throw (from_v8_wstring (arg args 0)) s (\<lambda>description.
            or_throw (from_v8_bool (arg args 1)) s (\<lambda>should_html_encode.
            checked env
              (SetErrorDescription description (word_of_nat (length description)) should_html_encode)
              ''failed to set error description'' s)))"

definition response_disableKernelCache :: "iis \<Rightarrow> http_function" where
  "response_disableKernelCache env args s =
     with_response ''invalid p_http_response for disableKernelCache'' s
      (if length args < 1 then (Throw ''invalid signature for disableKernelCache'', s)
       else or_throw (from_v8_int (arg args 0)) s (\<lambda>reason.
            (Return RUndefined, call (DisableKernelCache (word_of_int reason)) s)))"

definition response_deleteHeader :: "iis \<Rightarrow> http_function" where
  "response_deleteHeader env args s =
     with_response ''invalid p_http_response for deleteHeader'' s
      (if length args < 1 then (Throw ''invalid signature for deleteHeader'', s)
       else or_throw (from_v8_string (arg args 0)) s (\<lambda>header_name.
            checked env (DeleteHeader (c_str header_name)) ''failed to delete header'' s))"

definition response_getHeader :: "iis \<Rightarrow> http_function" where
  "response_getHeader env args s =
     with_response ''invalid p_http_response for getHeader'' s
      (if length args < 1 then (Throw ''invalid signature for getHeader'', s)
       else case Utf8Value env (arg args 0) of
         None \<Rightarrow> (Return RNull, s)
       | Some header_name \<Rightarrow>
           (case response_header env (calls s) (c_str header_name) of
              None \<Rightarrow> (Return RNull, s)
            | Some header_value \<Rightarrow> to_v8 env header_value s))"

definition response_setHeader :: "iis \<Rightarrow> http_function" where
  "response_setHeader env args s =
     with_response ''invalid p_http_response for setHeader'' s
      (if length args < 2 then (Throw ''invalid signature for setHeader'', s)
       else or_throw (from_v8_string (arg args 0)) s (\<lambda>header_name.
            or_throw (from_v8_string (arg args 1)) s (\<lambda>header_value.
            let should_replace = from_v8_default from_v8_bool (arg args 2) True
            in checked env
                 (SetHeader (c_str header_name) header_value (ushort (length header_value))
                    should_replace) ''failed to set header'' s)))"

subsection \<open>Reading the response body\<close>

text \<open>The two loops over the entity chunks: the total size of the memory chunks, then a copy of each
  into one buffer at a running offset.\<close>

fun total_size :: "entity_chunk list \<Rightarrow> nat" where
  "total_size [] = 0"
| "total_size (FromMemory b # cs) = length b + total_size cs"
| "total_size (FromOther # cs) = total_size cs"

definition memcpy_at :: "bytes \<Rightarrow> nat \<Rightarrow> bytes \<Rightarrow> bytes" where
  "memcpy_at buffer offset src = take offset buffer @ src @ drop (offset + length src) buffer"

fun copy_chunks :: "entity_chunk list \<Rightarrow> nat \<Rightarrow> bytes \<Rightarrow> bytes" where
  "copy_chunks [] offset buffer = buffer"
| "copy_chunks (FromOther # cs) offset buffer = copy_chunks cs offset buffer"
| "copy_chunks (FromMemory b # cs) offset buffer =
     (if length b = 0 then copy_chunks cs offset buffer
      else copy_chunks cs (offset + length b) (memcpy_at buffer offset b))"

text \<open>\<open>heap\<close> gives the indeterminate contents of \<^verbatim>\<open>new char[length]\<close>; an \<^verbatim>\<open>ArrayBuffer\<close> starts zeroed.\<close>

definition response_read :: "iis \<Rightarrow> (nat \<Rightarrow> char) \<Rightarrow> http_function" where
  "response_read env heap args s =
     with_response ''invalid p_http_response for read'' s
      (let chunks = entity_chunks env (calls s)
       in if length chunks = 0 then (Return RNull, s)
          else let size = total_size chunks
          in if size = 0 then (Return RNull, s)
             else if from_v8_default from_v8_bool (arg args 0) False
             then (Return (RUint8Array (copy_chunks chunks 0 (replicate size (CHR 0x00)))), s)
             else let external_string = copy_chunks chunks 0 (map heap [0..<size])
                  in if kMaxLength env < length external_string
                     then (Throw ''failed to obtain string'', s)
                     else (Return (ROneByte external_string), s))"

subsection \<open>Writing the response body\<close>

definition MAX_BYTES :: u32 where "MAX_BYTES = 65535"

definition pmax :: "u32 \<Rightarrow> u32 \<Rightarrow> u32" where "pmax a b = (if a > b then a else b)"
definition pmin :: "u32 \<Rightarrow> u32 \<Rightarrow> u32" where "pmin a b = (if a < b then a else b)"

text \<open>The size of the next chunk, computed before the loop and at the end of each round.\<close>

definition bytes_to_write :: "u32 \<Rightarrow> u32 \<Rightarrow> u32" where
  "bytes_to_write buffer_size buffer_offset = pmin (pmax (buffer_size - buffer_offset) 0) MAX_BYTES"

lemma word_left_pos: "0 < (a :: u32) - b \<longleftrightarrow> a \<noteq> b"
  by (simp add: word_greater_zero_iff)

lemma bytes_to_write_eq: "bytes_to_write sz off = min (sz - off) MAX_BYTES"
proof -
  have "pmax x 0 = x" for x by (auto simp: pmax_def word_greater_zero_iff)
  then show ?thesis by (auto simp: bytes_to_write_def pmin_def min_def)
qed

lemma bytes_left_after:
  "unat (sz - (off + bytes_to_write sz off))
     = unat (sz - off) - unat (bytes_to_write sz off)"
proof -
  have "bytes_to_write sz off \<le> sz - off" by (simp add: bytes_to_write_eq)
  then have "unat ((sz - off) - bytes_to_write sz off)
      = unat (sz - off) - unat (bytes_to_write sz off)"
    by (rule unat_sub)
  then show ?thesis by (simp add: algebra_simps)
qed

lemma bytes_to_write_pos: "sz \<noteq> off \<Longrightarrow> 0 < unat (bytes_to_write sz off)"
  by (auto simp: bytes_to_write_eq min_def MAX_BYTES_def unat_gt_0)

text \<open>The \<^verbatim>\<open>do ... while (has_more_data)\<close> loop. The flag passed to the server is the value
  \<^verbatim>\<open>has_more_data\<close> has when the round starts.\<close>

function write_loop :: "iis \<Rightarrow> bytes \<Rightarrow> u32 \<Rightarrow> u32 \<Rightarrow> bool \<Rightarrow> http \<Rightarrow> (js_return, http) result" where
  "write_loop env buffer buffer_size buffer_offset has_more_data s =
     (let n = bytes_to_write buffer_size buffer_offset;
          cb = (ucast n :: 16 word);
          data = take (unat cb) (drop (unat buffer_offset) buffer);
          s' = call (WriteEntityChunk data cb has_more_data) s
      in if failed env (calls s') then (Throw ''failed to write'', s')
         else let offset' = buffer_offset + n
              in if buffer_size - offset' > 0
                 then write_loop env buffer buffer_size offset' True s'
                 else (Return RUndefined, s'))"
  by pat_completeness auto
termination
proof (relation "measure (\<lambda>(env, buffer, sz, off, more, s). unat (sz - off))", goal_cases)
  case (2 env buffer sz off more s n cb data s' off')
  then have "sz \<noteq> off"
    by (auto simp: word_left_pos bytes_to_write_eq MAX_BYTES_def)
  moreover from this have "0 < unat (sz - off)" by (simp add: unat_gt_0)
  ultimately show ?case
    using 2 bytes_to_write_pos [of sz off] by (simp add: bytes_left_after)
qed simp

declare write_loop.simps [simp del]

definition write_body :: "iis \<Rightarrow> bytes \<Rightarrow> js_args \<Rightarrow> http \<Rightarrow> (js_return, http) result" where
  "write_body env buffer args s =
     (let size = unsigned_long (length buffer);
          first = bytes_to_write size 0
      in chain
           (if length args \<ge> 2 \<and> IsString (arg args 1)
            then (case Utf8Value env (arg args 1) of
                    None \<Rightarrow> (Throw ''second argument is invalid for write'', s)
                  | Some mime_type \<Rightarrow>
                      (Return RUndefined,
                       call (SetHeaderById HttpHeaderContentType mime_type
                               (ushort (length mime_type)) True) s))
            else (Return RUndefined,
                  call (SetHeaderById HttpHeaderContentType ''text/html''
                          (ushort (length ''text/html'')) True) s))
           (\<lambda>_ s1. chain
              (if length args \<ge> 3 \<and> IsString (arg args 2)
               then (case Utf8Value env (arg args 2) of
                       None \<Rightarrow> (Throw ''third argument is invalid for write'', s1)
                     | Some content_encoding \<Rightarrow>
                         (Return RUndefined,
                          call (SetHeaderById HttpHeaderContentEncoding content_encoding
                                  (ushort (length content_encoding)) True) s1))
               else (Return RUndefined, s1))
              (\<lambda>_ s2. write_loop env buffer size 0 (size - first > 0) s2)))"

definition response_write :: "iis \<Rightarrow> nat \<Rightarrow> http_function" where
  "response_write env slot args s =
     with_response ''invalid p_http_response for write'' s
      (if length args < 1 then (Throw ''invalid signature for write'', s)
       else case Utf8ValueScoped slot (arg args 0) of
         Held string \<Rightarrow> write_body env string args s
       | Dangling \<Rightarrow> (Crash, s)
       | NullSlot \<Rightarrow>
           (case ArrayBufferScoped (arg args 0) of
              Some buffer \<Rightarrow> write_body env buffer args s
            | None \<Rightarrow> (Throw ''invalid first argument type for write'', s)))"

subsection \<open>The module\<close>

definition response_module ::
    "iis \<Rightarrow> nat \<Rightarrow> (nat \<Rightarrow> char) \<Rightarrow> (string \<times> nat \<times> http_function) list" where
  "response_module env slot heap =
    [(''clear'', 0, response_clear),
     (''clearHeaders'', 0, response_clearHeaders),
     (''closeConnection'', 0, response_closeConnection),
     (''disableBuffering'', 0, response_disableBuffering),
     (''setNeedDisconnect'', 0, response_setNeedDisconnect),
     (''getKernelCacheEnabled'', 0, response_getKernelCacheEnabled env),
     (''resetConnection'', 0, response_resetConnection),
     (''getStatus'', 0, response_getStatus env),
     (''setStatus'', 2, response_setStatus env),
     (''redirect'', 3, response_redirect env),
     (''setErrorDescription'', 2, response_setErrorDescription env),
     (''disableKernelCache'', 1, response_disableKernelCache env),
     (''deleteHeader'', 1, response_deleteHeader env),
     (''getHeader'', 1, response_getHeader env),
     (''read'', 0, response_read env heap),
     (''write'', 1, response_write env slot),
     (''setHeader'', 2, response_setHeader env)]"

section \<open>Contracts\<close>

lemma write_loop_extends: "extends s (snd (write_loop env buffer sz off flag s))"
proof (induction env buffer sz off flag s rule: write_loop.induct)
  case (1 env buffer sz off flag s)
  show ?case
    using 1 [OF refl refl refl refl _ refl]
    by (subst write_loop.simps) (auto simp: Let_def intro: extends_trans [OF extends_call])
qed

lemma write_body_extends: "extends s (snd (write_body env buffer args s))"
  unfolding write_body_def Let_def
  by (intro extends_chain)
     (auto split: option.splits intro: extends_call_trans extends_trans [OF _ write_loop_extends])

interpretation r_clear: http_callback response_clear has_response 0
  by (rule response_callback0I [OF response_clear_def]) simp

interpretation r_clearHeaders: http_callback response_clearHeaders has_response 0
  by (rule response_callback0I [OF response_clearHeaders_def]) simp

interpretation r_closeConnection: http_callback response_closeConnection has_response 0
  by (rule response_callback0I [OF response_closeConnection_def]) simp

interpretation r_disableBuffering: http_callback response_disableBuffering has_response 0
  by (rule response_callback0I [OF response_disableBuffering_def]) simp

interpretation r_setNeedDisconnect: http_callback response_setNeedDisconnect has_response 0
  by (rule response_callback0I [OF response_setNeedDisconnect_def]) simp

interpretation r_getKernelCacheEnabled:
  http_callback "response_getKernelCacheEnabled env" has_response 0 for env
  by (rule response_callback0I [OF response_getKernelCacheEnabled_def]) simp

interpretation r_resetConnection: http_callback response_resetConnection has_response 0
  by (rule response_callback0I [OF response_resetConnection_def]) simp

interpretation r_getStatus: http_callback "response_getStatus env" has_response 0 for env
  by (rule response_callback0I [OF response_getStatus_def]) simp

interpretation r_setStatus: http_callback "response_setStatus env" has_response 2 for env
  by (rule response_callbackI [OF response_setStatus_def]) (intro extends_intros extends_refl)

interpretation r_redirect: http_callback "response_redirect env" has_response 3 for env
  by (rule response_callbackI [OF response_redirect_def]) (intro extends_intros extends_refl)

interpretation r_setErrorDescription:
  http_callback "response_setErrorDescription env" has_response 2 for env
  by (rule response_callbackI [OF response_setErrorDescription_def])
    (intro extends_intros extends_refl)

interpretation r_disableKernelCache:
  http_callback "response_disableKernelCache env" has_response 1 for env
  by (rule response_callbackI [OF response_disableKernelCache_def])
    (simp add: or_throw_def split: sum.split)

interpretation r_deleteHeader: http_callback "response_deleteHeader env" has_response 1 for env
  by (rule response_callbackI [OF response_deleteHeader_def]) (intro extends_intros extends_refl)

interpretation r_getHeader: http_callback "response_getHeader env" has_response 1 for env
  by (rule response_callbackI [OF response_getHeader_def])
    (auto split: option.split intro: extends_intros)

interpretation r_setHeader: http_callback "response_setHeader env" has_response 2 for env
  by (rule response_callbackI [OF response_setHeader_def [unfolded Let_def]])
    (intro extends_intros extends_refl)

interpretation r_read: http_callback "response_read env heap" has_response 0 for env heap
  by (rule response_callback0I [OF response_read_def]) (simp add: Let_def)

interpretation r_write: http_callback "response_write env slot" has_response 1 for env slot
  by (rule response_callbackI [OF response_write_def])
    (auto split: scoped_utf8.split option.split intro: write_body_extends)

lemmas response_contracts =
  r_clear.http_callback_axioms r_clearHeaders.http_callback_axioms
  r_closeConnection.http_callback_axioms r_disableBuffering.http_callback_axioms
  r_setNeedDisconnect.http_callback_axioms r_getKernelCacheEnabled.http_callback_axioms
  r_resetConnection.http_callback_axioms r_getStatus.http_callback_axioms
  r_setStatus.http_callback_axioms r_redirect.http_callback_axioms
  r_setErrorDescription.http_callback_axioms r_disableKernelCache.http_callback_axioms
  r_deleteHeader.http_callback_axioms r_getHeader.http_callback_axioms
  r_read.http_callback_axioms r_write.http_callback_axioms r_setHeader.http_callback_axioms

lemma response_module_contract:
  "list_all (\<lambda>(name, n, f). http_callback f has_response n) (response_module env slot heap)"
  by (simp add: response_module_def response_contracts del: One_nat_def)

section \<open>Specification of writing and reading\<close>

text \<open>A body cut into pieces of at most \<open>n\<close> bytes; the empty body gives one empty piece.\<close>

function pieces :: "nat \<Rightarrow> 'a list \<Rightarrow> 'a list list" where
  "pieces n xs = (if n = 0 \<or> length xs \<le> n then [xs] else take n xs # pieces n (drop n xs))"
  by pat_completeness auto
termination by (relation "measure (\<lambda>(n, xs). length xs)") auto

declare pieces.simps [simp del]

lemma concat_pieces: "concat (pieces n xs) = xs"
proof (induction n xs rule: pieces.induct)
  case (1 n xs)
  then show ?case by (subst pieces.simps) (simp add: append_take_drop_id)
qed

lemma pieces_bounded: "0 < n \<Longrightarrow> list_all (\<lambda>d. length d \<le> n) (pieces n xs)"
proof (induction n xs rule: pieces.induct)
  case (1 n xs)
  then show ?case by (subst pieces.simps) simp
qed

text \<open>Sending a list of calls to the server up to the first failure.\<close>

primrec send_all :: "iis \<Rightarrow> http_call list \<Rightarrow> http \<Rightarrow> (js_return, http) result" where
  "send_all env [] s = (Return RUndefined, s)"
| "send_all env (c # cs) s =
     (if failed env (calls (call c s)) then (Throw ''failed to write'', call c s)
      else send_all env cs (call c s))"

definition chunk_call :: "bool \<Rightarrow> bytes \<Rightarrow> http_call" where
  "chunk_call more_data d = WriteEntityChunk d (ushort (length d)) more_data"

text \<open>The bytes a response has received, in order.\<close>

fun sent :: "history \<Rightarrow> bytes" where
  "sent [] = []"
| "sent (WriteEntityChunk d _ _ # h) = d @ sent h"
| "sent (_ # h) = sent h"

lemma sent_append: "sent (h @ h') = sent h @ sent h'"
  by (induction h rule: sent.induct) auto

lemma sent_chunks: "sent (map (chunk_call b) ds) = concat ds"
  by (induction ds) (simp_all add: chunk_call_def)

lemma send_all_accepted:
  assumes "\<And>h. \<not> failed env h"
  shows "send_all env cs s = (Return RUndefined, s\<lparr>calls := calls s @ cs\<rparr>)"
  using assms by (induction cs arbitrary: s) (simp_all add: call_def)

text \<open>The loop, from any offset, sends the pieces of what is left.\<close>

lemma chunk_word:
  assumes "unat off \<le> length buffer" and "unat sz = length buffer"
  shows "unat (bytes_to_write sz off) = min (length buffer - unat off) 65535"
    and "unat (ucast (bytes_to_write sz off) :: 16 word) = unat (bytes_to_write sz off)"
proof -
  have le: "off \<le> sz" using assms by (simp add: word_le_nat_alt)
  have sub: "unat (sz - off) = length buffer - unat off"
    using unat_sub [OF le] assms by simp
  then show n: "unat (bytes_to_write sz off) = min (length buffer - unat off) 65535"
    by (simp add: bytes_to_write_eq min_def MAX_BYTES_def word_le_nat_alt)
  then have "unat (bytes_to_write sz off) < 2 ^ 16" by simp
  then show "unat (ucast (bytes_to_write sz off) :: 16 word) = unat (bytes_to_write sz off)"
    by (simp add: unsigned_ucast_eq take_bit_nat_eq_self)
qed

lemma chunk_word_ushort:
  assumes "unat off \<le> length buffer" and "unat sz = length buffer"
  shows "(ucast (bytes_to_write sz off) :: 16 word) = ushort (min (length buffer - unat off) 65535)"
  by (rule word_unat_eq_iff [THEN iffD2]) (simp add: chunk_word [OF assms] unat_ushort)

definition loop_calls :: "bool \<Rightarrow> bytes \<Rightarrow> http_call list" where
  "loop_calls flag rest =
     chunk_call flag (take 65535 rest) #
     (if length rest \<le> 65535 then [] else map (chunk_call True) (pieces 65535 (drop 65535 rest)))"

lemma loop_calls_pieces:
  assumes "65535 < length rest \<longrightarrow> flag"
  shows "loop_calls flag rest = map (chunk_call flag) (pieces 65535 rest)"
  using assms by (subst pieces.simps) (auto simp: loop_calls_def)

lemma write_loop_sends:
  assumes "unat off \<le> length buffer" and "unat sz = length buffer"
  shows "write_loop env buffer sz off flag s = send_all env (loop_calls flag (drop (unat off) buffer)) s"
  using assms
proof (induction env buffer sz off flag s rule: write_loop.induct)
  case (1 env buffer sz off flag s)
  let ?n = "bytes_to_write sz off"
  let ?rest = "drop (unat off) buffer"
  note n = chunk_word [OF 1(2,3)]
  have call: "WriteEntityChunk (take (unat (ucast ?n :: 16 word)) ?rest) (ucast ?n) flag
      = chunk_call flag (take 65535 ?rest)"
    by (simp only: chunk_call_def chunk_word_ushort [OF 1(2,3)]) (simp add: min_def unat_ushort)
  have off': "unat (off + ?n) = unat off + unat ?n"
  proof (rule unat_add_lem [THEN iffD1])
    have "unat off + unat ?n \<le> unat sz" using 1(2,3) n(1) by simp
    also have "unat sz < 2 ^ LENGTH(32)" by (rule unsigned_less)
    finally show "unat off + unat ?n < 2 ^ LENGTH(32)" .
  qed
  have left: "0 < sz - (off + ?n) \<longleftrightarrow> 65535 < length ?rest"
    using 1(2,3) off' n(1) by (auto simp: word_left_pos unat_eq_nat_uint [symmetric] word_unat_eq_iff)
  show ?case
  proof (cases "failed env (calls (call (chunk_call flag (take 65535 ?rest)) s))")
    case True
    then show ?thesis by (subst write_loop.simps) (simp add: Let_def call loop_calls_def)
  next
    case ok: False
    show ?thesis
    proof (cases "65535 < length ?rest")
      case False
      with ok left show ?thesis by (subst write_loop.simps) (simp add: Let_def call loop_calls_def)
    next
      case True
      then have "unat ?n = 65535" using n(1) by simp
      then have drop: "drop (unat (off + ?n)) buffer = drop 65535 ?rest" by (simp add: off' add.commute)
      have "unat (off + ?n) \<le> length buffer" using True off' \<open>unat ?n = 65535\<close> by simp
      then have "write_loop env buffer sz (off + ?n) True (call (chunk_call flag (take 65535 ?rest)) s)
        = send_all env (loop_calls True (drop 65535 ?rest)) (call (chunk_call flag (take 65535 ?rest)) s)"
        using 1(1) [OF refl refl refl refl _ refl] ok left True 1(3) unfolding call drop by simp
      with ok True left show ?thesis
        by (subst write_loop.simps) (simp add: Let_def call loop_calls_def [of flag] loop_calls_pieces)
    qed
  qed
qed

text \<open>The body a first argument stands for, and the header calls made before the first chunk.\<close>

definition body_argument :: "nat \<Rightarrow> js_value \<Rightarrow> bytes option" where
  "body_argument slot v =
     (case v of
        Str t \<Rightarrow> Some (utf8 t)
      | Uint8Array w \<Rightarrow> if slot = 0 then Some (view_buffer w) else None
      | _ \<Rightarrow> None)"

fun content_type :: "js_args \<Rightarrow> bytes" where
  "content_type (_ # Str m # _) = utf8 m"
| "content_type _ = ''text/html''"

fun content_encoding :: "js_args \<Rightarrow> bytes option" where
  "content_encoding (_ # _ # Str e # _) = Some (utf8 e)"
| "content_encoding _ = None"

definition header_call :: "header_id \<Rightarrow> bytes \<Rightarrow> http_call" where
  "header_call i v = SetHeaderById i v (ushort (length v)) True"

definition header_calls :: "js_args \<Rightarrow> http_call list" where
  "header_calls args = header_call HttpHeaderContentType (content_type args) #
     (case content_encoding args of None \<Rightarrow> [] | Some e \<Rightarrow> [header_call HttpHeaderContentEncoding e])"

lemma sent_headers: "sent (header_calls args) = []"
  by (simp add: header_calls_def header_call_def split: option.split)

lemma content_type_eq:
  "content_type args = (if 2 \<le> length args \<and> IsString (arg args 1)
                        then (case arg args 1 of Str m \<Rightarrow> utf8 m) else ''text/html'')"
  by (cases args rule: content_type.cases) auto

lemma content_encoding_eq:
  "content_encoding args = (if 3 \<le> length args \<and> IsString (arg args 2)
                            then (case arg args 2 of Str e \<Rightarrow> Some (utf8 e)) else None)"
  by (cases args rule: content_encoding.cases) auto

lemma write_body_sends:
  assumes "length body < 2 ^ 32"
  shows "write_body env body args s =
     send_all env (map (chunk_call (65535 < length body)) (pieces 65535 body))
       (s\<lparr>calls := calls s @ header_calls args\<rparr>)"
proof -
  let ?sz = "unsigned_long (length body)"
  have sz: "unat ?sz = length body" using assms by (rule unat_unsigned_long)
  have n: "unat (bytes_to_write ?sz 0) = min (length body) 65535"
    using chunk_word(1) [of 0 body ?sz] sz by simp
  have flag: "?sz - bytes_to_write ?sz 0 > 0 \<longleftrightarrow> 65535 < length body"
    using n sz by (auto simp: word_left_pos word_unat_eq_iff)
  have loop: "write_loop env body ?sz 0 (?sz - bytes_to_write ?sz 0 > 0) t
      = send_all env (map (chunk_call (65535 < length body)) (pieces 65535 body)) t" for t
    unfolding flag using sz by (simp add: write_loop_sends loop_calls_pieces)
  show ?thesis
    unfolding write_body_def Let_def loop header_calls_def header_call_def
    by (simp add: content_type_eq content_encoding_eq Utf8Value_def IsString_iff call_def
        split: js_value.split)
qed

lemma response_write_sends:
  assumes "http_context s = Context q True" and "body_argument slot v = Some body"
    and "length body < 2 ^ 32"
  shows "response_write env slot (v # args) s =
     send_all env (map (chunk_call (65535 < length body)) (pieces 65535 body))
       (s\<lparr>calls := calls s @ header_calls (v # args)\<rparr>)"
  using assms
  by (auto simp: response_write_def with_response_def body_argument_def Utf8ValueScoped_def
      ArrayBufferScoped_def write_body_sends split: js_value.splits if_splits)

lemma response_write_delivers:
  assumes "http_context s = Context q True" and "body_argument slot v = Some body"
    and "length body < 2 ^ 32" and "\<And>h. \<not> failed env h"
  shows "\<exists>s'. response_write env slot (v # args) s = (Return RUndefined, s')
       \<and> sent (calls s') = sent (calls s) @ body \<and> set (header_calls (v # args)) \<subseteq> set (calls s')"
  using response_write_sends [OF assms(1-3), of env args]
  by (auto simp: send_all_accepted [OF assms(4)] sent_append sent_headers sent_chunks concat_pieces)

text \<open>The copy loop fills the buffer with the memory chunks, in order.\<close>

fun memory_bytes :: "entity_chunk list \<Rightarrow> bytes" where
  "memory_bytes [] = []"
| "memory_bytes (FromMemory b # cs) = b @ memory_bytes cs"
| "memory_bytes (FromOther # cs) = memory_bytes cs"

lemma total_size_eq: "total_size cs = length (memory_bytes cs)"
  by (induction cs rule: memory_bytes.induct) auto

lemma copy_chunks_eq:
  assumes "length buffer = off + length (memory_bytes cs)"
  shows "copy_chunks cs off buffer = take off buffer @ memory_bytes cs"
  using assms
proof (induction cs off buffer rule: copy_chunks.induct)
  case (3 b cs off buffer)
  have "length (memcpy_at buffer off b) = (off + length b) + length (memory_bytes cs)"
    using 3(3) by (simp add: memcpy_at_def)
  with 3 show ?case by (cases "b = []") (auto simp: memcpy_at_def)
qed auto

section \<open>Properties\<close>

text \<open>Writing refines a plain transfer of the body: the content type (default
  \<^verbatim>\<open>text/html\<close>) and the optional content encoding are set first, then the body is sent in pieces of
  at most 65535 bytes, stopping with an exception at the first chunk the server refuses.\<close>
theorem response_write_refines:
  assumes "http_context s = Context q True" and "body_argument slot v = Some body"
    and "length body < 2 ^ 32"
  shows "response_write env slot (v # args) s =
     send_all env (map (chunk_call (65535 < length body)) (pieces 65535 body))
       (s\<lparr>calls := calls s @ header_calls (v # args)\<rparr>)"
  using assms by (rule response_write_sends)


text \<open>A body of more than 65535 bytes never ends for the server: the flag \<^verbatim>\<open>fMoreData\<close> is taken from
  the previous round, so that even the last chunk is announced as being followed by more data. A
  body that fits one chunk is announced as complete.\<close>
theorem last_chunk_flag:
  assumes "http_context s = Context q True" and "body_argument slot v = Some body"
    and "length body < 2 ^ 32" and "\<And>h. \<not> failed env h"
  shows "\<exists>s' d. response_write env slot (v # args) s = (Return RUndefined, s')
       \<and> last (calls s') = WriteEntityChunk d (ushort (length d)) (65535 < length body)"
proof -
  have ne: "pieces 65535 body \<noteq> []" by (subst pieces.simps) simp
  note response_write_sends [OF assms(1-3), of env args]
  then have "\<exists>s'. response_write env slot (v # args) s = (Return RUndefined, s')
      \<and> last (calls s') = chunk_call (65535 < length body) (last (pieces 65535 body))"
    using ne by (simp add: send_all_accepted [OF assms(4)] last_map)
  then show ?thesis by (auto simp: chunk_call_def)
qed

text \<open>Reading the response returns the concatenation of its memory chunks, in order (file and
  other chunks are skipped): \<^verbatim>\<open>null\<close> when that is empty, a byte array on request, otherwise a one-byte
  string, or an exception when it is too long for V8. The buffer is filled without a gap or an
  overrun, whatever it held before.\<close>
theorem response_read_concatenates:
  "response_read env heap args \<lparr>http_context = Context q True, calls = h\<rparr> =
    (let body = memory_bytes (entity_chunks env h)
     in (if body = [] then Return RNull
         else if from_v8_default from_v8_bool (arg args 0) False then Return (RUint8Array body)
         else if kMaxLength env < length body then Throw ''failed to obtain string''
         else Return (ROneByte body),
         \<lparr>http_context = Context q True, calls = h\<rparr>))"
proof -
  have "memory_bytes (entity_chunks env h) = []" if "entity_chunks env h = []" using that by simp
  then show ?thesis
    by (auto simp: response_read_def with_response_def Let_def total_size_eq copy_chunks_eq)
qed

text \<open>No function of the response object reaches the server when the context or the response is
  missing or when arguments are missing: the script gets an exception and no call is made.\<close>
theorem response_calls_guarded:
  assumes "(name, n, f) \<in> set (response_module env slot heap)"
    and "\<not> has_response (http_context s) \<or> length args < n" and "http_context s \<noteq> Freed"
  shows "\<exists>e. forward_function f args s = (JS_Exception e, s)"
proof -
  from assms(1) response_module_contract [of env slot heap] have "http_callback f has_response n"
    by (auto simp: list_all_iff)
  then show ?thesis using assms(2,3) by (rule http_callback.rejected_makes_no_call)
qed

section \<open>Witnesses\<close>

definition quiet_iis :: iis where
  "quiet_iis = \<lparr>failed = (\<lambda>_. False), status_code = (\<lambda>_. 200), kernel_cache_enabled = (\<lambda>_. False),
     response_header = (\<lambda>_ _. None), entity_chunks = (\<lambda>_. []), remaining_bytes = (\<lambda>_. 0),
     entity_body = (\<lambda>_. []), request_memory = (\<lambda>_. True), request_header = (\<lambda>_ _. None),
     http_method = (\<lambda>_. ''GET''),
     cooked = (\<lambda>_. \<lparr>url_text = [], FullUrlLength = 0, pHost = 0, HostLength = 0, pAbsPath = 0,
                    AbsPathLength = 0, pQueryString = 0, QueryStringLength = 0\<rparr>),
     local_address = (\<lambda>_. None), remote_address = (\<lambda>_. None), InetNtop = (\<lambda>_. []),
     ToString = (\<lambda>_. None), kMaxLength = 1000\<rparr>"

definition hello :: js_value where
  "hello = Str \<lparr>utf8 = ''hello'', two_byte = []\<rparr>"

definition fresh_http :: http where
  "fresh_http = \<lparr>http_context = Context True True, calls = []\<rparr>"

lemma hello_facts:
  "http_context fresh_http = Context True True" "body_argument 0 hello = Some ''hello''"
  "length ''hello'' < 2 ^ 32" "\<not> failed quiet_iis h"
  by (simp_all add: fresh_http_def hello_def body_argument_def quiet_iis_def)

theorem response_write_refines_witness:
  "response_write quiet_iis 0 [hello] fresh_http =
     send_all quiet_iis (map (chunk_call False) (pieces 65535 ''hello''))
       (fresh_http\<lparr>calls := header_calls [hello]\<rparr>)"
  using response_write_refines [OF hello_facts(1,2,3), of quiet_iis "[]"] by (simp add: fresh_http_def)


theorem last_chunk_flag_witness:
  "\<exists>s' d. response_write quiet_iis 0
         [Uint8Array \<lparr>view_buffer = replicate 65536 (CHR 0x00), view_offset = 0, view_length = 65536\<rparr>] fresh_http
       = (Return RUndefined, s')
     \<and> last (calls s') = WriteEntityChunk d (ushort (length d)) True"
proof -
  let ?v = "Uint8Array \<lparr>view_buffer = replicate 65536 (CHR 0x00), view_offset = 0, view_length = 65536\<rparr>"
  have "body_argument 0 ?v = Some (replicate 65536 (CHR 0x00))"
    "length (replicate 65536 (CHR 0x00)) < 2 ^ 32"
    by (simp_all add: body_argument_def)
  from last_chunk_flag [OF hello_facts(1) this hello_facts(4), of "[]"]
  show ?thesis by (simp only: length_replicate) simp
qed

theorem response_calls_guarded_witness:
  "\<exists>e. forward_function (response_write quiet_iis 0) [] fresh_http = (JS_Exception e, fresh_http)"
  by (rule response_calls_guarded [of "''write''" 1 _ quiet_iis 0 "\<lambda>_. CHR 0x00"])
     (simp_all add: response_module_def fresh_http_def)

end
