(* ===== verification/Http_Request.thy ===== *)
theory Http_Request
  imports Http_Context
begin

text \<open>
  The request object scripts see (\<^verbatim>\<open>initialize_objects\<close>, "HttpRequest JS Object") and
  \<^verbatim>\<open>sock_to_ip\<close>: every function of the module as one definition, and the module as a table. The
  properties show that \<^verbatim>\<open>read\<close> terminates and returns the whole entity body, that
  \<^verbatim>\<open>read(true)\<close> leaves the body readable again, and that the URL getters agree with each other.
\<close>

section \<open>Reading the entity body\<close>

definition BUFFER_SIZE :: nat where "BUFFER_SIZE = 4096"

text \<open>The \<^verbatim>\<open>while (remaining_bytes != 0)\<close> loop. Whether it ends depends on the server, so the loop is a
  partial function: \<open>None\<close> is a loop that never ends.\<close>

partial_function (option) read_loop :: "iis \<Rightarrow> bytes \<Rightarrow> http \<Rightarrow> (bytes, http) result option" where
  "read_loop env bytes s =
     (if remaining_bytes env (calls s) = 0 then Some (Return bytes, s)
      else
        let s' = call (ReadEntityBody BUFFER_SIZE) s;
            buffer = entity_body env (calls s')
        in if length buffer = 0 \<or> failed env (calls s')
           then Some (Throw ''failed to read entity body'', s')
           else read_loop env (bytes @ buffer) s')"

definition rewrite_body :: "iis \<Rightarrow> bytes \<Rightarrow> js_return \<Rightarrow> http \<Rightarrow> (js_return, http) result" where
  "rewrite_body env bytes string_object s =
     (let s1 = call (AllocateRequestMemory (word_of_nat (length bytes))) s
      in if \<not> request_memory env (calls s1)
         then (Throw ''invalid allocation pointer for read.'', s1)
         else let s2 = call (InsertEntityBody bytes) s1
              in if failed env (calls s2) then (Throw ''failed to rewrite'', s2)
                 else (Return string_object, s2))"

definition request_read :: "iis \<Rightarrow> js_args \<Rightarrow> http \<Rightarrow> (js_return, http) result option" where
  "request_read env args s =
     (if http_context s = Freed then Some (Crash, s)
      else if \<not> has_request (http_context s) then Some (Throw ''invalid p_http_request for read'', s)
      else if remaining_bytes env (calls s) = 0 then Some (Return RNull, s)
      else map_option (\<lambda>r.
         chain r (\<lambda>bytes s1.
         chain (to_v8 env bytes s1) (\<lambda>string_object s2.
         if length args \<ge> 1
         then or_throw (from_v8_bool (arg args 0)) s2 (\<lambda>rewrite.
                if rewrite then rewrite_body env bytes string_object s2
                else (Return string_object, s2))
         else (Return string_object, s2))))
        (read_loop env [] s))"

section \<open>The other functions\<close>

definition request_setUrl :: "iis \<Rightarrow> http_function" where
  "request_setUrl env args s =
     with_request ''invalid p_http_request for setUrl'' s
      (if length args < 1 then (Throw ''invalid signature for setUrl'', s)
       else if \<not> IsString (arg args 0) then (Throw ''first parameter must be a string.'', s)
       else or_throw (from_v8_string (arg args 0)) s (\<lambda>url.
            let resetQueryString = from_v8_default from_v8_bool (arg args 1) True
            in checked env (SetUrl url (word_of_nat (length url)) resetQueryString)
                 ''failed to set url'' s))"

definition request_deleteHeader :: "iis \<Rightarrow> http_function" where
  "request_deleteHeader env args s =
     with_request ''invalid p_http_request for deleteHeader'' s
      (if length args < 1 then (Throw ''invalid signature for deleteHeader'', s)
       else or_throw (from_v8_string (arg args 0)) s (\<lambda>header_name.
            checked env (RequestDeleteHeader (c_str header_name)) ''failed to delete header'' s))"

definition request_setHeader :: "iis \<Rightarrow> http_function" where
  "request_setHeader env args s =
     with_request ''invalid p_http_request for setHeader'' s
      (if length args < 2 then (Throw ''invalid signature for setHeader'', s)
       else or_throw (from_v8_string (arg args 0)) s (\<lambda>header_name.
            or_throw (from_v8_string (arg args 1)) s (\<lambda>header_value.
            let should_replace = from_v8_default from_v8_bool (arg args 2) True
            in checked env
                 (RequestSetHeader (c_str header_name) header_value (ushort (length header_value))
                    should_replace) ''failed to set header'' s)))"

definition request_getMethod :: "iis \<Rightarrow> http_function" where
  "request_getMethod env args s =
     with_request ''invalid p_http_request for getMethod'' s
       (to_v8 env (c_str (http_method env (calls s))) s)"

text \<open>\<^verbatim>\<open>url_span url p n\<close> reads \<open>n\<close> bytes of the URL buffer from wide character \<open>p\<close> on.\<close>

definition url_span :: "cooked_url \<Rightarrow> nat \<Rightarrow> nat \<Rightarrow> js_return" where
  "url_span url p n = RTwoByte (take (n div 2) (drop p (url_text url)))"

definition request_getAbsPath :: "iis \<Rightarrow> http_function" where
  "request_getAbsPath env args s =
     with_request ''invalid p_http_request for getMethod'' s
       (let url = cooked env (calls s)
        in (Return (url_span url (pAbsPath url) (unat (AbsPathLength url))), s))"

definition request_getFullUrl :: "iis \<Rightarrow> http_function" where
  "request_getFullUrl env args s =
     with_request ''invalid p_http_request for getFullUrl'' s
       (let url = cooked env (calls s)
        in (Return (url_span url 0 (unat (FullUrlLength url))), s))"

definition request_getQueryString :: "iis \<Rightarrow> http_function" where
  "request_getQueryString env args s =
     with_request ''invalid p_http_request for getQueryString'' s
       (let url = cooked env (calls s)
        in (Return (url_span url (pQueryString url) (unat (QueryStringLength url))), s))"

text \<open>The two \<^verbatim>\<open>USHORT\<close> lengths are promoted to \<^verbatim>\<open>int\<close> before they are added.\<close>

definition request_getPath :: "iis \<Rightarrow> http_function" where
  "request_getPath env args s =
     with_request ''invalid p_http_request for getQueryString'' s
       (let url = cooked env (calls s)
        in (Return (url_span url (pAbsPath url)
                      (unat (AbsPathLength url) + unat (QueryStringLength url))), s))"

definition request_getHost :: "iis \<Rightarrow> http_function" where
  "request_getHost env args s =
     with_request ''invalid p_http_request for getHost'' s
       (let url = cooked env (calls s)
        in (Return (url_span url (pHost url) (unat (HostLength url))), s))"

text \<open>\<^verbatim>\<open>sock_to_ip\<close> raises its errors as JavaScript exceptions and returns an empty string; the pending
  exception takes precedence over the returned value, so the failure is the exception. A failed
  \<^verbatim>\<open>InetNtopA\<close> leaves the zeroed buffer, that is an empty string.\<close>

definition sock_to_ip :: "iis \<Rightarrow> sockaddr option \<Rightarrow> string + bytes" where
  "sock_to_ip env address =
     (case address of
        None \<Rightarrow> Inl ''invalid address for sock_to_ip''
      | Some (AF_INET a) \<Rightarrow> Inr (c_str (InetNtop env (AF_INET a)))
      | Some (AF_INET6 a) \<Rightarrow> Inr (c_str (InetNtop env (AF_INET6 a)))
      | Some (AF_OTHER _) \<Rightarrow> Inl ''invalid family for sock_to_ip'')"

definition request_getLocalAddress :: "iis \<Rightarrow> http_function" where
  "request_getLocalAddress env args s =
     with_request ''invalid p_http_request for getLocalAddress'' s
       (or_throw (sock_to_ip env (local_address env (calls s))) s (\<lambda>ip. to_v8 env ip s))"

definition request_getRemoteAddress :: "iis \<Rightarrow> http_function" where
  "request_getRemoteAddress env args s =
     with_request ''invalid p_http_request for getRemoteAddress'' s
       (or_throw (sock_to_ip env (remote_address env (calls s))) s (\<lambda>ip. to_v8 env ip s))"

definition request_getHeader :: "iis \<Rightarrow> http_function" where
  "request_getHeader env args s =
     with_request ''invalid p_http_request for getHeader'' s
      (if length args < 1 then (Throw ''invalid signature for getHeader'', s)
       else case Utf8Value env (arg args 0) of
         None \<Rightarrow> (Return RNull, s)
       | Some header_name \<Rightarrow>
           (case request_header env (calls s) (c_str header_name) of
              None \<Rightarrow> (Return RNull, s)
            | Some header_value \<Rightarrow> to_v8 env header_value s))"

text \<open>The module without \<^verbatim>\<open>read\<close>, which may fail to return.\<close>

definition request_module :: "iis \<Rightarrow> (string \<times> nat \<times> http_function) list" where
  "request_module env =
    [(''setUrl'', 1, request_setUrl env),
     (''deleteHeader'', 1, request_deleteHeader env),
     (''setHeader'', 2, request_setHeader env),
     (''getMethod'', 0, request_getMethod env),
     (''getAbsPath'', 0, request_getAbsPath env),
     (''getFullUrl'', 0, request_getFullUrl env),
     (''getQueryString'', 0, request_getQueryString env),
     (''getPath'', 0, request_getPath env),
     (''getHost'', 0, request_getHost env),
     (''getLocalAddress'', 0, request_getLocalAddress env),
     (''getRemoteAddress'', 0, request_getRemoteAddress env),
     (''getHeader'', 1, request_getHeader env)]"

section \<open>Contracts\<close>

interpretation q_setUrl: http_callback "request_setUrl env" has_request 1 for env
  by (rule request_callbackI [OF request_setUrl_def])
     (auto simp: Let_def intro: extends_intros)

interpretation q_deleteHeader: http_callback "request_deleteHeader env" has_request 1 for env
  by (rule request_callbackI [OF request_deleteHeader_def]) (intro extends_intros extends_refl)

interpretation q_setHeader: http_callback "request_setHeader env" has_request 2 for env
  by (rule request_callbackI [OF request_setHeader_def [unfolded Let_def]])
    (intro extends_intros extends_refl)

interpretation q_getMethod: http_callback "request_getMethod env" has_request 0 for env
  by (rule request_callback0I [OF request_getMethod_def]) (intro extends_intros extends_refl)

interpretation q_getAbsPath: http_callback "request_getAbsPath env" has_request 0 for env
  by (rule request_callback0I [OF request_getAbsPath_def]) (simp add: Let_def)

interpretation q_getFullUrl: http_callback "request_getFullUrl env" has_request 0 for env
  by (rule request_callback0I [OF request_getFullUrl_def]) (simp add: Let_def)

interpretation q_getQueryString: http_callback "request_getQueryString env" has_request 0 for env
  by (rule request_callback0I [OF request_getQueryString_def]) (simp add: Let_def)

interpretation q_getPath: http_callback "request_getPath env" has_request 0 for env
  by (rule request_callback0I [OF request_getPath_def]) (simp add: Let_def)

interpretation q_getHost: http_callback "request_getHost env" has_request 0 for env
  by (rule request_callback0I [OF request_getHost_def]) (simp add: Let_def)

interpretation q_getLocalAddress: http_callback "request_getLocalAddress env" has_request 0 for env
  by (rule request_callback0I [OF request_getLocalAddress_def]) (intro extends_intros extends_refl)

interpretation q_getRemoteAddress: http_callback "request_getRemoteAddress env" has_request 0 for env
  by (rule request_callback0I [OF request_getRemoteAddress_def]) (intro extends_intros extends_refl)

interpretation q_getHeader: http_callback "request_getHeader env" has_request 1 for env
  by (rule request_callbackI [OF request_getHeader_def])
    (auto split: option.split intro: extends_intros)

lemmas request_contracts =
  q_setUrl.http_callback_axioms q_deleteHeader.http_callback_axioms
  q_setHeader.http_callback_axioms q_getMethod.http_callback_axioms
  q_getAbsPath.http_callback_axioms q_getFullUrl.http_callback_axioms
  q_getQueryString.http_callback_axioms q_getPath.http_callback_axioms
  q_getHost.http_callback_axioms q_getLocalAddress.http_callback_axioms
  q_getRemoteAddress.http_callback_axioms q_getHeader.http_callback_axioms

lemma request_module_contract:
  "list_all (\<lambda>(name, n, f). http_callback f has_request n) (request_module env)"
  by (simp add: request_module_def request_contracts del: One_nat_def)

section \<open>Documented behaviour of the entity body\<close>

text \<open>
  \<open>rest h\<close> are the bytes of the body not read yet after the calls \<open>h\<close>. \<^verbatim>\<open>GetRemainingEntityBytes\<close> counts
  them; a successful \<^verbatim>\<open>ReadEntityBody\<close> delivers a non-empty part of at most the buffer's size from
  their front; once the body is used up, \<^verbatim>\<open>InsertEntityBody\<close> makes its buffer the body to read; allocation succeeds and leaves
  the body alone.
\<close>

definition entity_laws :: "iis \<Rightarrow> (history \<Rightarrow> bytes) \<Rightarrow> bool" where
  "entity_laws env rest \<longleftrightarrow>
     (\<forall>h. length (rest h) < 2 ^ 32 \<and> unat (remaining_bytes env h) = length (rest h))
     \<and> (\<forall>h. rest h \<noteq> [] \<longrightarrow>
          (let h' = h @ [ReadEntityBody BUFFER_SIZE]
           in \<not> failed env h' \<and> entity_body env h' \<noteq> [] \<and> length (entity_body env h') \<le> BUFFER_SIZE
              \<and> rest h = entity_body env h' @ rest h'))
     \<and> (\<forall>h n. request_memory env (h @ [AllocateRequestMemory n])
              \<and> rest (h @ [AllocateRequestMemory n]) = rest h)
     \<and> (\<forall>h b. rest h = [] \<longrightarrow> length b < 2 ^ 32 \<longrightarrow> \<not> failed env (h @ [InsertEntityBody b])
              \<and> rest (h @ [InsertEntityBody b]) = b)"

lemma remaining_zero_iff:
  assumes "entity_laws env rest"
  shows "remaining_bytes env h = 0 \<longleftrightarrow> rest h = []"
proof -
  from assms have "unat (remaining_bytes env h) = length (rest h)"
    unfolding entity_laws_def by blast
  then show ?thesis by (metis length_0_conv unat_eq_zero)
qed

lemma read_once:
  assumes "entity_laws env rest" and "rest h \<noteq> []"
  obtains b where "entity_body env (h @ [ReadEntityBody BUFFER_SIZE]) = b"
    "\<not> failed env (h @ [ReadEntityBody BUFFER_SIZE])" "b \<noteq> []"
    "rest h = b @ rest (h @ [ReadEntityBody BUFFER_SIZE])"
  using assms unfolding entity_laws_def Let_def by blast

lemma reinserted:
  assumes "entity_laws env rest" and "rest h = []" and "length b < 2 ^ 32"
  shows "request_memory env (h @ [AllocateRequestMemory n])"
    and "\<not> failed env (h @ [AllocateRequestMemory n, InsertEntityBody b])"
    and "rest (h @ [AllocateRequestMemory n, InsertEntityBody b]) = b"
proof -
  let ?h = "h @ [AllocateRequestMemory n]"
  from assms(1,2) show "request_memory env ?h" unfolding entity_laws_def by blast
  from assms(1,2) have "rest ?h = []" unfolding entity_laws_def by metis
  with assms(1,3) have "\<not> failed env (?h @ [InsertEntityBody b])" "rest (?h @ [InsertEntityBody b]) = b"
    unfolding entity_laws_def by blast+
  then show "\<not> failed env (h @ [AllocateRequestMemory n, InsertEntityBody b])"
    and "rest (h @ [AllocateRequestMemory n, InsertEntityBody b]) = b" by simp_all
qed

text \<open>The loop ends and collects everything that is left.\<close>

lemma read_loop_collects:
  assumes "entity_laws env rest"
  shows "\<exists>s'. read_loop env acc s = Some (Return (acc @ rest (calls s)), s')
     \<and> http_context s' = http_context s \<and> rest (calls s') = []"
proof (induction "length (rest (calls s))" arbitrary: acc s rule: less_induct)
  case less
  show ?case
  proof (cases "rest (calls s) = []")
    case True
    then show ?thesis by (subst read_loop.simps) (simp add: remaining_zero_iff [OF assms])
  next
    case False
    let ?s' = "call (ReadEntityBody BUFFER_SIZE) s"
    from read_once [OF assms False] obtain b where b:
      "entity_body env (calls ?s') = b" "\<not> failed env (calls ?s')" "b \<noteq> []"
      "rest (calls s) = b @ rest (calls ?s')" by auto
    from b have "length (rest (calls ?s')) < length (rest (calls s))" by simp
    from less [OF this, of "acc @ b"] obtain s' where
      "read_loop env (acc @ b) ?s' = Some (Return ((acc @ b) @ rest (calls ?s')), s')"
      "http_context s' = http_context s" "rest (calls s') = []" by auto
    moreover have "read_loop env acc s = read_loop env (acc @ b) ?s'"
      using False b(1,2,3) by (subst read_loop.simps) (simp add: Let_def remaining_zero_iff [OF assms])
    ultimately show ?thesis using b(4) by simp
  qed
qed

section \<open>Properties\<close>

text \<open>C20. \<^verbatim>\<open>read()\<close> terminates on every request the server can serve and returns the whole entity body,
  in order; the body is then consumed, so that a second \<^verbatim>\<open>read()\<close> gives \<^verbatim>\<open>null\<close>.\<close>
theorem request_read_whole_body:
  assumes "entity_laws env rest" and "http_context s = Context True r"
    and "rest (calls s) \<noteq> []" and "length (rest (calls s)) \<le> kMaxLength env"
  shows "\<exists>s'. request_read env [] s = Some (Return (RUtf8 (rest (calls s))), s')
            \<and> request_read env [] s' = Some (Return RNull, s')"
proof -
  from read_loop_collects [OF assms(1), of "[]" s] obtain s' where s':
    "read_loop env [] s = Some (Return (rest (calls s)), s')"
    "http_context s' = http_context s" "rest (calls s') = []" by auto
  with assms show ?thesis
    by (auto simp: request_read_def to_v8_def remaining_zero_iff [OF assms(1)])
qed

text \<open>\<^verbatim>\<open>read(true)\<close> puts the body back: it returns the same string as \<^verbatim>\<open>read()\<close>, and afterwards the
  unread bytes are again the whole body, so any number of further reads see it.\<close>
theorem request_read_rewrite_roundtrip:
  assumes "entity_laws env rest" and "http_context s = Context True r"
    and "rest (calls s) \<noteq> []" and "length (rest (calls s)) \<le> kMaxLength env"
  shows "\<exists>s'. request_read env [Boolean True] s = Some (Return (RUtf8 (rest (calls s))), s')
            \<and> http_context s' = http_context s \<and> rest (calls s') = rest (calls s)"
proof -
  from read_loop_collects [OF assms(1), of "[]" s] obtain t where t:
    "read_loop env [] s = Some (Return (rest (calls s)), t)"
    "http_context t = http_context s" "rest (calls t) = []" by auto
  have "length (rest (calls s)) < 2 ^ 32" using assms(1) by (simp add: entity_laws_def)
  with reinserted [OF assms(1) t(3)] t assms show ?thesis
    by (simp add: request_read_def to_v8_def rewrite_body_def Let_def remaining_zero_iff [OF assms(1)])
qed

text \<open>A first argument that is not a boolean makes \<^verbatim>\<open>read\<close> throw only after the body has been taken
  from the server, so the body is lost: the next \<^verbatim>\<open>read()\<close> gives \<^verbatim>\<open>null\<close>.\<close>
theorem request_read_bad_flag_loses_body:
  assumes "entity_laws env rest" and "http_context s = Context True r"
    and "rest (calls s) \<noteq> []" and "length (rest (calls s)) \<le> kMaxLength env"
    and "\<not> IsBoolean v"
  shows "\<exists>s'. request_read env [v] s = Some (Throw (invalid_argument v ''Boolean''), s')
            \<and> request_read env [] s' = Some (Return RNull, s')"
proof -
  from read_loop_collects [OF assms(1), of "[]" s] obtain s' where s':
    "read_loop env [] s = Some (Return (rest (calls s)), s')"
    "http_context s' = http_context s" "rest (calls s') = []" by auto
  moreover have "from_v8_bool v = Inl (invalid_argument v ''Boolean'')"
    using assms(5) by (cases v) (simp_all add: from_v8_bool_def)
  ultimately show ?thesis using assms
    by (auto simp: request_read_def to_v8_def remaining_zero_iff [OF assms(1)])
qed

text \<open>\<^verbatim>\<open>getPath\<close> is \<^verbatim>\<open>getAbsPath\<close> followed by \<^verbatim>\<open>getQueryString\<close>, given that the server lays the query
  string out right behind the path, with even byte counts that stay inside the URL.\<close>
theorem get_path_is_abs_path_and_query:
  assumes "url = cooked env h"
    and "even (unat (AbsPathLength url))" and "even (unat (QueryStringLength url))"
    and "pQueryString url = pAbsPath url + unat (AbsPathLength url) div 2"
    and "pQueryString url \<le> length (url_text url)"
  shows "\<exists>p q. request_getAbsPath env args \<lparr>http_context = Context True r, calls = h\<rparr>
             = (Return (RTwoByte p), \<lparr>http_context = Context True r, calls = h\<rparr>)
       \<and> request_getQueryString env args \<lparr>http_context = Context True r, calls = h\<rparr>
             = (Return (RTwoByte q), \<lparr>http_context = Context True r, calls = h\<rparr>)
       \<and> request_getPath env args \<lparr>http_context = Context True r, calls = h\<rparr>
             = (Return (RTwoByte (p @ q)), \<lparr>http_context = Context True r, calls = h\<rparr>)"
proof -
  have "(unat (AbsPathLength url) + unat (QueryStringLength url)) div 2
      = unat (AbsPathLength url) div 2 + unat (QueryStringLength url) div 2"
    using assms(2) by (rule div_plus_div_distrib_dvd_left)
  then show ?thesis using assms
    by (simp add: request_getAbsPath_def request_getQueryString_def request_getPath_def
        with_request_def url_span_def Let_def take_add add.commute)
qed

text \<open>No function of the request object reaches the server when the context or the request is
  missing or when arguments are missing: the script gets an exception and no call is made.\<close>
theorem request_calls_guarded:
  assumes "(name, n, f) \<in> set (request_module env)"
    and "\<not> has_request (http_context s) \<or> length args < n" and "http_context s \<noteq> Freed"
  shows "\<exists>e. forward_function f args s = (JS_Exception e, s)"
proof -
  from assms(1) request_module_contract [of env] have "http_callback f has_request n"
    by (auto simp: list_all_iff)
  then show ?thesis using assms(2,3) by (rule http_callback.rejected_makes_no_call)
qed

section \<open>Witnesses\<close>

text \<open>A server that holds a body and follows the calls.\<close>

fun serve1 :: "http_call \<Rightarrow> bytes \<Rightarrow> bytes" where
  "serve1 (ReadEntityBody n) r = drop n r"
| "serve1 (InsertEntityBody b) r = (if length b < 2 ^ 32 then b else r)"
| "serve1 _ r = r"

definition serve :: "history \<Rightarrow> bytes" where
  "serve h = fold serve1 h ''abc''"

definition sample_iis :: iis where
  "sample_iis = \<lparr>failed = (\<lambda>_. False), status_code = (\<lambda>_. 200), kernel_cache_enabled = (\<lambda>_. False),
     response_header = (\<lambda>_ _. None), entity_chunks = (\<lambda>_. []),
     remaining_bytes = (\<lambda>h. word_of_nat (length (serve h))),
     entity_body = (\<lambda>h. take BUFFER_SIZE (serve (butlast h))), request_memory = (\<lambda>_. True),
     request_header = (\<lambda>_ _. None), http_method = (\<lambda>_. ''GET''),
     cooked = (\<lambda>_. \<lparr>url_text = [47, 97, 63, 98], FullUrlLength = 8, pHost = 0, HostLength = 0,
                    pAbsPath = 0, AbsPathLength = 4, pQueryString = 2, QueryStringLength = 4\<rparr>),
     local_address = (\<lambda>_. None), remote_address = (\<lambda>_. None), InetNtop = (\<lambda>_. []),
     ToString = (\<lambda>_. None), kMaxLength = 1000\<rparr>"

definition sample_http :: http where
  "sample_http = \<lparr>http_context = Context True True, calls = []\<rparr>"

lemma serve1_short: "length r < 2 ^ 32 \<Longrightarrow> length (serve1 c r) < 2 ^ 32"
  by (cases c) auto

lemma serve_short: "length (serve h) < 2 ^ 32"
proof -
  have "length r < 2 ^ 32 \<Longrightarrow> length (fold serve1 h r) < 2 ^ 32" for r
    by (induction h arbitrary: r) (use serve1_short in auto)
  then show ?thesis by (simp add: serve_def)
qed

lemma sample_laws: "entity_laws sample_iis serve"
proof -
  have "unat (remaining_bytes sample_iis h) = length (serve h)" for h
    using unat_unsigned_long [OF serve_short [of h]] by (simp add: sample_iis_def unsigned_long_def)
  moreover have "serve (h @ [c]) = serve1 c (serve h)" for h c by (simp add: serve_def)
  ultimately show ?thesis
    unfolding entity_laws_def Let_def using serve_short
    by (simp add: sample_iis_def BUFFER_SIZE_def)
qed

lemma sample_ready:
  "http_context sample_http = Context True True" "serve (calls sample_http) \<noteq> []"
  "length (serve (calls sample_http)) \<le> kMaxLength sample_iis"
  by (simp_all add: sample_http_def serve_def sample_iis_def)

theorem request_read_whole_body_witness:
  "\<exists>s'. request_read sample_iis [] sample_http = Some (Return (RUtf8 ''abc''), s')
      \<and> request_read sample_iis [] s' = Some (Return RNull, s')"
  using request_read_whole_body [OF sample_laws sample_ready] by (simp add: sample_http_def serve_def)

theorem request_read_rewrite_roundtrip_witness:
  "\<exists>s'. request_read sample_iis [Boolean True] sample_http = Some (Return (RUtf8 ''abc''), s')
      \<and> serve (calls s') = ''abc''"
  using request_read_rewrite_roundtrip [OF sample_laws sample_ready]
  by (auto simp: sample_http_def serve_def)

theorem request_read_bad_flag_loses_body_witness:
  "\<exists>s'. request_read sample_iis [Null] sample_http = Some (Throw (invalid_argument Null ''Boolean''), s')
      \<and> request_read sample_iis [] s' = Some (Return RNull, s')"
  using request_read_bad_flag_loses_body [OF sample_laws sample_ready, of Null] by simp

theorem get_path_is_abs_path_and_query_witness:
  "\<exists>p q. request_getAbsPath sample_iis [] sample_http = (Return (RTwoByte p), sample_http)
       \<and> request_getQueryString sample_iis [] sample_http = (Return (RTwoByte q), sample_http)
       \<and> request_getPath sample_iis [] sample_http = (Return (RTwoByte (p @ q)), sample_http)"
  using get_path_is_abs_path_and_query [OF refl, of sample_iis "[]" "[]" True]
  by (simp add: sample_iis_def sample_http_def)

theorem request_calls_guarded_witness:
  "\<exists>e. forward_function (request_setUrl sample_iis) [] sample_http = (JS_Exception e, sample_http)"
  by (rule request_calls_guarded [of "''setUrl''" 1 _ sample_iis])
     (simp_all add: request_module_def sample_http_def)

end
