(* ===== verification/File_System.thy ===== *)
theory File_System
  imports Path_Resolve
begin

text \<open>
  The \<^verbatim>\<open>fs\<close> object of the scripts (\<^verbatim>\<open>create_shell_context\<close>): \<^verbatim>\<open>copy\<close>, \<^verbatim>\<open>exists\<close>, \<^verbatim>\<open>delete\<close>, \<^verbatim>\<open>write\<close> and
  \<^verbatim>\<open>read\<close>, on top of \<^verbatim>\<open>get_relative_file_path\<close> and its cache (\<^verbatim>\<open>fs.register\<close> is part of the engine). The
  state is the path cache and the history of calls made to Windows and to the C library; a
  \<open>file_api\<close> record answers them. The properties: only confined paths reach the system, apart from
  names with an embedded zero character; a written file reads back; and the handle that an invalid
  \<^verbatim>\<open>write\<close> leaves open.
\<close>

section \<open>State and system calls\<close>

datatype file_call =
    CopyFileW wstring wstring bool
  | PathFileExistsW wstring
  | DeleteFileW wstring
  | Fopen wstring string
  | Fwrite wstring bytes
  | Fread wstring nat
  | Fclose wstring

type_synonym file_history = "file_call list"

record file_api =
  succeeded :: "file_history \<Rightarrow> bool"    \<comment> \<open>result of the last call: true, or a file pointer\<close>
  file_size :: "file_history \<Rightarrow> nat"     \<comment> \<open>size of the file opened last\<close>
  file_data :: "file_history \<Rightarrow> bytes"   \<comment> \<open>bytes stored by the last \<^verbatim>\<open>fread\<close>\<close>
  max_string :: nat                       \<comment> \<open>\<^verbatim>\<open>v8::String::kMaxLength\<close>\<close>

record fs =
  cached_paths :: path_cache
  file_calls :: file_history

definition sys :: "file_call \<Rightarrow> fs \<Rightarrow> fs" where
  "sys c s = s\<lparr>file_calls := file_calls s @ [c]\<rparr>"

text \<open>\<^verbatim>\<open>path::c_str()\<close> as the system reads it: up to the first zero.\<close>

definition wc_str :: "wstring \<Rightarrow> wstring" where
  "wc_str p = takeWhile (\<lambda>c. c \<noteq> 0) p"

definition relative_path :: "wstring \<Rightarrow> wstring \<Rightarrow> fs \<Rightarrow> wstring \<times> fs" where
  "relative_path dir name s =
     (let (p, cache) = get_relative_file_path dir name (cached_paths s)
      in (wc_str p, s\<lparr>cached_paths := cache\<rparr>))"

section \<open>The functions\<close>

definition fs_copy :: "file_api \<Rightarrow> wstring \<Rightarrow> js_args \<Rightarrow> fs \<Rightarrow> (js_return, fs) result" where
  "fs_copy api dir args s =
     (if length args < 2 then (Throw ''invalid function signature for fs.copy'', s)
      else if \<not> IsString (arg args 0) \<or> \<not> IsString (arg args 1)
      then (Throw ''invalid first two parameters, must be both a string for fs.copy'', s)
      else or_throw (from_v8_wstring (arg args 0)) s (\<lambda>existing_file_name.
        let (existing_file_path, s1) = relative_path dir existing_file_name s
        in or_throw (from_v8_wstring (arg args 1)) s1 (\<lambda>new_file_name.
          let (new_file_path, s2) = relative_path dir new_file_name s1;
              overwrite = optional_flag args 2;
              s3 = sys (CopyFileW existing_file_path new_file_path (\<not> overwrite)) s2
          in (Return (RBoolean (succeeded api (file_calls s3))), s3))))"

definition fs_exists :: "file_api \<Rightarrow> wstring \<Rightarrow> js_args \<Rightarrow> fs \<Rightarrow> (js_return, fs) result" where
  "fs_exists api dir args s =
     (if length args < 1 then (Throw ''invalid function signature for fs.exists'', s)
      else if \<not> IsString (arg args 0)
      then (Throw ''invalid first parameter, must be a string for fs.exists'', s)
      else or_throw (from_v8_wstring (arg args 0)) s (\<lambda>file_name.
        let (file_path, s1) = relative_path dir file_name s;
            s2 = sys (PathFileExistsW file_path) s1
        in (Return (RBoolean (succeeded api (file_calls s2))), s2)))"

definition fs_delete :: "file_api \<Rightarrow> wstring \<Rightarrow> js_args \<Rightarrow> fs \<Rightarrow> (js_return, fs) result" where
  "fs_delete api dir args s =
     (if length args < 1 then (Throw ''invalid function signature for fs.delete'', s)
      else if \<not> IsString (arg args 0)
      then (Throw ''invalid first parameter, must be a string for fs.delete'', s)
      else or_throw (from_v8_wstring (arg args 0)) s (\<lambda>file_name.
        let (file_path, s1) = relative_path dir file_name s;
            s2 = sys (DeleteFileW file_path) s1
        in (Return (RBoolean (succeeded api (file_calls s2))), s2)))"

text \<open>\<^verbatim>\<open>fs.write\<close>: the file is opened before the type of the content is looked at.\<close>

definition fs_write :: "file_api \<Rightarrow> wstring \<Rightarrow> js_args \<Rightarrow> fs \<Rightarrow> (js_return, fs) result" where
  "fs_write api dir args s =
     (if length args < 2 then (Throw ''invalid function signature for fs.write'', s)
      else if \<not> IsString (arg args 0)
      then (Throw ''invalid first parameter, must be a string for fs.write'', s)
      else or_throw (from_v8_wstring (arg args 0)) s (\<lambda>file_name.
        let (file_path, s1) = relative_path dir file_name s;
            append = optional_flag args 2;
            s2 = sys (Fopen file_path (if append then ''ab'' else ''wb'')) s1
        in if \<not> succeeded api (file_calls s2) then (Throw ''unable to open file handle.'', s2)
           else case arg args 1 of
             Str t \<Rightarrow> (Return RUndefined, sys (Fclose file_path) (sys (Fwrite file_path (utf8 t)) s2))
           | Uint8Array w \<Rightarrow>
               (Return RUndefined, sys (Fclose file_path) (sys (Fwrite file_path (view_buffer w)) s2))
           | _ \<Rightarrow> (Throw ''invalid data type provided.'', s2)))"

text \<open>\<^verbatim>\<open>ftell\<close> returns a 32-bit \<^verbatim>\<open>long\<close>: from 2 GB on it fails with \<open>-1\<close>, which becomes the largest
  \<^verbatim>\<open>size_t\<close>. \<open>fread_into\<close> leaves the tail of the buffer as it was after a short read.\<close>

definition ftell_size :: "nat \<Rightarrow> nat" where
  "ftell_size n = (if n < 2 ^ 31 then n else 2 ^ 64 - 1)"

definition fread_into :: "bytes \<Rightarrow> bytes \<Rightarrow> bytes" where
  "fread_into buffer data =
     take (length buffer) data @ drop (length data) buffer"

definition fs_read ::
    "file_api \<Rightarrow> wstring \<Rightarrow> (nat \<Rightarrow> char) \<Rightarrow> js_args \<Rightarrow> fs \<Rightarrow> (js_return, fs) result" where
  "fs_read api dir heap args s =
     (if length args < 1 then (Throw ''invalid function signature for fs.read'', s)
      else if \<not> IsString (arg args 0)
      then (Throw ''invalid first parameter, must be a string for fs.read'', s)
      else or_throw (from_v8_wstring (arg args 0)) s (\<lambda>file_name.
        let (file_path, s1) = relative_path dir file_name s;
            s2 = sys (Fopen file_path ''rb'') s1
        in if \<not> succeeded api (file_calls s2) then (Throw ''unable to open file handle.'', s2)
           else let size = ftell_size (file_size api (file_calls s2));
                    as_array = optional_flag args 1
           in if size = 2 ^ 64 - 1
              then (if as_array then (Crash, s2) else (Throw ''bad array new length'', s2))
              else let s3 = sys (Fread file_path size) s2;
                       data = file_data api (file_calls s3)
              in if as_array
                 then (Return (RUint8Array (fread_into (replicate size (CHR 0x00)) data)),
                       sys (Fclose file_path) s3)
                 else if max_string api < size then (Crash, s3)
                 else (Return (ROneByte (fread_into (map heap [0..<size]) data)),
                       sys (Fclose file_path) s3)))"

section \<open>Lemmas\<close>

lemma sys_simps [simp]:
  "file_calls (sys c s) = file_calls s @ [c]"
  "cached_paths (sys c s) = cached_paths s"
  by (simp_all add: sys_def)

lemma relative_path_coherent:
  assumes "coherent (compute_path dir) (cached_paths s)"
  shows "fst (relative_path dir name s) = wc_str (compute_path dir name)"
    and "coherent (compute_path dir) (cached_paths (snd (relative_path dir name s)))"
    and "file_calls (snd (relative_path dir name s)) = file_calls s"
  using path_cache.look_coherent [OF assms, of name]
  by (auto simp: relative_path_def split: prod.split)

text \<open>The paths a call names.\<close>

fun call_paths :: "file_call \<Rightarrow> wstring list" where
  "call_paths (CopyFileW p q _) = [p, q]"
| "call_paths (PathFileExistsW p) = [p]"
| "call_paths (DeleteFileW p) = [p]"
| "call_paths (Fopen p _) = [p]"
| "call_paths (Fwrite p _) = [p]"
| "call_paths (Fread p _) = [p]"
| "call_paths (Fclose p) = [p]"

text \<open>Cleaning a name adds no characters but slashes.\<close>

lemma std_replace_all: "list_all P s \<Longrightarrow> list_all P r \<Longrightarrow> list_all P (std_replace s i n r)"
  by (auto simp: std_replace_def list_all_iff dest: in_set_takeD in_set_dropD)

lemma take_drop_all: "list_all P s \<Longrightarrow> list_all P (take n s)" "list_all P s \<Longrightarrow> list_all P (drop n s)"
  by (auto simp: list_all_iff dest: in_set_takeD in_set_dropD)

lemma drop_last_segment_all: "list_all P out \<Longrightarrow> list_all P (drop_last_segment out)"
  by (auto simp: drop_last_segment_def take_drop_all split: option.split)

lemma replace_backslashes_all:
  "P wslash \<Longrightarrow> list_all P s \<Longrightarrow> list_all P (replace_backslashes s)"
proof (induction s rule: replace_backslashes.induct)
  case (1 s)
  then show ?case
    by (subst replace_backslashes.simps) (simp add: std_replace_all split: option.split)
qed

lemma list_all_ifI:
  "(c \<Longrightarrow> list_all P a) \<Longrightarrow> (\<not> c \<Longrightarrow> list_all P b) \<Longrightarrow> list_all P (if c then a else b)"
  by simp

lemma remove_dot_segments_all:
  "P wslash \<Longrightarrow> list_all P inp \<Longrightarrow> list_all P out \<Longrightarrow> list_all P (remove_dot_segments inp out)"
proof (induction inp out rule: remove_dot_segments.induct)
  case (1 inp out)
  have facts: "list_all P (std_replace inp 0 n [])" "list_all P (std_replace inp 0 n [wslash])"
    "list_all P (drop_last_segment out)" "list_all P (drop n inp)" "list_all P (out @ take n inp)"
    "list_all P []" for n
    using 1 by (simp_all add: std_replace_all take_drop_all drop_last_segment_all)
  show ?case
    by (subst remove_dot_segments.simps)
       (intro list_all_ifI; (rule 1 facts; (assumption | rule 1 facts)?)+)
qed

lemma wc_str_id: "0 \<notin> set p \<Longrightarrow> wc_str p = p"
  by (induction p) (auto simp: wc_str_def)

lemma compute_path_nul_free:
  assumes "0 \<notin> set dir" and "0 \<notin> set name"
  shows "0 \<notin> set (compute_path dir name)"
proof -
  have "list_all (\<lambda>c. c \<noteq> 0) (remove_dot_segments (replace_backslashes name) [])"
    using assms(2) by (intro remove_dot_segments_all replace_backslashes_all) (auto simp: list_all_iff)
  with assms(1) show ?thesis by (auto simp: compute_path_def path_append_def list_all_iff)
qed

section \<open>The contract of the file functions\<close>

text \<open>A file function keeps the cache coherent and names only paths computed from its string
  arguments.\<close>

definition named_by :: "wstring \<Rightarrow> js_args \<Rightarrow> wstring \<Rightarrow> bool" where
  "named_by dir args p \<longleftrightarrow> (\<exists>t. Str t \<in> set args \<and> p = wc_str (compute_path dir (two_byte t)))"

type_synonym fs_function = "js_args \<Rightarrow> fs \<Rightarrow> (js_return, fs) result"

locale fs_callback =
  fixes dir :: wstring and f :: fs_function
  assumes cache_kept: "coherent (compute_path dir) (cached_paths s) \<Longrightarrow>
      coherent (compute_path dir) (cached_paths (snd (f args s)))"
    and names_arguments: "coherent (compute_path dir) (cached_paths s) \<Longrightarrow>
      \<exists>new. file_calls (snd (f args s)) = file_calls s @ new
          \<and> list_all (\<lambda>c. list_all (named_by dir args) (call_paths c)) new"
begin

lemma confined_calls:
  assumes "coherent (compute_path dir) (cached_paths s)" and "0 \<notin> set dir"
    and "\<And>t. Str t \<in> set args \<Longrightarrow> 0 \<notin> set (two_byte t)"
    and "list_all (\<lambda>c. list_all (confined_in dir) (call_paths c)) (file_calls s)"
  shows "list_all (\<lambda>c. list_all (confined_in dir) (call_paths c)) (file_calls (snd (f args s)))"
proof -
  have "named_by dir args p \<Longrightarrow> confined_in dir p" for p
    using assms(2,3) compute_path_confined
    by (auto simp: named_by_def wc_str_id compute_path_nul_free)
  moreover from names_arguments [OF assms(1)] obtain new where
    "file_calls (snd (f args s)) = file_calls s @ new"
    "list_all (\<lambda>c. list_all (named_by dir args) (call_paths c)) new" by blast
  ultimately show ?thesis using assms(4) by (auto simp: list_all_iff)
qed

end

lemma Str_in_args: "IsString (arg args i) \<Longrightarrow> \<exists>t. arg args i = Str t \<and> Str t \<in> set args"
  by (metis IsString.simps(2) IsString_iff arg_def not_le nth_mem)

lemma one_path_callback:
  assumes f: "\<And>args s. f args s =
      (if length args < n then (Throw m1, s)
       else if \<not> IsString (arg args 0) then (Throw m2, s)
       else or_throw (from_v8_wstring (arg args 0)) s (\<lambda>name.
              let (p, s1) = relative_path dir name s in g args p s1))"
    and g: "\<And>args p s. cached_paths (snd (g args p s)) = cached_paths s
      \<and> (\<exists>new. file_calls (snd (g args p s)) = file_calls s @ new
            \<and> list_all (\<lambda>c. set (call_paths c) = {p}) new)"
  shows "fs_callback dir f"
proof
  fix args and s :: fs
  assume coh: "coherent (compute_path dir) (cached_paths s)"
  show "coherent (compute_path dir) (cached_paths (snd (f args s)))"
    using coh relative_path_coherent(2) [OF coh] g
    by (simp add: f or_throw_def case_prod_beta split: sum.split)
  show "\<exists>new. file_calls (snd (f args s)) = file_calls s @ new
      \<and> list_all (\<lambda>c. list_all (named_by dir args) (call_paths c)) new"
  proof (cases "n \<le> length args \<and> IsString (arg args 0)")
    case True
    then obtain t where t: "arg args 0 = Str t" "Str t \<in> set args" using Str_in_args by blast
    obtain p s1 where r: "relative_path dir (two_byte t) s = (p, s1)" by force
    with relative_path_coherent [OF coh, of "two_byte t"]
    have p: "named_by dir args p" "file_calls s1 = file_calls s"
      using t(2) by (auto simp: named_by_def)
    from g [of args p s1] obtain new where
      "file_calls (snd (g args p s1)) = file_calls s @ new" "list_all (\<lambda>c. set (call_paths c) = {p}) new"
      using p(2) by auto
    moreover have "f args s = g args p s1" using True t r by (simp add: f)
    ultimately show ?thesis using p(1)
      by (intro exI [of _ new]) (auto simp: list_all_iff)
  qed (auto simp: f)
qed

interpretation fs_exists: fs_callback dir "fs_exists api dir" for api dir
  by (rule one_path_callback [where n = 1 and g = "\<lambda>args p s1.
        let s2 = sys (PathFileExistsW p) s1 in (Return (RBoolean (succeeded api (file_calls s2))), s2)"])
     (simp_all add: fs_exists_def Let_def)

interpretation fs_delete: fs_callback dir "fs_delete api dir" for api dir
  by (rule one_path_callback [where n = 1 and g = "\<lambda>args p s1.
        let s2 = sys (DeleteFileW p) s1 in (Return (RBoolean (succeeded api (file_calls s2))), s2)"])
     (simp_all add: fs_delete_def Let_def)

interpretation fs_write: fs_callback dir "fs_write api dir" for api dir
  by (rule one_path_callback [OF fs_write_def])
     (auto simp: Let_def split: js_value.split)

interpretation fs_read: fs_callback dir "fs_read api dir heap" for api dir heap
  by (rule one_path_callback [OF fs_read_def])
     (auto simp: Let_def)

interpretation fs_copy: fs_callback dir "fs_copy api dir" for api dir
proof
  fix args and s :: fs
  assume coh: "coherent (compute_path dir) (cached_paths s)"
  show "coherent (compute_path dir) (cached_paths (snd (fs_copy api dir args s)))"
    using coh relative_path_coherent(2) [OF relative_path_coherent(2) [OF coh]]
      relative_path_coherent(2) [OF coh]
    by (simp add: fs_copy_def or_throw_def Let_def case_prod_beta split: sum.split)
  show "\<exists>new. file_calls (snd (fs_copy api dir args s)) = file_calls s @ new
      \<and> list_all (\<lambda>c. list_all (named_by dir args) (call_paths c)) new"
  proof (cases "2 \<le> length args \<and> IsString (arg args 0) \<and> IsString (arg args 1)")
    case True
    then obtain t u where t: "arg args 0 = Str t" "Str t \<in> set args"
        and u: "arg args 1 = Str u" "Str u \<in> set args" using Str_in_args by blast
    obtain p s1 where r: "relative_path dir (two_byte t) s = (p, s1)" by force
    obtain q s2 where r2: "relative_path dir (two_byte u) s1 = (q, s2)" by force
    have "named_by dir args p" "named_by dir args q" "file_calls s2 = file_calls s"
      using relative_path_coherent [OF coh, of "two_byte t"] t(2) u(2) r r2
        relative_path_coherent [of dir s1 "two_byte u"]
      by (auto simp: named_by_def)
    with True t u r r2 show ?thesis by (simp add: fs_copy_def Let_def)
  qed (auto simp: fs_copy_def)
qed

definition fs_module :: "file_api \<Rightarrow> wstring \<Rightarrow> (nat \<Rightarrow> char) \<Rightarrow> (string \<times> fs_function) list" where
  "fs_module api dir heap =
     [(''copy'', fs_copy api dir), (''exists'', fs_exists api dir), (''delete'', fs_delete api dir),
      (''write'', fs_write api dir), (''read'', fs_read api dir heap)]"

lemma fs_module_contract: "list_all (\<lambda>(name, f). fs_callback dir f) (fs_module api dir heap)"
  by (simp add: fs_module_def fs_copy.fs_callback_axioms fs_exists.fs_callback_axioms
      fs_delete.fs_callback_axioms fs_write.fs_callback_axioms fs_read.fs_callback_axioms)

text \<open>A script's calls of file functions, in order.\<close>

primrec run_fs :: "(fs_function \<times> js_args) list \<Rightarrow> fs \<Rightarrow> fs" where
  "run_fs [] s = s"
| "run_fs (c # cs) s = run_fs cs (snd (fst c (snd c) s))"

definition empty_fs :: fs where
  "empty_fs = \<lparr>cached_paths = Map.empty, file_calls = []\<rparr>"

definition nul_free_value :: "js_value \<Rightarrow> bool" where
  "nul_free_value v = (case v of Str t \<Rightarrow> 0 \<notin> set (two_byte t) | _ \<Rightarrow> True)"

section \<open>Documented behaviour of a regular file\<close>

text \<open>For one path \<open>p\<close> that can be opened: opening for writing empties the file, opening for appending
  keeps it or creates it, opening for reading an existing file succeeds and reports its size;
  \<^verbatim>\<open>fwrite\<close> appends, \<^verbatim>\<open>fread\<close> delivers from the start, \<^verbatim>\<open>fclose\<close> keeps the contents.\<close>

definition file_laws :: "file_api \<Rightarrow> (file_history \<Rightarrow> wstring \<Rightarrow> bytes option) \<Rightarrow> wstring \<Rightarrow> bool" where
  "file_laws api contents p \<longleftrightarrow>
     (\<forall>h. succeeded api (h @ [Fopen p ''wb'']) \<and> contents (h @ [Fopen p ''wb'']) p = Some [])
     \<and> (\<forall>h. succeeded api (h @ [Fopen p ''ab''])
            \<and> contents (h @ [Fopen p ''ab'']) p = Some (case contents h p of None \<Rightarrow> [] | Some x \<Rightarrow> x))
     \<and> (\<forall>h x. contents h p = Some x \<longrightarrow>
            succeeded api (h @ [Fopen p ''rb'']) \<and> contents (h @ [Fopen p ''rb'']) p = Some x
            \<and> file_size api (h @ [Fopen p ''rb'']) = length x)
     \<and> (\<forall>h x b. contents h p = Some x \<longrightarrow> contents (h @ [Fwrite p b]) p = Some (x @ b))
     \<and> (\<forall>h x n. contents h p = Some x \<longrightarrow> file_data api (h @ [Fread p n]) = take n x)
     \<and> (\<forall>h. contents (h @ [Fclose p]) p = contents h p)"

lemma file_facts:
  assumes "file_laws api contents p"
  shows "succeeded api (h @ [Fopen p ''wb''])" "contents (h @ [Fopen p ''wb'']) p = Some []"
    and "succeeded api (h @ [Fopen p ''ab''])"
    and "contents (h @ [Fopen p ''ab'']) p = Some (case contents h p of None \<Rightarrow> [] | Some x \<Rightarrow> x)"
    and "contents h p = Some x \<Longrightarrow> succeeded api (h @ [Fopen p ''rb''])"
    and "contents h p = Some x \<Longrightarrow> contents (h @ [Fopen p ''rb'']) p = Some x"
    and "contents h p = Some x \<Longrightarrow> file_size api (h @ [Fopen p ''rb'']) = length x"
    and "contents h p = Some x \<Longrightarrow> contents (h @ [Fwrite p b]) p = Some (x @ b)"
    and "contents h p = Some x \<Longrightarrow> file_data api (h @ [Fread p n]) = take n x"
    and "contents (h @ [Fclose p]) p = contents h p"
  using assms unfolding file_laws_def by blast+

lemma fread_into_full: "length buffer = length data \<Longrightarrow> fread_into buffer data = data"
  by (simp add: fread_into_def)

text \<open>What \<^verbatim>\<open>write\<close> leaves in the file, and what \<^verbatim>\<open>read\<close> makes of a file's contents.\<close>

lemma fs_write_contents:
  assumes "file_laws api contents p" and "coherent (compute_path dir) (cached_paths s)"
    and "p = wc_str (compute_path dir (two_byte name))"
  shows "\<exists>s'. fs_write api dir (Str name # Str t # flag) s = (Return RUndefined, s')
     \<and> coherent (compute_path dir) (cached_paths s')
     \<and> contents (file_calls s') p = Some ((if optional_flag (Str name # Str t # flag) 2
          then (case contents (file_calls s) p of None \<Rightarrow> [] | Some x \<Rightarrow> x) else []) @ utf8 t)"
proof -
  obtain q s1 where r: "relative_path dir (two_byte name) s = (q, s1)" by force
  with relative_path_coherent [OF assms(2), of "two_byte name"] assms(3)
  have q: "q = p" "coherent (compute_path dir) (cached_paths s1)" "file_calls s1 = file_calls s" by auto
  note facts = file_facts [OF assms(1)]
  show ?thesis
  proof (cases "optional_flag (Str name # Str t # flag) 2")
    case True
    let ?h = "file_calls s @ [Fopen p ''ab'']"
    have "contents (?h @ [Fwrite p (utf8 t)]) p
        = Some ((case contents (file_calls s) p of None \<Rightarrow> [] | Some x \<Rightarrow> x) @ utf8 t)"
      by (rule facts(8)) (rule facts(4))
    with facts(10) [of "?h @ [Fwrite p (utf8 t)]"] facts(3) True r q show ?thesis
      by (simp add: fs_write_def Let_def)
  next
    case False
    let ?h = "file_calls s @ [Fopen p ''wb'']"
    have "contents (?h @ [Fwrite p (utf8 t)]) p = Some ([] @ utf8 t)"
      by (rule facts(8)) (rule facts(2))
    with facts(10) [of "?h @ [Fwrite p (utf8 t)]"] facts(1) False r q show ?thesis
      by (simp add: fs_write_def Let_def)
  qed
qed

lemma fs_read_contents:
  assumes "file_laws api contents p" and "coherent (compute_path dir) (cached_paths s)"
    and "p = wc_str (compute_path dir (two_byte name))" and "contents (file_calls s) p = Some x"
    and "length x < 2 ^ 31" and "length x \<le> max_string api"
  shows "\<exists>s'. fs_read api dir heap (Str name # flag) s =
      (Return (if optional_flag (Str name # flag) 1 then RUint8Array x else ROneByte x), s')"
proof -
  obtain q s1 where r: "relative_path dir (two_byte name) s = (q, s1)" by force
  with relative_path_coherent [OF assms(2), of "two_byte name"] assms(3)
  have q: "q = p" "file_calls s1 = file_calls s" by auto
  note facts = file_facts [OF assms(1)]
  let ?h = "file_calls s @ [Fopen p ''rb'']"
  have "contents ?h p = Some x" using assms(4) by (rule facts(6))
  then have "file_data api (?h @ [Fread p (length x)]) = x" using facts(9) by fastforce
  then show ?thesis using r q assms(5,6) facts(5,7) [OF assms(4)]
    by (simp add: fs_read_def Let_def ftell_size_def fread_into_full)
qed

section \<open>Properties\<close>

text \<open>C1. Scripts stay inside the filesystem directory: in every run of file functions whose string
  arguments contain no zero character, each path handed to Windows or to the C library is the
  directory's path followed by segments none of which is \<^verbatim>\<open>.\<close> or \<^verbatim>\<open>..\<close>.\<close>
theorem fs_calls_confined:
  assumes "0 \<notin> set dir"
    and "list_all (\<lambda>(f, args). f \<in> snd ` set (fs_module api dir heap) \<and> list_all nul_free_value args) script"
  shows "list_all (\<lambda>c. list_all (confined_in dir) (call_paths c)) (file_calls (run_fs script empty_fs))"
proof -
  have "list_all (\<lambda>c. list_all (confined_in dir) (call_paths c)) (file_calls (run_fs script s))"
    if "coherent (compute_path dir) (cached_paths s)"
      "list_all (\<lambda>c. list_all (confined_in dir) (call_paths c)) (file_calls s)" for s
    using assms(2) that
  proof (induction script arbitrary: s)
    case (Cons c script)
    obtain f args where c: "c = (f, args)" by force
    with Cons.prems(1) fs_module_contract [of dir api heap] have "fs_callback dir f"
      by (auto simp: list_all_iff)
    moreover have "0 \<notin> set (two_byte t)" if "Str t \<in> set args" for t
      using that Cons.prems(1) c by (force simp: list_all_iff nul_free_value_def)
    ultimately have step: "coherent (compute_path dir) (cached_paths (snd (f args s)))"
      "list_all (\<lambda>c. list_all (confined_in dir) (call_paths c)) (file_calls (snd (f args s)))"
      using Cons.prems(2,3) assms(1) fs_callback.cache_kept fs_callback.confined_calls by blast+
    show ?case using Cons.IH [OF _ step] Cons.prems(1) c by simp
  qed simp
  from this [of empty_fs] show ?thesis by (simp add: empty_fs_def)
qed

text \<open>A zero character defeats the confinement: a name made of two dots and a zero is no dot segment
  for the cleaning loop, but the system reads the path only up to the zero, so \<^verbatim>\<open>exists\<close> asks about
  the parent of the filesystem directory.\<close>
theorem nul_name_reaches_parent:
  assumes "dir \<noteq> []" and "0 \<notin> set dir" and "\<not> is_separator (last dir)"
  shows "file_calls (snd (fs_exists api dir [Str \<lparr>utf8 = u, two_byte = [wdot, wdot, 0]\<rparr>] empty_fs))
       = [PathFileExistsW (dir @ [wbackslash, wdot, wdot])]
     \<and> \<not> confined_in dir (dir @ [wbackslash, wdot, wdot])"
proof
  have b: "replace_backslashes [wdot, wdot, 0] = [wdot, wdot, 0]"
    by (subst replace_backslashes.simps) (simp add: std_find_def)
  have r: "remove_dot_segments [wdot, wdot, 0] [] = [wdot, wdot, 0]"
    by (simp add: remove_dot_segments.simps std_find_def segment_end_def)
  have "takeWhile (\<lambda>c. c \<noteq> 0) (dir @ [wbackslash, wdot, wdot, 0]) = dir @ [wbackslash, wdot, wdot]"
    using assms(2) by (subst takeWhile_append2) auto
  then have "wc_str (compute_path dir [wdot, wdot, 0]) = dir @ [wbackslash, wdot, wdot]"
    using assms by (simp add: compute_path_def b r path_append_def is_separator_def wc_str_def)
  then show "file_calls (snd (fs_exists api dir [Str \<lparr>utf8 = u, two_byte = [wdot, wdot, 0]\<rparr>] empty_fs))
       = [PathFileExistsW (dir @ [wbackslash, wdot, wdot])]"
    using relative_path_coherent [of dir empty_fs "[wdot, wdot, 0]"]
    by (simp add: fs_exists_def empty_fs_def Let_def case_prod_beta)
  show "\<not> confined_in dir (dir @ [wbackslash, wdot, wdot])"
    by (simp add: confined_in_def is_separator_def is_dot_segment_def)
qed

text \<open>A file reads back as written: after \<^verbatim>\<open>write(name, text)\<close>, or \<^verbatim>\<open>write(name, text, true)\<close> on an
  existing file, \<^verbatim>\<open>read(name)\<close> returns the bytes of the file, that is the UTF-8 bytes of the text
  behind the old contents when appending, as a one-byte string or as a byte array.\<close>
theorem fs_write_read_roundtrip:
  assumes "file_laws api contents p" and "coherent (compute_path dir) (cached_paths s)"
    and "p = wc_str (compute_path dir (two_byte name))"
    and "x = (if app then (case contents (file_calls s) p of None \<Rightarrow> [] | Some y \<Rightarrow> y) else []) @ utf8 t"
    and "length x < 2 ^ 31" and "length x \<le> max_string api"
  shows "\<exists>s' s''. fs_write api dir [Str name, Str t, Boolean app] s = (Return RUndefined, s')
       \<and> fs_read api dir heap [Str name, Boolean as_array] s'
           = (Return (if as_array then RUint8Array x else ROneByte x), s'')"
proof -
  have flag: "optional_flag [Str name, Str t, Boolean app] 2 = app"
    "optional_flag [Str name, Boolean as_array] 1 = as_array"
    by (simp_all add: optional_flag_def numeral_2_eq_2)
  from fs_write_contents [OF assms(1-3), of t "[Boolean app]"] obtain s' where
    s': "fs_write api dir [Str name, Str t, Boolean app] s = (Return RUndefined, s')"
      "coherent (compute_path dir) (cached_paths s')" "contents (file_calls s') p = Some x"
    using assms(4) flag(1) by auto
  from fs_read_contents [OF assms(1) s'(2) assms(3) s'(3) assms(5,6), of heap "[Boolean as_array]"]
  show ?thesis using s'(1) flag(2) by auto
qed

text \<open>\<^verbatim>\<open>write\<close> with a content that is neither a string nor a byte array fails too late: the file has
  already been opened for writing, hence emptied, and the handle is never closed.\<close>
theorem fs_write_invalid_leaks_handle:
  assumes "succeeded api (h @ [Fopen (wc_str (compute_path dir (two_byte name))) ''wb''])"
    and "\<not> IsString v" and "\<not> IsUint8Array v"
  shows "\<exists>s'. fs_write api dir [Str name, v] \<lparr>cached_paths = Map.empty, file_calls = h\<rparr>
         = (Throw ''invalid data type provided.'', s')
       \<and> file_calls s' = h @ [Fopen (wc_str (compute_path dir (two_byte name))) ''wb'']"
proof -
  let ?s = "\<lparr>cached_paths = Map.empty, file_calls = h\<rparr>"
  obtain q s1 where r: "relative_path dir (two_byte name) ?s = (q, s1)" by force
  with relative_path_coherent [of dir ?s "two_byte name"]
  have "q = wc_str (compute_path dir (two_byte name))" "file_calls s1 = h" by auto
  with assms r show ?thesis
    by (cases v) (simp_all add: fs_write_def Let_def optional_flag_def numeral_2_eq_2)
qed

section \<open>Witnesses\<close>

text \<open>A system that keeps the contents of its files.\<close>

fun file_step :: "file_call \<Rightarrow> (wstring \<Rightarrow> bytes option) \<Rightarrow> wstring \<Rightarrow> bytes option" where
  "file_step (Fopen p mode) c =
     (if mode = ''wb'' then c(p \<mapsto> [])
      else if mode = ''ab'' then c(p \<mapsto> (case c p of None \<Rightarrow> [] | Some x \<Rightarrow> x)) else c)"
| "file_step (Fwrite p b) c = (case c p of None \<Rightarrow> c | Some x \<Rightarrow> c(p \<mapsto> x @ b))"
| "file_step _ c = c"

definition store :: "file_history \<Rightarrow> wstring \<Rightarrow> bytes option" where
  "store h = fold file_step h Map.empty"

fun last_path :: "file_history \<Rightarrow> wstring" where
  "last_path h = (case call_paths (last h) of [] \<Rightarrow> [] | p # _ \<Rightarrow> p)"

definition sample_files :: file_api where
  "sample_files = \<lparr>succeeded = (\<lambda>_. True),
     file_size = (\<lambda>h. case store h (last_path h) of None \<Rightarrow> 0 | Some x \<Rightarrow> length x),
     file_data = (\<lambda>h. case (last h, store h (last_path h)) of
                    (Fread _ n, Some x) \<Rightarrow> take n x | _ \<Rightarrow> []),
     max_string = 100\<rparr>"

lemma sample_file_laws: "file_laws sample_files store p"
  by (simp add: file_laws_def store_def sample_files_def)

definition sample_name :: js_string where "sample_name = \<lparr>utf8 = ''a'', two_byte = [97]\<rparr>"
definition sample_text :: js_string where "sample_text = \<lparr>utf8 = ''hi'', two_byte = [104, 105]\<rparr>"

theorem fs_calls_confined_witness:
  "list_all (\<lambda>c. list_all (confined_in [67]) (call_paths c))
     (file_calls (run_fs [(fs_delete sample_files [67], [Str sample_name])] empty_fs))"
  by (rule fs_calls_confined [where api = sample_files and heap = "\<lambda>_. CHR 0x00"])
     (simp_all add: fs_module_def nul_free_value_def sample_name_def)

theorem nul_name_reaches_parent_witness:
  "file_calls (snd (fs_exists sample_files [67] [Str \<lparr>utf8 = [], two_byte = [wdot, wdot, 0]\<rparr>] empty_fs))
     = [PathFileExistsW [67, wbackslash, wdot, wdot]]"
  using nul_name_reaches_parent [of "[67]" sample_files "[]"] by (simp add: is_separator_def)

theorem fs_write_read_roundtrip_witness:
  "\<exists>s' s''. fs_write sample_files [67] [Str sample_name, Str sample_text, Boolean False] empty_fs
              = (Return RUndefined, s')
     \<and> fs_read sample_files [67] (\<lambda>_. CHR 0x00) [Str sample_name, Boolean False] s'
         = (Return (ROneByte ''hi''), s'')"
proof -
  have "coherent (compute_path [67]) (cached_paths empty_fs)" by (simp add: empty_fs_def)
  moreover have "length ([] @ utf8 sample_text) < 2 ^ 31"
    "length ([] @ utf8 sample_text) \<le> max_string sample_files"
    by (simp_all add: sample_text_def sample_files_def)
  ultimately show ?thesis
    using fs_write_read_roundtrip [OF sample_file_laws, of "[67]" empty_fs _ sample_name
        "[] @ utf8 sample_text" False sample_text "\<lambda>_. CHR 0x00" False]
    by (simp add: sample_text_def)
qed

theorem fs_write_invalid_leaks_handle_witness:
  "\<exists>s'. fs_write sample_files [67] [Str sample_name, Null] empty_fs
       = (Throw ''invalid data type provided.'', s') \<and> length (file_calls s') = 1"
  using fs_write_invalid_leaks_handle [of sample_files "[]" "[67]" sample_name Null]
  by (auto simp: sample_files_def empty_fs_def)

end
