(* ===== verification/Ipc_Controller.thy ===== *)
theory Ipc_Controller
  imports V8_Values
begin

unbundle bit_operations_syntax

text \<open>
  \<^verbatim>\<open>IPC_KV_Controller\<close> of \<^verbatim>\<open>Include/ipckv/ipckv.h\<close>: the double-buffered header and slots of the shared
  key-value store. Every field exists twice and a one-byte state selects the visible copy; setters
  write the hidden copy and record a flag, and a commit fills the fields that were not written and
  flips the selector. The theory shows that a transaction is atomic for a reader and what it
  publishes, field by field.
\<close>

section \<open>Data\<close>

definition IPCKV_DATA_SIZE :: nat where "IPCKV_DATA_SIZE = 2048"
definition IPCKV_KEY_SIZE :: nat where "IPCKV_KEY_SIZE = 260"

datatype IPC_KV_Data_State = Empty | Deleted | Occupied

text \<open>A C array of two elements is a function of the \<^verbatim>\<open>bool\<close> the code indexes it with.\<close>

type_synonym 'a two = "bool \<Rightarrow> 'a"

record IPC_KV_Data =
  m_state :: "IPC_KV_Data_State two"
  m_key :: "bytes two"
  m_value :: "bytes two"
  m_dsize :: "u64 two"
  m_dbuffer :: "8 word"

record IPC_KV_Info =
  m_ibuffer :: "8 word"
  m_capacity :: "u64 two"
  m_isize :: "u64 two"
  m_resize :: "u64 two"

record IPC_KV_Controller =
  m_has_started_info_transaction :: bool
  m_info_transaction_flags :: u32
  m_has_started_data_transaction :: bool
  m_data_transaction_flags :: u32
  m_info :: "IPC_KV_Info option"
  m_data :: "IPC_KV_Data list option"

text \<open>The controller with the handles of the two mappings, and the calls its destructor makes for what it holds.\<close>

record IPC_KV_Mappings =
  m_controller :: IPC_KV_Controller
  m_info_handle :: "nat option"
  m_data_handle :: "nat option"

datatype release_call = UnmapData | UnmapInfo | CloseHandle nat

definition destroy_controller :: "IPC_KV_Mappings \<Rightarrow> release_call list" where
  "destroy_controller m =
     (if m_data (m_controller m) \<noteq> None then [UnmapData] else [])
     @ (if m_info (m_controller m) \<noteq> None then [UnmapInfo] else [])
     @ (case m_data_handle m of Some h \<Rightarrow> [CloseHandle h] | None \<Rightarrow> [])
     @ (case m_info_handle m of Some h \<Rightarrow> [CloseHandle h] | None \<Rightarrow> [])"

text \<open>Everything that is held is released exactly once, views before their handles.\<close>

lemma destroy_controller_releases:
  assumes "m_info_handle m \<noteq> m_data_handle m \<or> m_info_handle m = None"
  shows "distinct (destroy_controller m)"
    and "set (destroy_controller m)
         = {c. c = UnmapData \<and> m_data (m_controller m) \<noteq> None \<or> c = UnmapInfo \<and> m_info (m_controller m) \<noteq> None
             \<or> (\<exists>h. c = CloseHandle h \<and> (m_data_handle m = Some h \<or> m_info_handle m = Some h))}"
    and "\<exists>views handles. destroy_controller m = views @ handles
           \<and> set views \<subseteq> {UnmapData, UnmapInfo} \<and> set handles \<subseteq> range CloseHandle"
proof -
  show "distinct (destroy_controller m)"
    using assms by (auto simp: destroy_controller_def split: option.splits)
  show "set (destroy_controller m)
         = {c. c = UnmapData \<and> m_data (m_controller m) \<noteq> None \<or> c = UnmapInfo \<and> m_info (m_controller m) \<noteq> None
             \<or> (\<exists>h. c = CloseHandle h \<and> (m_data_handle m = Some h \<or> m_info_handle m = Some h))}"
    by (auto simp: destroy_controller_def split: option.splits)
  show "\<exists>views handles. destroy_controller m = views @ handles
           \<and> set views \<subseteq> {UnmapData, UnmapInfo} \<and> set handles \<subseteq> range CloseHandle"
    by (rule exI [of _ "(if m_data (m_controller m) \<noteq> None then [UnmapData] else [])
        @ (if m_info (m_controller m) \<noteq> None then [UnmapInfo] else [])"])
      (auto simp: destroy_controller_def split: option.splits)
qed

type_synonym 'a kv_result = "('a, IPC_KV_Controller) result"

abbreviation InfoResizeCount :: u32 where "InfoResizeCount \<equiv> 1"
abbreviation InfoCapacity :: u32 where "InfoCapacity \<equiv> 2"
abbreviation InfoSize :: u32 where "InfoSize \<equiv> 4"
abbreviation DataState :: u32 where "DataState \<equiv> 1"
abbreviation DataKey :: u32 where "DataKey \<equiv> 2"
abbreviation DataValue :: u32 where "DataValue \<equiv> 4"
abbreviation DataSize :: u32 where "DataSize \<equiv> 8"

definition invalid_state :: string where
  "invalid_state = ''class is in an invalid state.''"

text \<open>\<^verbatim>\<open>InterlockedAnd8(&b, 1)\<close> masks the byte in place and returns its previous value, which the code
  converts to \<^verbatim>\<open>bool\<close>.\<close>

definition interlocked_bit :: "8 word \<Rightarrow> bool \<times> 8 word" where
  "interlocked_bit b = (b \<noteq> 0, b AND 1)"

section \<open>Header operations\<close>

definition with_info ::
    "IPC_KV_Controller \<Rightarrow> (IPC_KV_Info \<Rightarrow> 'a kv_result) \<Rightarrow> 'a kv_result" where
  "with_info c k = (case m_info c of None \<Rightarrow> (Throw invalid_state, c) | Some i \<Rightarrow> k i)"

definition startInfoTransaction :: "IPC_KV_Controller \<Rightarrow> unit kv_result" where
  "startInfoTransaction c = with_info c (\<lambda>_.
     if m_has_started_info_transaction c
     then (Throw ''a info transaction has already been started.'', c)
     else (Return (), c\<lparr>m_has_started_info_transaction := True, m_info_transaction_flags := 0\<rparr>))"

definition set_info ::
    "(bool \<Rightarrow> IPC_KV_Info \<Rightarrow> IPC_KV_Info) \<Rightarrow> u32 \<Rightarrow> IPC_KV_Controller \<Rightarrow> unit kv_result" where
  "set_info write flag c = with_info c (\<lambda>i.
     if \<not> m_has_started_info_transaction c
     then (Throw ''a info transaction has not been started.'', c)
     else
       let (old, masked) = interlocked_bit (m_ibuffer i);
           buffer_state = \<not> old
       in (Return (), c\<lparr>m_info := Some (write buffer_state (i\<lparr>m_ibuffer := masked\<rparr>)),
                        m_info_transaction_flags := m_info_transaction_flags c OR flag\<rparr>))"

definition setResizeCount :: "u64 \<Rightarrow> IPC_KV_Controller \<Rightarrow> unit kv_result" where
  "setResizeCount n = set_info (\<lambda>b i. i\<lparr>m_resize := (m_resize i)(b := n)\<rparr>) InfoResizeCount"

definition setCapacity :: "u64 \<Rightarrow> IPC_KV_Controller \<Rightarrow> unit kv_result" where
  "setCapacity n = set_info (\<lambda>b i. i\<lparr>m_capacity := (m_capacity i)(b := n)\<rparr>) InfoCapacity"

definition setSize :: "u64 \<Rightarrow> IPC_KV_Controller \<Rightarrow> unit kv_result" where
  "setSize n = set_info (\<lambda>b i. i\<lparr>m_isize := (m_isize i)(b := n)\<rparr>) InfoSize"

definition get_info :: "(IPC_KV_Info \<Rightarrow> 'a two) \<Rightarrow> IPC_KV_Controller \<Rightarrow> 'a kv_result" where
  "get_info field c = with_info c (\<lambda>i.
     let (buffer_state, masked) = interlocked_bit (m_ibuffer i)
     in (Return (field i buffer_state), c\<lparr>m_info := Some (i\<lparr>m_ibuffer := masked\<rparr>)\<rparr>))"

definition getCapacity :: "IPC_KV_Controller \<Rightarrow> u64 kv_result" where
  "getCapacity = get_info m_capacity"

definition getSize :: "IPC_KV_Controller \<Rightarrow> u64 kv_result" where
  "getSize = get_info m_isize"

definition getResizeCount :: "IPC_KV_Controller \<Rightarrow> u64 kv_result" where
  "getResizeCount = get_info m_resize"

text \<open>One of the three conditional copies of \<^verbatim>\<open>commitInfo\<close>.\<close>

definition copy_unless ::
    "bool \<Rightarrow> (IPC_KV_Controller \<Rightarrow> 'a kv_result) \<Rightarrow> ('a \<Rightarrow> IPC_KV_Controller \<Rightarrow> unit kv_result)
     \<Rightarrow> IPC_KV_Controller \<Rightarrow> unit kv_result" where
  "copy_unless written fetch store c = (if written then (Return (), c) else chain (fetch c) store)"

definition flag_set :: "u32 \<Rightarrow> u32 \<Rightarrow> bool" where
  "flag_set flags f \<longleftrightarrow> flags AND f \<noteq> 0"

definition commitInfo :: "IPC_KV_Controller \<Rightarrow> unit kv_result" where
  "commitInfo c = with_info c (\<lambda>_.
     if \<not> m_has_started_info_transaction c
     then (Throw ''a info transaction has not been started.'', c)
     else
       chain (copy_unless (flag_set (m_info_transaction_flags c) InfoResizeCount)
                getResizeCount setResizeCount c) (\<lambda>_ c1.
       chain (copy_unless (flag_set (m_info_transaction_flags c1) InfoCapacity)
                getCapacity setCapacity c1) (\<lambda>_ c2.
       chain (copy_unless (flag_set (m_info_transaction_flags c2) InfoSize)
                getSize setSize c2) (\<lambda>_ c3.
       with_info c3 (\<lambda>i.
         (Return (), c3\<lparr>m_info := Some (i\<lparr>m_ibuffer := m_ibuffer i XOR 1\<rparr>),
                        m_has_started_info_transaction := False\<rparr>))))))"

section \<open>Slot operations\<close>

text \<open>An index beyond the mapped array is undefined behaviour.\<close>

definition with_slot ::
    "nat \<Rightarrow> IPC_KV_Controller \<Rightarrow> (IPC_KV_Data list \<Rightarrow> IPC_KV_Data \<Rightarrow> 'a kv_result) \<Rightarrow> 'a kv_result" where
  "with_slot index c k =
     (case m_data c of
        None \<Rightarrow> (Throw invalid_state, c)
      | Some ds \<Rightarrow> if index < length ds then k ds (ds ! index) else (Crash, c))"

definition startDataTransaction :: "nat \<Rightarrow> IPC_KV_Controller \<Rightarrow> unit kv_result" where
  "startDataTransaction index c =
     (case m_data c of
        None \<Rightarrow> (Throw invalid_state, c)
      | Some _ \<Rightarrow>
          if m_has_started_data_transaction c
          then (Throw ''a data transaction has already been started.'', c)
          else (Return (), c\<lparr>m_has_started_data_transaction := True, m_data_transaction_flags := 0\<rparr>))"

definition set_slot ::
    "nat \<Rightarrow> (bool \<Rightarrow> IPC_KV_Data \<Rightarrow> IPC_KV_Data) \<Rightarrow> u32 \<Rightarrow> IPC_KV_Controller \<Rightarrow> unit kv_result" where
  "set_slot index write flags c = with_slot index c (\<lambda>ds d.
     let (old, masked) = interlocked_bit (m_dbuffer d);
         buffer_state = \<not> old
     in (Return (), c\<lparr>m_data := Some (ds[index := write buffer_state (d\<lparr>m_dbuffer := masked\<rparr>)]),
                      m_data_transaction_flags := m_data_transaction_flags c OR flags\<rparr>))"

definition setDataSize :: "nat \<Rightarrow> u64 \<Rightarrow> IPC_KV_Controller \<Rightarrow> unit kv_result" where
  "setDataSize index n =
     set_slot index (\<lambda>b d. d\<lparr>m_dsize := (m_dsize d)(b := n)\<rparr>) DataSize"

definition setDataState :: "nat \<Rightarrow> IPC_KV_Data_State \<Rightarrow> IPC_KV_Controller \<Rightarrow> unit kv_result" where
  "setDataState index st =
     set_slot index (\<lambda>b d. d\<lparr>m_state := (m_state d)(b := st)\<rparr>) DataState"

text \<open>\<open>data\<close> is the readable memory at the source pointer and \<open>n\<close> the count. \<^verbatim>\<open>memcpy_s\<close> into the
  2048-byte array calls the invalid-parameter handler, which ends the process, when the count is
  larger; reading past the source is undefined behaviour.\<close>

definition setData :: "nat \<Rightarrow> bytes \<Rightarrow> u64 \<Rightarrow> IPC_KV_Controller \<Rightarrow> unit kv_result" where
  "setData index data n c =
     (case m_data c of
        None \<Rightarrow> (Throw invalid_state, c)
      | Some _ \<Rightarrow>
          if IPCKV_DATA_SIZE < unat n \<or> length data < unat n then (Crash, c)
          else set_slot index
                 (\<lambda>b d. d\<lparr>m_value := (m_value d)(b := take (unat n) data @ drop (unat n) (m_value d b)),
                          m_dsize := (m_dsize d)(b := n)\<rparr>)
                 (DataValue OR DataSize) c)"

text \<open>\<^verbatim>\<open>strncpy_s\<close> into the 260-byte array copies at most \<open>n\<close> characters of the zero-terminated key
  and a terminator; if they do not fit, the invalid-parameter handler ends the process.\<close>

definition setDataKey :: "nat \<Rightarrow> bytes \<Rightarrow> nat \<Rightarrow> IPC_KV_Controller \<Rightarrow> unit kv_result" where
  "setDataKey index key n c =
     (case m_data c of
        None \<Rightarrow> (Throw invalid_state, c)
      | Some _ \<Rightarrow>
          if IPCKV_KEY_SIZE \<le> length (take n (c_str key)) then (Crash, c)
          else set_slot index (\<lambda>b d. d\<lparr>m_key := (m_key d)(b := take n (c_str key))\<rparr>) DataKey c)"

definition get_slot :: "nat \<Rightarrow> (IPC_KV_Data \<Rightarrow> 'a two) \<Rightarrow> IPC_KV_Controller \<Rightarrow> 'a kv_result" where
  "get_slot index field c = with_slot index c (\<lambda>ds d.
     let (buffer_state, masked) = interlocked_bit (m_dbuffer d)
     in (Return (field d buffer_state), c\<lparr>m_data := Some (ds[index := d\<lparr>m_dbuffer := masked\<rparr>])\<rparr>))"

definition getData :: "nat \<Rightarrow> IPC_KV_Controller \<Rightarrow> bytes kv_result" where
  "getData index = get_slot index m_value"

definition getDataSize :: "nat \<Rightarrow> IPC_KV_Controller \<Rightarrow> u64 kv_result" where
  "getDataSize index = get_slot index m_dsize"

definition getDataState :: "nat \<Rightarrow> IPC_KV_Controller \<Rightarrow> IPC_KV_Data_State kv_result" where
  "getDataState index = get_slot index m_state"

definition getDataKey :: "nat \<Rightarrow> IPC_KV_Controller \<Rightarrow> bytes kv_result" where
  "getDataKey index = get_slot index m_key"

definition commitData :: "nat \<Rightarrow> IPC_KV_Controller \<Rightarrow> unit kv_result" where
  "commitData index c =
     (case m_data c of
        None \<Rightarrow> (Throw invalid_state, c)
      | Some _ \<Rightarrow>
        if \<not> m_has_started_data_transaction c
        then (Throw ''a data transaction has not been started.'', c)
        else
          chain (copy_unless (flag_set (m_data_transaction_flags c) DataSize)
                   (getDataSize index) (setDataSize index) c) (\<lambda>_ c1.
          chain (copy_unless (flag_set (m_data_transaction_flags c1) DataState)
                   (getDataState index) (setDataState index) c1) (\<lambda>_ c2.
          chain (copy_unless (flag_set (m_data_transaction_flags c2) DataValue)
                   (getData index)
                   (\<lambda>v c'. chain (getDataSize index c') (\<lambda>n c''. setData index v n c'')) c2) (\<lambda>_ c3.
          chain (copy_unless (flag_set (m_data_transaction_flags c3) DataKey)
                   (getDataKey index)
                   (\<lambda>key c'. setDataKey index key (length (c_str key)) c') c3) (\<lambda>_ c4.
          with_slot index c4 (\<lambda>ds d.
            (Return (), c4\<lparr>m_data := Some (ds[index := d\<lparr>m_dbuffer := m_dbuffer d XOR 1\<rparr>]),
                           m_has_started_data_transaction := False\<rparr>)))))))"

section \<open>Double buffering\<close>

text \<open>The contract of one double-buffered field: staging a value is invisible, flipping the selector
  exchanges the visible and the staged copy.\<close>

locale double_buffered =
  fixes read :: "'s \<Rightarrow> 'v" and staged :: "'s \<Rightarrow> 'v" and stage :: "'v \<Rightarrow> 's \<Rightarrow> 's"
    and flip :: "'s \<Rightarrow> 's" and wf :: "'s \<Rightarrow> bool"
  assumes read_stage: "wf s \<Longrightarrow> read (stage v s) = read s"
    and staged_stage: "wf s \<Longrightarrow> staged (stage v s) = v"
    and read_flip: "wf s \<Longrightarrow> read (flip s) = staged s"
    and staged_flip: "wf s \<Longrightarrow> staged (flip s) = read s"
    and wf_stage: "wf s \<Longrightarrow> wf (stage v s)"
    and wf_flip: "wf s \<Longrightarrow> wf (flip s)"
begin

lemma stages_invisible: "wf s \<Longrightarrow> wf (fold stage vs s) \<and> read (fold stage vs s) = read s"
  by (induction vs arbitrary: s) (simp_all add: read_stage wf_stage)

lemma staged_last: "wf s \<Longrightarrow> vs \<noteq> [] \<Longrightarrow> staged (fold stage vs s) = last vs"
proof (induction vs arbitrary: s)
  case (Cons v vs)
  then show ?case by (cases vs) (simp_all add: staged_stage wf_stage)
qed simp

lemma publish_last: "wf s \<Longrightarrow> vs \<noteq> [] \<Longrightarrow> read (flip (fold stage vs s)) = last vs"
  using read_flip staged_last stages_invisible by metis

end

definition info_bit :: "IPC_KV_Info \<Rightarrow> bool" where "info_bit i \<longleftrightarrow> m_ibuffer i \<noteq> 0"
definition wf_info :: "IPC_KV_Info \<Rightarrow> bool" where "wf_info i \<longleftrightarrow> m_ibuffer i = 0 \<or> m_ibuffer i = 1"
definition flip_info :: "IPC_KV_Info \<Rightarrow> IPC_KV_Info" where
  "flip_info i = i\<lparr>m_ibuffer := m_ibuffer i XOR 1\<rparr>"

definition slot_bit :: "IPC_KV_Data \<Rightarrow> bool" where "slot_bit d \<longleftrightarrow> m_dbuffer d \<noteq> 0"
definition wf_slot :: "IPC_KV_Data \<Rightarrow> bool" where
  "wf_slot d \<longleftrightarrow> (m_dbuffer d = 0 \<or> m_dbuffer d = 1)"
definition flip_slot :: "IPC_KV_Data \<Rightarrow> IPC_KV_Data" where
  "flip_slot d = d\<lparr>m_dbuffer := m_dbuffer d XOR 1\<rparr>"

lemmas buffer_defs = info_bit_def wf_info_def flip_info_def slot_bit_def wf_slot_def flip_slot_def

interpretation capacity: double_buffered
  "\<lambda>i. m_capacity i (info_bit i)" "\<lambda>i. m_capacity i (\<not> info_bit i)"
  "\<lambda>v i. i\<lparr>m_capacity := (m_capacity i)(\<not> info_bit i := v)\<rparr>" flip_info wf_info
  by unfold_locales (auto simp: buffer_defs)

interpretation isize: double_buffered
  "\<lambda>i. m_isize i (info_bit i)" "\<lambda>i. m_isize i (\<not> info_bit i)"
  "\<lambda>v i. i\<lparr>m_isize := (m_isize i)(\<not> info_bit i := v)\<rparr>" flip_info wf_info
  by unfold_locales (auto simp: buffer_defs)

interpretation resize: double_buffered
  "\<lambda>i. m_resize i (info_bit i)" "\<lambda>i. m_resize i (\<not> info_bit i)"
  "\<lambda>v i. i\<lparr>m_resize := (m_resize i)(\<not> info_bit i := v)\<rparr>" flip_info wf_info
  by unfold_locales (auto simp: buffer_defs)

interpretation dstate: double_buffered
  "\<lambda>d. m_state d (slot_bit d)" "\<lambda>d. m_state d (\<not> slot_bit d)"
  "\<lambda>v d. d\<lparr>m_state := (m_state d)(\<not> slot_bit d := v)\<rparr>" flip_slot wf_slot
  by unfold_locales (auto simp: buffer_defs)

interpretation dkey: double_buffered
  "\<lambda>d. m_key d (slot_bit d)" "\<lambda>d. m_key d (\<not> slot_bit d)"
  "\<lambda>v d. d\<lparr>m_key := (m_key d)(\<not> slot_bit d := v)\<rparr>" flip_slot wf_slot
  by unfold_locales (auto simp: buffer_defs)

interpretation dsize: double_buffered
  "\<lambda>d. m_dsize d (slot_bit d)" "\<lambda>d. m_dsize d (\<not> slot_bit d)"
  "\<lambda>v d. d\<lparr>m_dsize := (m_dsize d)(\<not> slot_bit d := v)\<rparr>" flip_slot wf_slot
  by unfold_locales (auto simp: buffer_defs)

lemma interlocked_bit_info: "wf_info i \<Longrightarrow> interlocked_bit (m_ibuffer i) = (info_bit i, m_ibuffer i)"
  by (auto simp: interlocked_bit_def buffer_defs)

lemma interlocked_bit_slot: "wf_slot d \<Longrightarrow> interlocked_bit (m_dbuffer d) = (slot_bit d, m_dbuffer d)"
  by (auto simp: interlocked_bit_def buffer_defs)

lemma flag_set_or: "flag_set (w OR f) g \<longleftrightarrow> flag_set w g \<or> flag_set f g"
  by (simp add: flag_set_def bit.conj_disj_distrib2 or_eq_0_iff)

lemma flag_set_consts [simp]:
  "\<not> flag_set 0 f" "flag_set 1 1" "flag_set 2 2" "flag_set 4 4" "flag_set 8 8"
  "\<not> flag_set 1 2" "\<not> flag_set 1 4" "\<not> flag_set 1 8" "\<not> flag_set 2 1" "\<not> flag_set 2 4"
  "\<not> flag_set 2 8" "\<not> flag_set 4 1" "\<not> flag_set 4 2" "\<not> flag_set 4 8" "\<not> flag_set 8 1"
  "\<not> flag_set 8 2" "\<not> flag_set 8 4" "flag_set 12 4" "flag_set 12 8" "\<not> flag_set 12 1"
  "\<not> flag_set 12 2"
  by (simp_all add: flag_set_def)

section \<open>Header transactions\<close>

record info_view =
  iv_capacity :: u64
  iv_size :: u64
  iv_resize :: u64

definition view_info :: "IPC_KV_Info \<Rightarrow> info_view" where
  "view_info i = \<lparr>iv_capacity = m_capacity i (info_bit i), iv_size = m_isize i (info_bit i),
                  iv_resize = m_resize i (info_bit i)\<rparr>"

datatype info_write = WResize u64 | WCapacity u64 | WSize u64

fun do_info_write :: "info_write \<Rightarrow> IPC_KV_Controller \<Rightarrow> unit kv_result" where
  "do_info_write (WResize n) c = setResizeCount n c"
| "do_info_write (WCapacity n) c = setCapacity n c"
| "do_info_write (WSize n) c = setSize n c"

fun spec_info_write :: "info_write \<Rightarrow> info_view \<Rightarrow> info_view" where
  "spec_info_write (WResize n) v = v\<lparr>iv_resize := n\<rparr>"
| "spec_info_write (WCapacity n) v = v\<lparr>iv_capacity := n\<rparr>"
| "spec_info_write (WSize n) v = v\<lparr>iv_size := n\<rparr>"

primrec run_info_writes :: "info_write list \<Rightarrow> IPC_KV_Controller \<Rightarrow> unit kv_result" where
  "run_info_writes [] c = (Return (), c)"
| "run_info_writes (w # ws) c = chain (do_info_write w c) (\<lambda>_ c'. run_info_writes ws c')"

definition open_info_transaction :: "info_write list \<Rightarrow> IPC_KV_Controller \<Rightarrow> unit kv_result" where
  "open_info_transaction ws c = chain (startInfoTransaction c) (\<lambda>_ c'. run_info_writes ws c')"

text \<open>The invariant of an open transaction that started from header \<open>i0\<close> and has so far requested the
  view \<open>v\<close>: the visible copies are those of \<open>i0\<close>, and each field of \<open>v\<close> is in the hidden copy if
  its flag is set and is the old value otherwise.\<close>

definition info_tx :: "IPC_KV_Info \<Rightarrow> info_view \<Rightarrow> IPC_KV_Controller \<Rightarrow> bool" where
  "info_tx i0 v c \<longleftrightarrow> m_has_started_info_transaction c \<and>
     (\<exists>i. m_info c = Some i \<and> m_ibuffer i = m_ibuffer i0 \<and> view_info i = view_info i0
       \<and> iv_capacity v = (if flag_set (m_info_transaction_flags c) InfoCapacity
                          then m_capacity i (\<not> info_bit i) else iv_capacity (view_info i0))
       \<and> iv_size v = (if flag_set (m_info_transaction_flags c) InfoSize
                      then m_isize i (\<not> info_bit i) else iv_size (view_info i0))
       \<and> iv_resize v = (if flag_set (m_info_transaction_flags c) InfoResizeCount
                        then m_resize i (\<not> info_bit i) else iv_resize (view_info i0)))"

lemma with_info_Some [simp]: "m_info c = Some i \<Longrightarrow> with_info c k = k i"
  by (simp add: with_info_def)

lemma info_touch [simp]: "i\<lparr>m_ibuffer := m_ibuffer i\<rparr> = i"
  by (cases i) simp

lemma controller_touch: "m_info c = Some i \<Longrightarrow> c\<lparr>m_info := Some i\<rparr> = c"
  by (cases c) simp

lemma get_info_eq:
  assumes "m_info c = Some i" and "wf_info i"
  shows "get_info field c = (Return (field i (info_bit i)), c)"
  using assms by (simp add: get_info_def interlocked_bit_info controller_touch)

lemma set_info_eq:
  assumes "m_info c = Some i" and "wf_info i" and "m_has_started_info_transaction c"
  shows "set_info write flag c =
     (Return (), c\<lparr>m_info := Some (write (\<not> info_bit i) i),
                   m_info_transaction_flags := m_info_transaction_flags c OR flag\<rparr>)"
  using assms by (simp add: set_info_def interlocked_bit_info)

lemma wf_info_same: "m_ibuffer i = m_ibuffer i0 \<Longrightarrow> wf_info i0 \<Longrightarrow> wf_info i"
  by (simp add: wf_info_def)

lemma info_tx_write:
  assumes "info_tx i0 v c" and "wf_info i0"
  shows "\<exists>c'. do_info_write w c = (Return (), c') \<and> info_tx i0 (spec_info_write w v) c'
           \<and> (\<forall>g. flag_set (m_info_transaction_flags c) g \<longrightarrow> flag_set (m_info_transaction_flags c') g)"
proof -
  from assms(1) obtain i where i: "m_info c = Some i" "m_ibuffer i = m_ibuffer i0"
    and st: "m_has_started_info_transaction c"
    by (auto simp: info_tx_def)
  have wf: "wf_info i" using i(2) assms(2) by (rule wf_info_same)
  show ?thesis
    using assms(1) i st
    by (cases w) (auto simp: setResizeCount_def setCapacity_def setSize_def set_info_eq [OF i(1) wf st]
        info_tx_def view_info_def info_bit_def flag_set_or)
qed

lemma info_tx_writes:
  assumes "info_tx i0 v c" and "wf_info i0"
  shows "\<exists>c'. run_info_writes ws c = (Return (), c') \<and> info_tx i0 (fold spec_info_write ws v) c'"
  using assms(1)
proof (induction ws arbitrary: v c)
  case (Cons w ws)
  from info_tx_write [OF Cons.prems assms(2), of w] obtain c' where
    "do_info_write w c = (Return (), c')" "info_tx i0 (spec_info_write w v) c'" by blast
  with Cons.IH show ?case by simp
qed simp

lemma info_tx_start:
  assumes "m_info c = Some i" and "\<not> m_has_started_info_transaction c"
  shows "\<exists>c'. startInfoTransaction c = (Return (), c') \<and> info_tx i (view_info i) c'"
  using assms by (simp add: startInfoTransaction_def info_tx_def)

lemma open_info_transaction_ok:
  assumes "m_info c = Some i" and "wf_info i" and "\<not> m_has_started_info_transaction c"
  shows "\<exists>c'. open_info_transaction ws c = (Return (), c')
           \<and> info_tx i (fold spec_info_write ws (view_info i)) c'"
  using info_tx_start [OF assms(1,3)] info_tx_writes [OF _ assms(2)]
  by (fastforce simp: open_info_transaction_def)

text \<open>A conditional copy of \<^verbatim>\<open>commitInfo\<close> keeps the requested view and sets the flag of its field.\<close>

lemma info_tx_copy:
  assumes tx: "info_tx i0 v c" and wf0: "wf_info i0"
    and op: "(fetch, store, flag) \<in> {(getResizeCount, setResizeCount, InfoResizeCount),
              (getCapacity, setCapacity, InfoCapacity), (getSize, setSize, InfoSize)}"
  shows "\<exists>c'. copy_unless (flag_set (m_info_transaction_flags c) flag) fetch store c = (Return (), c')
           \<and> info_tx i0 v c' \<and> flag_set (m_info_transaction_flags c') flag
           \<and> (\<forall>g. flag_set (m_info_transaction_flags c) g \<longrightarrow> flag_set (m_info_transaction_flags c') g)"
proof (cases "flag_set (m_info_transaction_flags c) flag")
  case True
  with tx show ?thesis by (simp add: copy_unless_def)
next
  case False
  from tx obtain i where i: "m_info c = Some i" "m_ibuffer i = m_ibuffer i0"
    and st: "m_has_started_info_transaction c"
    by (auto simp: info_tx_def)
  have wf: "wf_info i" using i(2) wf0 by (rule wf_info_same)
  show ?thesis
    using tx i st op False
    by (auto simp: copy_unless_def getResizeCount_def getCapacity_def getSize_def get_info_eq [OF i(1) wf]
        setResizeCount_def setCapacity_def setSize_def set_info_eq [OF i(1) wf st]
        info_tx_def view_info_def info_bit_def flag_set_or)
qed

lemma info_tx_commit:
  assumes tx: "info_tx i0 v c" and wf0: "wf_info i0"
  shows "\<exists>c' i'. commitInfo c = (Return (), c') \<and> m_info c' = Some i' \<and> wf_info i'
           \<and> view_info i' = v \<and> \<not> m_has_started_info_transaction c'"
proof -
  from info_tx_copy [OF tx wf0, of getResizeCount setResizeCount InfoResizeCount] obtain c1 where
    c1: "copy_unless (flag_set (m_info_transaction_flags c) InfoResizeCount)
           getResizeCount setResizeCount c = (Return (), c1)" "info_tx i0 v c1"
      "flag_set (m_info_transaction_flags c1) InfoResizeCount" by auto
  from info_tx_copy [OF c1(2) wf0, of getCapacity setCapacity InfoCapacity] c1(3) obtain c2 where
    c2: "copy_unless (flag_set (m_info_transaction_flags c1) InfoCapacity)
           getCapacity setCapacity c1 = (Return (), c2)" "info_tx i0 v c2"
      "flag_set (m_info_transaction_flags c2) InfoResizeCount"
      "flag_set (m_info_transaction_flags c2) InfoCapacity" by auto
  from info_tx_copy [OF c2(2) wf0, of getSize setSize InfoSize] c2(3,4) obtain c3 where
    c3: "copy_unless (flag_set (m_info_transaction_flags c2) InfoSize)
           getSize setSize c2 = (Return (), c3)" "info_tx i0 v c3"
      "flag_set (m_info_transaction_flags c3) InfoResizeCount"
      "flag_set (m_info_transaction_flags c3) InfoCapacity"
      "flag_set (m_info_transaction_flags c3) InfoSize" by auto
  from c3(2) obtain i where i: "m_info c3 = Some i" "m_ibuffer i = m_ibuffer i0"
    by (auto simp: info_tx_def)
  then have wf: "wf_info i" using wf0 wf_info_same by blast
  from tx obtain i1 where started: "m_has_started_info_transaction c" "m_info c = Some i1"
    by (auto simp: info_tx_def)
  have "commitInfo c = (Return (), c3\<lparr>m_info := Some (flip_info i),
      m_has_started_info_transaction := False\<rparr>)"
    using started c1(1) c2(1) c3(1) i(1) by (simp add: commitInfo_def flip_info_def)
  moreover have "view_info (flip_info i) = v"
    using c3 i(1) capacity.read_flip [OF wf] isize.read_flip [OF wf] resize.read_flip [OF wf]
    by (cases v) (simp add: info_tx_def view_info_def)
  ultimately show ?thesis using capacity.wf_flip [OF wf] by auto
qed

text \<open>C16. A header transaction is atomic. While it is open, readers see exactly the old capacity,
  size and resize count, whatever was staged; the commit succeeds and publishes the last value
  written to each field and the old value of every field that was not written.\<close>

theorem info_transaction_atomic:
  assumes "m_info c = Some i" and "wf_info i" and "\<not> m_has_started_info_transaction c"
  shows "\<exists>c1 i1 c2 i2.
     open_info_transaction writes c = (Return (), c1) \<and> m_info c1 = Some i1
     \<and> view_info i1 = view_info i
     \<and> commitInfo c1 = (Return (), c2) \<and> m_info c2 = Some i2 \<and> wf_info i2
     \<and> view_info i2 = fold spec_info_write writes (view_info i)
     \<and> \<not> m_has_started_info_transaction c2"
proof -
  from open_info_transaction_ok [OF assms] obtain c1 where
    c1: "open_info_transaction writes c = (Return (), c1)"
      "info_tx i (fold spec_info_write writes (view_info i)) c1" by blast
  from c1(2) obtain i1 where i1: "m_info c1 = Some i1" "view_info i1 = view_info i"
    by (auto simp: info_tx_def)
  from info_tx_commit [OF c1(2) assms(2)] c1(1) i1 show ?thesis by blast
qed

definition fresh_info :: IPC_KV_Info where
  "fresh_info = \<lparr>m_ibuffer = 0, m_capacity = (\<lambda>_. 101), m_isize = (\<lambda>_. 0), m_resize = (\<lambda>_. 0)\<rparr>"

definition fresh_controller :: IPC_KV_Controller where
  "fresh_controller =
     \<lparr>m_has_started_info_transaction = False, m_info_transaction_flags = 0,
      m_has_started_data_transaction = False, m_data_transaction_flags = 0,
      m_info = Some fresh_info, m_data = None\<rparr>"

theorem info_transaction_atomic_witness:
  "\<exists>c1 i1 c2 i2.
     open_info_transaction [WSize 1, WSize 2] fresh_controller = (Return (), c1)
     \<and> m_info c1 = Some i1 \<and> iv_size (view_info i1) = 0
     \<and> commitInfo c1 = (Return (), c2) \<and> m_info c2 = Some i2
     \<and> iv_size (view_info i2) = 2 \<and> iv_capacity (view_info i2) = 101"
proof -
  have "m_info fresh_controller = Some fresh_info" "wf_info fresh_info"
    "\<not> m_has_started_info_transaction fresh_controller"
    by (simp_all add: fresh_controller_def fresh_info_def wf_info_def)
  from info_transaction_atomic [OF this, of "[WSize 1, WSize 2]"] show ?thesis
    by (auto simp: view_info_def fresh_info_def)
qed

section \<open>Slot transactions\<close>

record slot_view =
  sv_state :: IPC_KV_Data_State
  sv_key :: bytes
  sv_size :: u64
  sv_content :: bytes

definition view_slot :: "IPC_KV_Data \<Rightarrow> slot_view" where
  "view_slot d =
     (let b = slot_bit d
      in \<lparr>sv_state = m_state d b, sv_key = m_key d b, sv_size = m_dsize d b,
          sv_content = take (unat (m_dsize d b)) (m_value d b)\<rparr>)"

text \<open>Well-formed slots: a legal selector, value arrays of the declared size, and a visible copy whose
  size and key fit their arrays.\<close>

definition key_fits :: "bytes \<Rightarrow> bool" where
  "key_fits k \<longleftrightarrow> c_str k = k \<and> length k < IPCKV_KEY_SIZE"

definition slot_ok :: "IPC_KV_Data \<Rightarrow> bool" where
  "slot_ok d \<longleftrightarrow> wf_slot d \<and> (\<forall>b. length (m_value d b) = IPCKV_DATA_SIZE)
     \<and> unat (m_dsize d (slot_bit d)) \<le> IPCKV_DATA_SIZE \<and> key_fits (m_key d (slot_bit d))"

datatype slot_write = WState IPC_KV_Data_State | WKey bytes | WData bytes | WDSize u64

text \<open>\<open>WKey\<close> and \<open>WData\<close> stand for the calls with the full length of the key or data.\<close>

fun do_slot_write :: "nat \<Rightarrow> slot_write \<Rightarrow> IPC_KV_Controller \<Rightarrow> unit kv_result" where
  "do_slot_write index (WState st) c = setDataState index st c"
| "do_slot_write index (WKey k) c = setDataKey index k (length k) c"
| "do_slot_write index (WData v) c = setData index v (word_of_nat (length v)) c"
| "do_slot_write index (WDSize n) c = setDataSize index n c"

fun slot_write_fits :: "slot_write \<Rightarrow> bool" where
  "slot_write_fits (WState _) = True"
| "slot_write_fits (WKey k) = key_fits k"
| "slot_write_fits (WData v) = (length v \<le> IPCKV_DATA_SIZE)"
| "slot_write_fits (WDSize _) = False"

fun spec_slot_write :: "slot_write \<Rightarrow> slot_view \<Rightarrow> slot_view" where
  "spec_slot_write (WState st) v = v\<lparr>sv_state := st\<rparr>"
| "spec_slot_write (WKey k) v = v\<lparr>sv_key := k\<rparr>"
| "spec_slot_write (WData d) v = v\<lparr>sv_size := word_of_nat (length d), sv_content := d\<rparr>"
| "spec_slot_write (WDSize _) v = v"

primrec run_slot_writes :: "nat \<Rightarrow> slot_write list \<Rightarrow> IPC_KV_Controller \<Rightarrow> unit kv_result" where
  "run_slot_writes index [] c = (Return (), c)"
| "run_slot_writes index (w # ws) c = chain (do_slot_write index w c) (\<lambda>_ c'. run_slot_writes index ws c')"

definition open_slot_transaction ::
    "nat \<Rightarrow> slot_write list \<Rightarrow> IPC_KV_Controller \<Rightarrow> unit kv_result" where
  "open_slot_transaction index ws c =
     chain (startDataTransaction index c) (\<lambda>_ c'. run_slot_writes index ws c')"

text \<open>The hidden copy and the flags of slot \<open>d\<close> agree with the requested view \<open>v\<close> over the old slot
  \<open>d0\<close>.\<close>

definition staged_slot :: "IPC_KV_Data \<Rightarrow> slot_view \<Rightarrow> u32 \<Rightarrow> IPC_KV_Data \<Rightarrow> bool" where
  "staged_slot d0 v flags d \<longleftrightarrow>
     slot_ok d \<and> m_dbuffer d = m_dbuffer d0 \<and> view_slot d = view_slot d0
     \<and> sv_state v = (if flag_set flags DataState then m_state d (\<not> slot_bit d)
                     else sv_state (view_slot d0))
     \<and> sv_key v = (if flag_set flags DataKey then m_key d (\<not> slot_bit d)
                   else sv_key (view_slot d0))
     \<and> key_fits (sv_key v) \<and> (flag_set flags DataValue \<longrightarrow> flag_set flags DataSize)
     \<and> (if flag_set flags DataValue
        then sv_size v = m_dsize d (\<not> slot_bit d)
             \<and> sv_content v = take (unat (sv_size v)) (m_value d (\<not> slot_bit d))
             \<and> unat (sv_size v) \<le> IPCKV_DATA_SIZE
        else sv_size v = sv_size (view_slot d0) \<and> sv_content v = sv_content (view_slot d0))"

definition slot_tx ::
    "nat \<Rightarrow> IPC_KV_Data list \<Rightarrow> slot_view \<Rightarrow> IPC_KV_Controller \<Rightarrow> bool" where
  "slot_tx index ds0 v c \<longleftrightarrow> m_has_started_data_transaction c \<and> index < length ds0 \<and>
     (\<exists>d. m_data c = Some (ds0[index := d])
          \<and> staged_slot (ds0 ! index) v (m_data_transaction_flags c) d)"

lemma slot_touch [simp]: "d\<lparr>m_dbuffer := m_dbuffer d\<rparr> = d"
  by (cases d) simp

lemma data_touch: "m_data c = Some ds \<Longrightarrow> c\<lparr>m_data := Some ds\<rparr> = c"
  by (cases c) simp

lemma set_slot_eq:
  assumes "m_data c = Some (ds[index := d])" and "index < length ds" and "wf_slot d"
  shows "set_slot index write flags c =
     (Return (), c\<lparr>m_data := Some (ds[index := write (\<not> slot_bit d) d]),
                   m_data_transaction_flags := m_data_transaction_flags c OR flags\<rparr>)"
  using assms by (simp add: set_slot_def with_slot_def interlocked_bit_slot)

lemma get_slot_eq:
  assumes "m_data c = Some (ds[index := d])" and "index < length ds" and "wf_slot d"
  shows "get_slot index field c = (Return (field d (slot_bit d)), c)"
  using assms by (simp add: get_slot_def with_slot_def interlocked_bit_slot data_touch)

text \<open>What each staging step does to the hidden copy, as a function of the slot alone.\<close>

lemma staged_state:
  "staged_slot d0 v f d \<Longrightarrow>
   staged_slot d0 (v\<lparr>sv_state := st\<rparr>) (f OR DataState) (d\<lparr>m_state := (m_state d)(\<not> slot_bit d := st)\<rparr>)"
  by (auto simp: staged_slot_def slot_ok_def view_slot_def slot_bit_def wf_slot_def flag_set_or Let_def)

lemma staged_key:
  "staged_slot d0 v f d \<Longrightarrow> key_fits k \<Longrightarrow>
   staged_slot d0 (v\<lparr>sv_key := k\<rparr>) (f OR DataKey) (d\<lparr>m_key := (m_key d)(\<not> slot_bit d := k)\<rparr>)"
  by (auto simp: staged_slot_def slot_ok_def view_slot_def slot_bit_def wf_slot_def flag_set_or Let_def)

lemma staged_size:
  "staged_slot d0 v f d \<Longrightarrow> \<not> flag_set f DataValue \<Longrightarrow>
   staged_slot d0 v (f OR DataSize) (d\<lparr>m_dsize := (m_dsize d)(\<not> slot_bit d := n)\<rparr>)"
  by (auto simp: staged_slot_def slot_ok_def view_slot_def slot_bit_def wf_slot_def flag_set_or Let_def)

lemma staged_data:
  assumes "staged_slot d0 v f d" and "unat n \<le> IPCKV_DATA_SIZE" and "unat n \<le> length x"
  shows "staged_slot d0 (v\<lparr>sv_size := n, sv_content := take (unat n) x\<rparr>) (f OR (DataValue OR DataSize))
           (d\<lparr>m_value := (m_value d)(\<not> slot_bit d := take (unat n) x @ drop (unat n) (m_value d (\<not> slot_bit d))),
              m_dsize := (m_dsize d)(\<not> slot_bit d := n)\<rparr>)"
  using assms
  by (auto simp: staged_slot_def slot_ok_def view_slot_def slot_bit_def wf_slot_def flag_set_or Let_def)

lemma take_c_str_fits: "key_fits k \<Longrightarrow> take (length k) (c_str k) = k"
  by (simp add: key_fits_def)

lemma unat_data_length: "length x \<le> IPCKV_DATA_SIZE \<Longrightarrow> unat (word_of_nat (length x) :: u64) = length x"
  by (simp add: IPCKV_DATA_SIZE_def unat_of_nat take_bit_nat_eq_self)

lemma slot_txE:
  assumes "slot_tx index ds0 v c"
  obtains d where "m_data c = Some (ds0[index := d])" "index < length ds0" "wf_slot d"
    "staged_slot (ds0 ! index) v (m_data_transaction_flags c) d" "m_has_started_data_transaction c"
  using assms by (auto simp: slot_tx_def staged_slot_def slot_ok_def)

lemma slot_tx_write:
  assumes tx: "slot_tx index ds0 v c" and fits: "slot_write_fits w"
  shows "\<exists>c'. do_slot_write index w c = (Return (), c') \<and> slot_tx index ds0 (spec_slot_write w v) c'"
proof -
  from tx obtain d where d: "m_data c = Some (ds0[index := d])" "index < length ds0" "wf_slot d"
    and st: "staged_slot (ds0 ! index) v (m_data_transaction_flags c) d"
    and on: "m_has_started_data_transaction c" by (rule slot_txE)
  note eqs = set_slot_eq [OF d]
  show ?thesis
  proof (cases w)
    case (WState x)
    with staged_state [OF st, of x] d on show ?thesis
      by (simp add: setDataState_def eqs slot_tx_def) blast
  next
    case (WKey k)
    with fits have k: "key_fits k" by simp
    then have "length (take (length k) (c_str k)) < IPCKV_KEY_SIZE"
      by (simp add: key_fits_def)
    with WKey k staged_key [OF st k] d on show ?thesis
      by (simp add: setDataKey_def eqs slot_tx_def take_c_str_fits not_le) blast
  next
    case (WData x)
    with fits have x: "length x \<le> IPCKV_DATA_SIZE" by simp
    with WData staged_data [OF st, of "word_of_nat (length x)" x] d on show ?thesis
      by (simp add: setData_def eqs slot_tx_def unat_data_length not_less) blast
  qed (use fits in simp)
qed

lemma slot_tx_writes:
  assumes "slot_tx index ds0 v c" and "list_all slot_write_fits ws"
  shows "\<exists>c'. run_slot_writes index ws c = (Return (), c')
           \<and> slot_tx index ds0 (fold spec_slot_write ws v) c'"
  using assms
proof (induction ws arbitrary: v c)
  case (Cons w ws)
  from Cons.prems slot_tx_write [of index ds0 v c w] obtain c' where
    "do_slot_write index w c = (Return (), c')" "slot_tx index ds0 (spec_slot_write w v) c'" by auto
  with Cons show ?case by simp
qed simp

lemma slot_tx_start:
  assumes "m_data c = Some ds" and "index < length ds" and "slot_ok (ds ! index)"
    and "\<not> m_has_started_data_transaction c"
  shows "\<exists>c'. startDataTransaction index c = (Return (), c')
           \<and> slot_tx index ds (view_slot (ds ! index)) c' \<and> m_data_transaction_flags c' = 0"
  using assms
  by (auto simp: startDataTransaction_def slot_tx_def staged_slot_def slot_ok_def view_slot_def Let_def
      intro!: exI [of _ "ds ! index"])

text \<open>The four conditional copies of \<^verbatim>\<open>commitData\<close> keep the requested view and set their flags.\<close>

definition keeps_flags :: "IPC_KV_Controller \<Rightarrow> IPC_KV_Controller \<Rightarrow> bool" where
  "keeps_flags c c' \<longleftrightarrow>
     (\<forall>g. flag_set (m_data_transaction_flags c) g \<longrightarrow> flag_set (m_data_transaction_flags c') g)"

lemma copy_size_ok:
  assumes "slot_tx index ds0 v c"
  shows "\<exists>c'. copy_unless (flag_set (m_data_transaction_flags c) DataSize)
            (getDataSize index) (setDataSize index) c = (Return (), c')
           \<and> slot_tx index ds0 v c' \<and> keeps_flags c c'"
  using assms
proof (rule slot_txE)
  fix d assume d: "m_data c = Some (ds0[index := d])" "index < length ds0" "wf_slot d"
    and st: "staged_slot (ds0 ! index) v (m_data_transaction_flags c) d"
    and on: "m_has_started_data_transaction c"
  show ?thesis
  proof (cases "flag_set (m_data_transaction_flags c) DataSize")
    case False
    with st have "\<not> flag_set (m_data_transaction_flags c) DataValue"
      by (auto simp: staged_slot_def)
    with staged_size [OF st, of "m_dsize d (slot_bit d)"] d on False show ?thesis
      by (auto simp: copy_unless_def getDataSize_def get_slot_eq [OF d] setDataSize_def
          set_slot_eq [OF d] slot_tx_def keeps_flags_def flag_set_or)
  qed (use assms in \<open>simp add: copy_unless_def keeps_flags_def\<close>)
qed

lemma copy_state_ok:
  assumes "slot_tx index ds0 v c"
  shows "\<exists>c'. copy_unless (flag_set (m_data_transaction_flags c) DataState)
            (getDataState index) (setDataState index) c = (Return (), c')
           \<and> slot_tx index ds0 v c' \<and> keeps_flags c c'
           \<and> flag_set (m_data_transaction_flags c') DataState"
  using assms
proof (rule slot_txE)
  fix d assume d: "m_data c = Some (ds0[index := d])" "index < length ds0" "wf_slot d"
    and st: "staged_slot (ds0 ! index) v (m_data_transaction_flags c) d"
    and on: "m_has_started_data_transaction c"
  show ?thesis
  proof (cases "flag_set (m_data_transaction_flags c) DataState")
    case False
    with st have "v\<lparr>sv_state := m_state d (slot_bit d)\<rparr> = v"
      by (cases v) (auto simp: staged_slot_def view_slot_def Let_def)
    with staged_state [OF st, of "m_state d (slot_bit d)"] d on False show ?thesis
      by (auto simp: copy_unless_def getDataState_def get_slot_eq [OF d] setDataState_def
          set_slot_eq [OF d] slot_tx_def keeps_flags_def flag_set_or)
  qed (use assms in \<open>simp add: copy_unless_def keeps_flags_def\<close>)
qed

lemma copy_value_ok:
  assumes "slot_tx index ds0 v c"
  shows "\<exists>c'. copy_unless (flag_set (m_data_transaction_flags c) DataValue) (getData index)
            (\<lambda>x c'. chain (getDataSize index c') (\<lambda>n c''. setData index x n c'')) c = (Return (), c')
           \<and> slot_tx index ds0 v c' \<and> keeps_flags c c'
           \<and> flag_set (m_data_transaction_flags c') DataValue"
  using assms
proof (rule slot_txE)
  fix d assume d: "m_data c = Some (ds0[index := d])" "index < length ds0" "wf_slot d"
    and st: "staged_slot (ds0 ! index) v (m_data_transaction_flags c) d"
    and on: "m_has_started_data_transaction c"
  let ?n = "m_dsize d (slot_bit d)" and ?x = "m_value d (slot_bit d)"
  from st have n: "unat ?n \<le> IPCKV_DATA_SIZE" "unat ?n \<le> length ?x"
    by (auto simp: staged_slot_def slot_ok_def)
  show ?thesis
  proof (cases "flag_set (m_data_transaction_flags c) DataValue")
    case False
    with st have "v\<lparr>sv_size := ?n, sv_content := take (unat ?n) ?x\<rparr> = v"
      by (cases v) (auto simp: staged_slot_def view_slot_def Let_def)
    with staged_data [OF st n] n d on False show ?thesis
      by (auto simp: copy_unless_def getData_def getDataSize_def get_slot_eq [OF d] setData_def
          set_slot_eq [OF d] slot_tx_def keeps_flags_def flag_set_or not_less)
  qed (use assms in \<open>simp add: copy_unless_def keeps_flags_def\<close>)
qed

lemma copy_key_ok:
  assumes "slot_tx index ds0 v c"
  shows "\<exists>c'. copy_unless (flag_set (m_data_transaction_flags c) DataKey) (getDataKey index)
            (\<lambda>key c'. setDataKey index key (length (c_str key)) c') c = (Return (), c')
           \<and> slot_tx index ds0 v c' \<and> keeps_flags c c'
           \<and> flag_set (m_data_transaction_flags c') DataKey"
  using assms
proof (rule slot_txE)
  fix d assume d: "m_data c = Some (ds0[index := d])" "index < length ds0" "wf_slot d"
    and st: "staged_slot (ds0 ! index) v (m_data_transaction_flags c) d"
    and on: "m_has_started_data_transaction c"
  let ?k = "m_key d (slot_bit d)"
  from st have k: "key_fits ?k" by (auto simp: staged_slot_def slot_ok_def)
  then have len: "c_str ?k = ?k" "length ?k < IPCKV_KEY_SIZE" by (auto simp: key_fits_def)
  show ?thesis
  proof (cases "flag_set (m_data_transaction_flags c) DataKey")
    case False
    with st have "v\<lparr>sv_key := ?k\<rparr> = v"
      by (cases v) (auto simp: staged_slot_def view_slot_def Let_def)
    with staged_key [OF st k] len d on False show ?thesis
      by (auto simp: copy_unless_def getDataKey_def get_slot_eq [OF d] setDataKey_def
          set_slot_eq [OF d] slot_tx_def keeps_flags_def flag_set_or not_le)
  qed (use assms in \<open>simp add: copy_unless_def keeps_flags_def\<close>)
qed

lemma flip_staged:
  assumes "staged_slot d0 v f d" and "flag_set f DataState" "flag_set f DataKey" "flag_set f DataValue"
  shows "view_slot (flip_slot d) = v \<and> slot_ok (flip_slot d)"
proof -
  from assms(1) have wf: "wf_slot d" by (simp add: staged_slot_def slot_ok_def)
  then have "slot_bit (flip_slot d) \<longleftrightarrow> \<not> slot_bit d" "wf_slot (flip_slot d)"
    by (auto simp: buffer_defs)
  moreover have "m_state (flip_slot d) = m_state d" "m_key (flip_slot d) = m_key d"
    "m_value (flip_slot d) = m_value d" "m_dsize (flip_slot d) = m_dsize d"
    by (simp_all add: flip_slot_def)
  ultimately show ?thesis
    using assms by (cases v) (auto simp: staged_slot_def view_slot_def slot_ok_def Let_def)
qed

lemma slot_tx_commit:
  assumes tx: "slot_tx index ds0 v c"
  shows "\<exists>c' d'. commitData index c = (Return (), c') \<and> m_data c' = Some (ds0[index := d'])
           \<and> slot_ok d' \<and> view_slot d' = v \<and> \<not> m_has_started_data_transaction c'"
proof -
  from copy_size_ok [OF tx] obtain c1 where
    c1: "copy_unless (flag_set (m_data_transaction_flags c) DataSize)
            (getDataSize index) (setDataSize index) c = (Return (), c1)" "slot_tx index ds0 v c1"
    by blast
  from copy_state_ok [OF c1(2)] obtain c2 where
    c2: "copy_unless (flag_set (m_data_transaction_flags c1) DataState)
            (getDataState index) (setDataState index) c1 = (Return (), c2)" "slot_tx index ds0 v c2"
      "flag_set (m_data_transaction_flags c2) DataState"
    by blast
  from copy_value_ok [OF c2(2)] obtain c3 where
    c3: "copy_unless (flag_set (m_data_transaction_flags c2) DataValue) (getData index)
            (\<lambda>x c'. chain (getDataSize index c') (\<lambda>n c''. setData index x n c'')) c2 = (Return (), c3)"
      "slot_tx index ds0 v c3" "keeps_flags c2 c3" "flag_set (m_data_transaction_flags c3) DataValue"
    by blast
  from copy_key_ok [OF c3(2)] obtain c4 where
    c4: "copy_unless (flag_set (m_data_transaction_flags c3) DataKey) (getDataKey index)
            (\<lambda>key c'. setDataKey index key (length (c_str key)) c') c3 = (Return (), c4)"
      "slot_tx index ds0 v c4" "keeps_flags c3 c4" "flag_set (m_data_transaction_flags c4) DataKey"
    by blast
  from c4(2) obtain d where d: "m_data c4 = Some (ds0[index := d])" "index < length ds0"
    and st: "staged_slot (ds0 ! index) v (m_data_transaction_flags c4) d" by (rule slot_txE)
  from tx have on: "m_has_started_data_transaction c" "\<exists>ds. m_data c = Some ds"
    by (auto simp: slot_tx_def)
  have "commitData index c = (Return (), c4\<lparr>m_data := Some (ds0[index := flip_slot d]),
      m_has_started_data_transaction := False\<rparr>)"
    using on c1(1) c2(1) c3(1) c4(1) d
    by (auto simp: commitData_def with_slot_def flip_slot_def)
  moreover have "view_slot (flip_slot d) = v \<and> slot_ok (flip_slot d)"
    using c2(3) c3(3,4) c4(3,4) by (intro flip_staged [OF st]) (auto simp: keeps_flags_def)
  ultimately show ?thesis by auto
qed

lemma open_slot_transaction_ok:
  assumes "m_data c = Some ds" and "index < length ds" and "slot_ok (ds ! index)"
    and "\<not> m_has_started_data_transaction c" and "list_all slot_write_fits ws"
  shows "\<exists>c'. open_slot_transaction index ws c = (Return (), c')
           \<and> slot_tx index ds (fold spec_slot_write ws (view_slot (ds ! index))) c'"
  using slot_tx_start [OF assms(1-4)] slot_tx_writes [OF _ assms(5)]
  by (fastforce simp: open_slot_transaction_def)

text \<open>C17. A slot transaction made of state, key and data writes that fit their arrays is atomic: while
  it is open the slot's visible state, key, size and content are the old ones; the commit succeeds,
  publishes the last value written to each field and the old value of the others, leaves every
  other slot alone and keeps the slot well formed.\<close>

theorem slot_transaction_atomic:
  assumes "m_data c = Some ds" and "index < length ds" and "slot_ok (ds ! index)"
    and "\<not> m_has_started_data_transaction c" and "list_all slot_write_fits writes"
  shows "\<exists>c1 d1 c2 d2.
     open_slot_transaction index writes c = (Return (), c1)
     \<and> m_data c1 = Some (ds[index := d1]) \<and> view_slot d1 = view_slot (ds ! index)
     \<and> commitData index c1 = (Return (), c2) \<and> m_data c2 = Some (ds[index := d2]) \<and> slot_ok d2
     \<and> view_slot d2 = fold spec_slot_write writes (view_slot (ds ! index))"
proof -
  from open_slot_transaction_ok [OF assms] obtain c1 where
    c1: "open_slot_transaction index writes c = (Return (), c1)"
      "slot_tx index ds (fold spec_slot_write writes (view_slot (ds ! index))) c1" by blast
  from c1(2) obtain d1 where "m_data c1 = Some (ds[index := d1])"
      "view_slot d1 = view_slot (ds ! index)"
    by (auto simp: slot_tx_def staged_slot_def)
  with slot_tx_commit [OF c1(2)] c1(1) show ?thesis by blast
qed

definition fresh_slot :: IPC_KV_Data where
  "fresh_slot = \<lparr>m_state = (\<lambda>_. Empty), m_key = (\<lambda>_. []),
     m_value = (\<lambda>_. replicate IPCKV_DATA_SIZE (CHR 0x00)), m_dsize = (\<lambda>_. 0), m_dbuffer = 0\<rparr>"

definition slots_controller :: IPC_KV_Controller where
  "slots_controller = fresh_controller\<lparr>m_data := Some [fresh_slot, fresh_slot]\<rparr>"

lemma fresh_slot_ok: "slot_ok fresh_slot"
  by (simp add: slot_ok_def fresh_slot_def buffer_defs key_fits_def c_str_def IPCKV_KEY_SIZE_def
      IPCKV_DATA_SIZE_def)

theorem slot_transaction_atomic_witness:
  "\<exists>c1 c2 d2.
     open_slot_transaction 1 [WKey ''k'', WData ''ab'', WState Occupied, WData ''xyz''] slots_controller
       = (Return (), c1)
     \<and> commitData 1 c1 = (Return (), c2) \<and> m_data c2 = Some [fresh_slot, d2]
     \<and> view_slot d2 = \<lparr>sv_state = Occupied, sv_key = ''k'', sv_size = 3, sv_content = ''xyz''\<rparr>"
proof -
  have "m_data slots_controller = Some [fresh_slot, fresh_slot]" "1 < length [fresh_slot, fresh_slot]"
    "slot_ok ([fresh_slot, fresh_slot] ! 1)" "\<not> m_has_started_data_transaction slots_controller"
    "list_all slot_write_fits [WKey ''k'', WData ''ab'', WState Occupied, WData ''xyz'']"
    by (simp_all add: slots_controller_def fresh_controller_def fresh_slot_ok key_fits_def c_str_def
        IPCKV_KEY_SIZE_def IPCKV_DATA_SIZE_def)
  from slot_transaction_atomic [OF this] show ?thesis
    by (fastforce simp: view_slot_def Let_def)
qed

text \<open>A transaction that only changes the size of a slot is lost: \<^verbatim>\<open>commitData\<close> finds the value flag
  unset, copies the visible value together with the visible size, and so overwrites the staged
  size. The commit reports success and the reader sees the old size.\<close>

theorem size_only_transaction_lost:
  assumes "m_data c = Some ds" and "index < length ds" and "slot_ok (ds ! index)"
    and "\<not> m_has_started_data_transaction c"
  shows "\<exists>c2 d2. chain (open_slot_transaction index [WDSize n] c) (\<lambda>_. commitData index) = (Return (), c2)
     \<and> m_data c2 = Some (ds[index := d2]) \<and> view_slot d2 = view_slot (ds ! index)"
proof -
  from slot_tx_start [OF assms] obtain c1 where
    c1: "startDataTransaction index c = (Return (), c1)"
      "slot_tx index ds (view_slot (ds ! index)) c1" "m_data_transaction_flags c1 = 0" by blast
  from c1(2) obtain d where d: "m_data c1 = Some (ds[index := d])" "index < length ds" "wf_slot d"
    and st: "staged_slot (ds ! index) (view_slot (ds ! index)) (m_data_transaction_flags c1) d"
    and on: "m_has_started_data_transaction c1" by (rule slot_txE)
  obtain c2 where c2: "setDataSize index n c1 = (Return (), c2)"
      "slot_tx index ds (view_slot (ds ! index)) c2"
    using staged_size [OF st, of n] d on c1(3)
    by (auto simp: setDataSize_def set_slot_eq [OF d] slot_tx_def)
  from slot_tx_commit [OF c2(2)] c1(1) c2(1) show ?thesis
    by (auto simp: open_slot_transaction_def)
qed

theorem size_only_transaction_lost_witness:
  "\<exists>c2 d2. chain (open_slot_transaction 0 [WDSize 7] slots_controller) (\<lambda>_. commitData 0) = (Return (), c2)
     \<and> m_data c2 = Some [d2, fresh_slot] \<and> sv_size (view_slot d2) = 0"
proof -
  have "m_data slots_controller = Some [fresh_slot, fresh_slot]" "0 < length [fresh_slot, fresh_slot]"
    "slot_ok ([fresh_slot, fresh_slot] ! 0)" "\<not> m_has_started_data_transaction slots_controller"
    by (simp_all add: slots_controller_def fresh_controller_def fresh_slot_ok)
  from size_only_transaction_lost [OF this, of 7] show ?thesis
    by (fastforce simp: view_slot_def fresh_slot_def Let_def)
qed

end
