(* ===== verification/Ipc_Object.thy ===== *)
theory Ipc_Object
  imports Weak_Objects Ipc_Controller
begin

text \<open>
  The \<^verbatim>\<open>ipc\<close> object of the scripts: \<^verbatim>\<open>ipc.init\<close> (\<^verbatim>\<open>create_shell_context\<close>) and the functions \<^verbatim>\<open>set\<close>, \<^verbatim>\<open>get\<close> and
  \<^verbatim>\<open>close\<close> of the objects it returns (\<^verbatim>\<open>initialize_objects\<close>). The class \<^verbatim>\<open>IPC_KV\<close> is in a library of which
  the repository only has the header, and V8's value serializer is V8's; both are parameters. The
  properties: a stored value is read back, a closed object refuses every call without reaching the
  library, and external memory is returned.
\<close>

section \<open>Parameters and state\<close>

text \<open>\<open>Inl\<close> is the text of a C++ exception. \<open>kv_get\<close> gives the bytes it stored in the caller's buffer of
  \<^verbatim>\<open>IPCKV_DATA_SIZE\<close> bytes, or \<open>None\<close> when the key is unknown.\<close>

record 'k ipc_kv =
  kv_new :: "bytes \<Rightarrow> 'k \<Rightarrow> (string + nat) \<times> 'k"
  kv_set :: "nat \<Rightarrow> bytes \<Rightarrow> bytes \<Rightarrow> 'k \<Rightarrow> (string + unit) \<times> 'k"
  kv_get :: "nat \<Rightarrow> bytes \<Rightarrow> 'k \<Rightarrow> (string + bytes option) \<times> 'k"
  kv_close :: "nat \<Rightarrow> 'k \<Rightarrow> (string + unit) \<times> 'k"
  sizeof_IPC_KV :: int
  serialize :: "js_value \<Rightarrow> bytes option"
  deserialize :: "bytes \<Rightarrow> js_value option"

record 'k ipc =
  kernel :: 'k
  ipc_objects :: "nat heap"   \<comment> \<open>contexts are \<^verbatim>\<open>IPC_KV\<close> instances\<close>

section \<open>The functions\<close>

text \<open>The error texts of \<^verbatim>\<open>ipc.init\<close> name \<^verbatim>\<open>db.init\<close>, as in the source.\<close>

definition ipc_init :: "'k ipc_kv \<Rightarrow> js_args \<Rightarrow> 'k ipc \<Rightarrow> (js_return, 'k ipc) result" where
  "ipc_init api args s =
     (if length args < 1 then (Throw ''invalid function signature for db.init'', s)
      else if \<not> IsString (arg args 0)
      then (Throw ''invalid first parameter, must be a string for db.init'', s)
      else or_throw (from_v8_string (arg args 0)) s (\<lambda>name.
        case kv_new api (c_str name) (kernel s) of
          (Inl msg, k) \<Rightarrow> (Throw msg, s\<lparr>kernel := k\<rparr>)
        | (Inr kv, k) \<Rightarrow>
            let (object, h) = new_object (\<lambda>_. sizeof_IPC_KV api) kv (ipc_objects s)
            in (Return (RObject object), s\<lparr>kernel := k, ipc_objects := h\<rparr>)))"

definition ipc_set :: "'k ipc_kv \<Rightarrow> nat \<Rightarrow> js_args \<Rightarrow> 'k ipc \<Rightarrow> (js_return, 'k ipc) result" where
  "ipc_set api this args s =
     (case internal_pointer this (ipc_objects s) of
        None \<Rightarrow> (Throw ''invalid function pointer for ipc.set'', s)
      | Some kv \<Rightarrow>
          if length args < 2 then (Throw ''invalid function signature for ipc.set'', s)
          else if \<not> IsString (arg args 0)
          then (Throw ''invalid first parameter, must be a string for ipc.set'', s)
          else or_throw (from_v8_string (arg args 0)) s (\<lambda>key.
            case serialize api (arg args 1) of
              None \<Rightarrow> (Throw ''invalid object given, unable to serialize for ipc.set'', s)
            | Some buffer \<Rightarrow>
                (case kv_set api kv key buffer (kernel s) of
                   (Inl msg, k) \<Rightarrow> (Throw msg, s\<lparr>kernel := k\<rparr>)
                 | (Inr _, k) \<Rightarrow> (Return RUndefined, s\<lparr>kernel := k\<rparr>))))"

definition ipc_get :: "'k ipc_kv \<Rightarrow> nat \<Rightarrow> js_args \<Rightarrow> 'k ipc \<Rightarrow> (js_return, 'k ipc) result" where
  "ipc_get api this args s =
     (case internal_pointer this (ipc_objects s) of
        None \<Rightarrow> (Throw ''invalid function pointer for ipc.get'', s)
      | Some kv \<Rightarrow>
          if length args < 1 then (Throw ''invalid function signature for ipc.get'', s)
          else if \<not> IsString (arg args 0)
          then (Throw ''invalid first parameter, must be a string for ipc.get'', s)
          else or_throw (from_v8_string (arg args 0)) s (\<lambda>key.
            case kv_get api kv key (kernel s) of
              (Inl msg, k) \<Rightarrow> (Throw msg, s\<lparr>kernel := k\<rparr>)
            | (Inr None, k) \<Rightarrow> (Return RNull, s\<lparr>kernel := k\<rparr>)
            | (Inr (Some buffer), k) \<Rightarrow>
                if IPCKV_DATA_SIZE < length buffer then (Crash, s\<lparr>kernel := k\<rparr>)
                else (case deserialize api buffer of
                        None \<Rightarrow> (Throw ''unable to deserialize value for ipc.get'', s\<lparr>kernel := k\<rparr>)
                      | Some value \<Rightarrow> (Return (RValue value), s\<lparr>kernel := k\<rparr>))))"

definition ipc_close :: "'k ipc_kv \<Rightarrow> nat \<Rightarrow> js_args \<Rightarrow> 'k ipc \<Rightarrow> (js_return, 'k ipc) result" where
  "ipc_close api this args s =
     (case internal_pointer this (ipc_objects s) of
        None \<Rightarrow> (Throw ''invalid function pointer for ipc.close'', s)
      | Some kv \<Rightarrow>
          (case kv_close api kv (kernel s) of
             (Inl msg, k) \<Rightarrow> (Throw msg, s\<lparr>kernel := k\<rparr>)
           | (Inr _, k) \<Rightarrow>
               (Return RUndefined,
                s\<lparr>kernel := k, ipc_objects := clear_pointer this (ipc_objects s)\<rparr>)))"

text \<open>The weak callback of \<^verbatim>\<open>ipc.init\<close>.\<close>

definition ipc_collected :: "'k ipc_kv \<Rightarrow> nat \<Rightarrow> 'k ipc \<Rightarrow> 'k ipc" where
  "ipc_collected api object s =
     s\<lparr>ipc_objects := collect (\<lambda>_. sizeof_IPC_KV api) object (ipc_objects s)\<rparr>"

section \<open>Documented behaviour of the library\<close>

text \<open>\<open>stored kv key k\<close> is what the store behind \<open>kv\<close> holds. Keys shorter than 260 bytes and values of at
  most 2048 bytes can be stored; reading does not change the store; a value V8 serialized can be
  deserialized again.\<close>

definition ipc_laws :: "'k ipc_kv \<Rightarrow> (nat \<Rightarrow> bytes \<Rightarrow> 'k \<Rightarrow> bytes option) \<Rightarrow> bool" where
  "ipc_laws api stored \<longleftrightarrow>
     (\<forall>kv key data k. length key < 260 \<longrightarrow> length data \<le> IPCKV_DATA_SIZE \<longrightarrow>
        (\<exists>k'. kv_set api kv key data k = (Inr (), k') \<and> stored kv key k' = Some data
            \<and> (\<forall>other. other \<noteq> key \<longrightarrow> stored kv other k' = stored kv other k)))
     \<and> (\<forall>kv key k. \<exists>k'. kv_get api kv key k = (Inr (stored kv key k), k')
            \<and> (\<forall>kv' key'. stored kv' key' k' = stored kv' key' k))
     \<and> (\<forall>v b. serialize api v = Some b \<longrightarrow> deserialize api b = Some v)"

lemma ipc_facts:
  assumes "ipc_laws api stored"
  shows kv_set_stores: "length key < 260 \<Longrightarrow> length data \<le> IPCKV_DATA_SIZE \<Longrightarrow>
      \<exists>k'. kv_set api kv key data k = (Inr (), k') \<and> stored kv key k' = Some data
         \<and> (\<forall>other. other \<noteq> key \<longrightarrow> stored kv other k' = stored kv other k)"
    and kv_get_reads: "\<exists>k'. kv_get api kv key k = (Inr (stored kv key k), k')
         \<and> (\<forall>kv' key'. stored kv' key' k' = stored kv' key' k)"
    and kv_deserialize: "serialize api v = Some b \<Longrightarrow> deserialize api b = Some v"
  using assms unfolding ipc_laws_def by blast+

interpretation ipc_memory: weak_handle "\<lambda>_ :: nat. sizeof_IPC_KV api" "\<lambda>_ _. True" for api
  by unfold_locales simp

section \<open>Properties\<close>

text \<open>A value stored under a key is read back: after \<^verbatim>\<open>set(key, value)\<close> succeeded, \<^verbatim>\<open>get(key)\<close> on the same
  object returns that value, and \<^verbatim>\<open>get\<close> of any other key answers as before.\<close>
theorem ipc_set_get_roundtrip:
  assumes "ipc_laws api stored" and "internal_pointer this (ipc_objects s) = Some kv"
    and "length (utf8 key) < 260" and "serialize api v = Some b" and "length b \<le> IPCKV_DATA_SIZE"
  shows "\<exists>s'. ipc_set api this [Str key, v] s = (Return RUndefined, s')
       \<and> (\<exists>s''. ipc_get api this [Str key] s' = (Return (RValue v), s''))
       \<and> (\<forall>other. utf8 other \<noteq> utf8 key \<longrightarrow>
            fst (ipc_get api this [Str other] s') = fst (ipc_get api this [Str other] s))"
proof -
  from kv_set_stores [OF assms(1,3,5), of kv "kernel s"] obtain k' where k':
    "kv_set api kv (utf8 key) b (kernel s) = (Inr (), k')" "stored kv (utf8 key) k' = Some b"
    "\<And>other. other \<noteq> utf8 key \<Longrightarrow> stored kv other k' = stored kv other (kernel s)" by blast
  let ?s' = "s\<lparr>kernel := k'\<rparr>"
  have set: "ipc_set api this [Str key, v] s = (Return RUndefined, ?s')"
    using assms(2,4) k'(1) by (simp add: ipc_set_def)
  have get: "fst (ipc_get api this [Str x] t) =
      (case stored kv (utf8 x) (kernel t) of
         None \<Rightarrow> Return RNull
       | Some d \<Rightarrow> if IPCKV_DATA_SIZE < length d then Crash
                 else case deserialize api d of
                        None \<Rightarrow> Throw ''unable to deserialize value for ipc.get''
                      | Some w \<Rightarrow> Return (RValue w))"
    if "internal_pointer this (ipc_objects t) = Some kv" for x t
  proof -
    from kv_get_reads [OF assms(1), of kv "utf8 x" "kernel t"] obtain k'' where
      "kv_get api kv (utf8 x) (kernel t) = (Inr (stored kv (utf8 x) (kernel t)), k'')" by blast
    with that show ?thesis by (simp add: ipc_get_def split: option.split)
  qed
  have "fst (ipc_get api this [Str key] ?s') = Return (RValue v)"
    using get [of ?s' key] assms(2,5) k'(2) kv_deserialize [OF assms(1,4)] by simp
  then have "\<exists>s''. ipc_get api this [Str key] ?s' = (Return (RValue v), s'')"
    by (metis prod.collapse)
  moreover have "fst (ipc_get api this [Str other] ?s') = fst (ipc_get api this [Str other] s)"
    if "utf8 other \<noteq> utf8 key" for other
    using get [of ?s' other] get [of s other] assms(2) k'(3) [OF that] by simp
  ultimately show ?thesis using set by blast
qed

text \<open>A closed object is dead: after \<^verbatim>\<open>close()\<close> every further \<^verbatim>\<open>set\<close>, \<^verbatim>\<open>get\<close> or \<^verbatim>\<open>close\<close> on it throws and neither
  reaches the library nor changes anything, so the store cannot be used after it was closed.\<close>
theorem ipc_closed_is_dead:
  assumes "ipc_close api this args s = (Return r, s')"
  shows "(\<exists>msg. ipc_set api this a1 s' = (Throw msg, s'))
       \<and> (\<exists>msg. ipc_get api this a2 s' = (Throw msg, s'))
       \<and> (\<exists>msg. ipc_close api this a3 s' = (Throw msg, s'))"
proof -
  have "internal_pointer this (ipc_objects s') = None"
    using assms by (auto simp: ipc_close_def split: option.splits prod.splits sum.splits)
  then show ?thesis by (simp add: ipc_set_def ipc_get_def ipc_close_def)
qed

text \<open>External memory is balanced for \<^verbatim>\<open>ipc\<close> objects: in every sequence of creations, closes and
  collections the amount reported to V8 is the size of one \<^verbatim>\<open>IPC_KV\<close> per live handler.\<close>
theorem ipc_external_memory:
  "external_memory (heap_events (\<lambda>_ :: nat. sizeof_IPC_KV api) (\<lambda>_ _. True) es)
     = sizeof_IPC_KV api * int (length (handlers (heap_events (\<lambda>_ :: nat. sizeof_IPC_KV api) (\<lambda>_ _. True) es)))"
  using ipc_memory.memory_balanced [of api es] by (simp add: sum_list_triv)

section \<open>Witnesses\<close>

text \<open>A library that keeps one association of keys to values for all instances.\<close>

definition sample_kv :: "(bytes \<rightharpoonup> bytes) ipc_kv" where
  "sample_kv = \<lparr>kv_new = (\<lambda>_ k. (Inr 0, k)), kv_set = (\<lambda>_ key d k. (Inr (), k(key \<mapsto> d))),
     kv_get = (\<lambda>_ key k. (Inr (k key), k)), kv_close = (\<lambda>_ k. (Inr (), k)), sizeof_IPC_KV = 48,
     serialize = (\<lambda>v. if v = Null then Some ''0'' else None),
     deserialize = (\<lambda>b. if b = ''0'' then Some Null else None)\<rparr>"

lemma sample_kv_laws: "ipc_laws sample_kv (\<lambda>_ key k. k key)"
  by (simp add: ipc_laws_def sample_kv_def)

definition sample_ipc :: "(bytes \<rightharpoonup> bytes) ipc" where
  "sample_ipc = \<lparr>kernel = Map.empty,
     ipc_objects = snd (new_object (\<lambda>_. 48) 0 empty_heap)\<rparr>"

lemma sample_ipc_pointer: "internal_pointer 0 (ipc_objects sample_ipc) = Some 0"
  by (simp add: sample_ipc_def internal_pointer_def new_object_def empty_heap_def)

theorem ipc_set_get_roundtrip_witness:
  "\<exists>s' s''. ipc_set sample_kv 0 [Str \<lparr>utf8 = ''k'', two_byte = []\<rparr>, Null] sample_ipc = (Return RUndefined, s')
     \<and> ipc_get sample_kv 0 [Str \<lparr>utf8 = ''k'', two_byte = []\<rparr>] s' = (Return (RValue Null), s'')"
  using ipc_set_get_roundtrip [OF sample_kv_laws sample_ipc_pointer,
      of "\<lparr>utf8 = ''k'', two_byte = []\<rparr>" Null "''0''"]
  by (auto simp: sample_kv_def IPCKV_DATA_SIZE_def)

theorem ipc_closed_is_dead_witness:
  "\<exists>s'. ipc_close sample_kv 0 [] sample_ipc = (Return RUndefined, s')
     \<and> (\<exists>msg. ipc_get sample_kv 0 [Null] s' = (Throw msg, s'))"
proof -
  let ?s' = "sample_ipc\<lparr>ipc_objects := clear_pointer 0 (ipc_objects sample_ipc)\<rparr>"
  have c: "ipc_close sample_kv 0 [] sample_ipc = (Return RUndefined, ?s')"
    by (simp add: ipc_close_def sample_ipc_pointer) (simp add: sample_kv_def)
  with ipc_closed_is_dead [OF c, of _ "[Null]"] show ?thesis by blast
qed

end
