(* ===== verification/Bcrypt.thy ===== *)
theory Bcrypt
  imports Thread_Pool
begin

text \<open>
  \<^verbatim>\<open>crypto.bcrypt\<close> of the scripts: \<^verbatim>\<open>hash\<close> and \<^verbatim>\<open>check\<close>, each a validation in the script's thread and a worker.
  The bcrypt library is a parameter of which the repository has the header. The properties: a hash
  is accepted for its password, every promise is settled, and only the part of a password before
  its first zero byte counts.
\<close>

section \<open>The library\<close>

text \<open>\<open>None\<close> is a nonzero return value; \<open>gensalt\<close> also depends on the random bytes it drew.\<close>

record bcrypt =
  bcrypt_gensalt :: "int \<Rightarrow> nat \<Rightarrow> bytes option"
  bcrypt_hashpw :: "bytes \<Rightarrow> bytes \<Rightarrow> bytes option"
  bcrypt_checkpw :: "bytes \<Rightarrow> bytes \<Rightarrow> int"

section \<open>hash\<close>

definition workload :: "js_args \<Rightarrow> int" where
  "workload args =
     (if length args > 1 \<and> IsInt32 (arg args 1)
      then (case from_v8_int (arg args 1) of Inr i \<Rightarrow> i | Inl _ \<Rightarrow> 12)
      else 12)"

definition bcrypt_hash_start :: "js_args \<Rightarrow> pool \<Rightarrow> (nat \<times> (int \<times> bytes), pool) result" where
  "bcrypt_hash_start args p =
     (if length args < 1 then (Throw ''invalid function signature for crypto.bcrypt'', p)
      else if \<not> IsString (arg args 0)
      then (Throw ''invalid first parameter, must be a string for crypto.bcrypt'', p)
      else or_throw (from_v8_string (arg args 0)) p (\<lambda>input.
        begin_job (workload args, input) p))"

text \<open>The two library calls with the jumps to \<^verbatim>\<open>finish\<close>; \<open>Some hash\<close> stands for \<^verbatim>\<open>result == 0\<close>.\<close>

definition hash_result :: "bcrypt \<Rightarrow> nat \<Rightarrow> int \<Rightarrow> bytes \<Rightarrow> bytes option" where
  "hash_result lib rand work input_value =
     (case bcrypt_gensalt lib work rand of
        None \<Rightarrow> None
      | Some salt \<Rightarrow> bcrypt_hashpw lib (c_str input_value) salt)"

definition hash_settlement :: "bcrypt \<Rightarrow> nat \<Rightarrow> int \<times> bytes \<Rightarrow> settlement" where
  "hash_settlement lib rand job =
     (case hash_result lib rand (fst job) (snd job) of
        None \<Rightarrow> RejectedWith ''failed to generate bcrypt hash.''
      | Some hash \<Rightarrow> ResolvedWith (RUtf8 (c_str hash)))"

definition bcrypt_hash_worker :: "bcrypt \<Rightarrow> nat \<Rightarrow> int \<times> bytes \<Rightarrow> nat \<Rightarrow> pool \<Rightarrow> pool option" where
  "bcrypt_hash_worker lib rand job i p = Some (settle i (hash_settlement lib rand job) (release_slot p))"

section \<open>check\<close>

definition bcrypt_check_start :: "js_args \<Rightarrow> pool \<Rightarrow> (nat \<times> (bytes \<times> bytes), pool) result" where
  "bcrypt_check_start args p =
     (if length args < 2 then (Throw ''invalid function signature for crypto.bcryptCompare'', p)
      else if \<not> IsString (arg args 0) \<or> \<not> IsString (arg args 1)
      then (Throw ''invalid first parameter, must be a string for crypto.bcryptCompare'', p)
      else or_throw (from_v8_string (arg args 0)) p (\<lambda>password.
           or_throw (from_v8_string (arg args 1)) p (\<lambda>hash.
             begin_job (password, hash) p)))"

definition check_settlement :: "bcrypt \<Rightarrow> bytes \<times> bytes \<Rightarrow> settlement" where
  "check_settlement lib job =
     (let result = (bcrypt_checkpw lib (c_str (fst job)) (c_str (snd job)) = 0)
      in ResolvedWith (RBoolean result))"

definition bcrypt_check_worker :: "bcrypt \<Rightarrow> bytes \<times> bytes \<Rightarrow> nat \<Rightarrow> pool \<Rightarrow> pool option" where
  "bcrypt_check_worker lib job i p = Some (settle i (check_settlement lib job) (release_slot p))"

interpretation bcrypt_hash: settling_callback bcrypt_hash_start "bcrypt_hash_worker lib rand" for lib rand
  by (rule settling_callbackI)
     (auto simp: bcrypt_hash_start_def bcrypt_hash_worker_def hash_settlement_def or_throw_def split: sum.split option.split)

interpretation bcrypt_check: settling_callback bcrypt_check_start "bcrypt_check_worker lib" for lib
  by (rule settling_callbackI)
     (auto simp: bcrypt_check_start_def bcrypt_check_worker_def check_settlement_def or_throw_def Let_def split: sum.split)

section \<open>Documented behaviour of bcrypt\<close>

text \<open>A salt can be generated for every work factor; hashing succeeds and gives a text without zero
  bytes; a password matches exactly the hashes it produces.\<close>

definition bcrypt_laws :: "bcrypt \<Rightarrow> bool" where
  "bcrypt_laws lib \<longleftrightarrow>
     (\<forall>work rand. \<exists>salt. bcrypt_gensalt lib work rand = Some salt)
     \<and> (\<forall>work rand salt pw. bcrypt_gensalt lib work rand = Some salt \<longrightarrow>
          (\<exists>hash. bcrypt_hashpw lib pw salt = Some hash \<and> c_str hash = hash
             \<and> bcrypt_hashpw lib pw hash = Some hash))
     \<and> (\<forall>pw hash. bcrypt_checkpw lib pw hash = 0 \<longleftrightarrow> bcrypt_hashpw lib pw hash = Some hash)"

lemma hash_result_checks:
  assumes "bcrypt_laws lib"
  shows "\<exists>hash. hash_result lib rand work input = Some hash \<and> c_str hash = hash
      \<and> bcrypt_checkpw lib (c_str input) hash = 0"
proof -
  from assms obtain salt where salt: "bcrypt_gensalt lib work rand = Some salt"
    unfolding bcrypt_laws_def by blast
  with assms obtain hash where "bcrypt_hashpw lib (c_str input) salt = Some hash" "c_str hash = hash"
    "bcrypt_hashpw lib (c_str input) hash = Some hash"
    unfolding bcrypt_laws_def by blast
  with assms salt show ?thesis unfolding bcrypt_laws_def hash_result_def by auto
qed

section \<open>Properties\<close>

text \<open>A password is accepted against its own hash: the promise of \<^verbatim>\<open>hash(password, work)\<close> is resolved
  with a string, and \<^verbatim>\<open>check(password, that string)\<close> is resolved with true, for every work factor.\<close>
theorem bcrypt_hash_check_roundtrip:
  assumes "bcrypt_laws lib" and "bcrypt_hash_start (Str pw # args) p = (Return (i, job), p')"
  shows "\<exists>hash. bcrypt_hash_worker lib rand job i p' = Some (settle i (ResolvedWith (RUtf8 hash)) (release_slot p'))
       \<and> (\<forall>h j job' q q'. utf8 h = hash \<longrightarrow> bcrypt_check_start [Str pw, Str h] q = (Return (j, job'), q') \<longrightarrow>
            bcrypt_check_worker lib job' j q' = Some (settle j (ResolvedWith (RBoolean True)) (release_slot q')))"
proof -
  have job: "job = (workload (Str pw # args), utf8 pw)"
    using assms(2) begin_job_cases by (fastforce simp: bcrypt_hash_start_def)
  obtain hash where hash: "hash_result lib rand (workload (Str pw # args)) (utf8 pw) = Some hash"
    "c_str hash = hash" "bcrypt_checkpw lib (c_str (utf8 pw)) hash = 0"
    using hash_result_checks [OF assms(1)] by blast
  have "bcrypt_check_worker lib job' j q' = Some (settle j (ResolvedWith (RBoolean True)) (release_slot q'))"
    if "utf8 h = hash" "bcrypt_check_start [Str pw, Str h] q = (Return (j, job'), q')" for h j job' q q'
  proof -
    have "job' = (utf8 pw, utf8 h)"
      using that(2) begin_job_cases by (fastforce simp: bcrypt_check_start_def)
    with that(1) hash show ?thesis by (simp add: bcrypt_check_worker_def check_settlement_def)
  qed
  with job hash show ?thesis by (intro exI [of _ hash]) (simp add: bcrypt_hash_worker_def hash_settlement_def)
qed

text \<open>Only the part of a password before its first zero byte counts: two passwords that agree up to
  there get the same answer from \<^verbatim>\<open>check\<close> for every hash, although they are different strings.\<close>
theorem bcrypt_ignores_after_nul:
  assumes "c_str pw = c_str pw'"
  shows "bcrypt_check_worker lib (pw, hash) i p = bcrypt_check_worker lib (pw', hash) i p"
  using assms by (simp add: bcrypt_check_worker_def check_settlement_def)

text \<open>Every promise of \<^verbatim>\<open>bcrypt\<close> is settled: whatever the library answers, a started job frees its
  thread slot and its promise ends resolved or rejected.\<close>
theorem bcrypt_promises_settle:
  assumes "pool_ok p" and "bcrypt_hash_start args p = (Return (i, job), p')"
  shows "\<exists>p'' st. bcrypt_hash_worker lib rand job i p' = Some p'' \<and> thread_count p'' = thread_count p
           \<and> promises p'' i = Some st \<and> st \<noteq> Pending"
  using assms by (rule bcrypt_hash.promise_settled_finally)

section \<open>Witnesses\<close>

definition toy_bcrypt :: bcrypt where
  "toy_bcrypt = \<lparr>bcrypt_gensalt = (\<lambda>_ _. Some ''s''), bcrypt_hashpw = (\<lambda>pw _. Some (''s'' @ c_str pw)),
     bcrypt_checkpw = (\<lambda>pw h. if h = ''s'' @ c_str pw then 0 else 1)\<rparr>"

lemma toy_laws: "bcrypt_laws toy_bcrypt"
proof -
  have "c_str (''s'' @ c_str x) = ''s'' @ c_str x" for x by (simp add: c_str_def)
  then show ?thesis by (auto simp: bcrypt_laws_def toy_bcrypt_def)
qed

definition password :: js_string where "password = \<lparr>utf8 = ''pw'', two_byte = []\<rparr>"

lemma hash_started:
  "\<exists>i job p'. bcrypt_hash_start [Str password] empty_pool = (Return (i, job), p')"
  by (simp add: bcrypt_hash_start_def begin_job_def begin_async_def empty_pool_def may_start_def MAX_THREADS_def)

theorem bcrypt_hash_check_roundtrip_witness:
  "\<exists>i job p' hash. bcrypt_hash_start [Str password] empty_pool = (Return (i, job), p')
     \<and> bcrypt_hash_worker toy_bcrypt 0 job i p' = Some (settle i (ResolvedWith (RUtf8 hash)) (release_slot p'))"
proof -
  obtain i job p' where s: "bcrypt_hash_start [Str password] empty_pool = (Return (i, job), p')"
    using hash_started by blast
  from bcrypt_hash_check_roundtrip [OF toy_laws s, of 0] s show ?thesis by blast
qed

theorem bcrypt_ignores_after_nul_witness:
  "bcrypt_check_worker toy_bcrypt (''pw'', ''spw'') 0 empty_pool
     = bcrypt_check_worker toy_bcrypt (''pw'' @ [CHR 0x00] @ ''x'', ''spw'') 0 empty_pool"
  by (rule bcrypt_ignores_after_nul) (simp add: c_str_def)

theorem bcrypt_promises_settle_witness:
  "\<exists>i job p' p'' st. bcrypt_hash_start [Str password] empty_pool = (Return (i, job), p')
     \<and> bcrypt_hash_worker toy_bcrypt 0 job i p' = Some p'' \<and> promises p'' i = Some st \<and> st \<noteq> Pending"
proof -
  obtain i job p' where s: "bcrypt_hash_start [Str password] empty_pool = (Return (i, job), p')"
    using hash_started by blast
  have "pool_ok empty_pool" by (simp add: pool_ok_def empty_pool_def MAX_THREADS_def)
  from bcrypt_promises_settle [OF this s, of toy_bcrypt 0] s show ?thesis by blast
qed

end
