(* ===== verification/Http_Text.thy ===== *)
theory Http_Text
  imports V8_Values
begin

text \<open>
  The text conversions the HTTP client (\<^verbatim>\<open>Include/httplib/httplib.h\<close>) is built on: hexadecimal numbers,
  UTF-8, base64, URL encoding, and the number conversions of the C++ library it calls (\<^verbatim>\<open>std::stoi\<close>,
  \<^verbatim>\<open>std::strtoull\<close>, \<^verbatim>\<open>std::to_string\<close>). The theory shows that the base64 loop, which shifts bytes through
  a 32-bit accumulator that overflows, computes the encoding of RFC 4648, that numbers survive
  printing and reading, and that decoding inverts the URL encoding where the encoding is faithful.
\<close>

unbundle bit_operations_syntax

section \<open>Characters\<close>

text \<open>\<^verbatim>\<open>char\<close> is signed on the platform; \<^verbatim>\<open>isspace\<close> and \<^verbatim>\<open>tolower\<close> are those of the C locale.\<close>

definition signed_char :: "char \<Rightarrow> int" where
  "signed_char c = (if of_char c < (128 :: int) then of_char c else of_char c - 256)"

definition isspace :: "char \<Rightarrow> bool" where
  "isspace c \<longleftrightarrow> of_char c = (32 :: nat) \<or> 9 \<le> (of_char c :: nat) \<and> of_char c \<le> (13 :: nat)"

definition tolower :: "char \<Rightarrow> char" where
  "tolower c = (if 65 \<le> (of_char c :: nat) \<and> of_char c \<le> (90 :: nat) then char_of (of_char c + 32 :: nat) else c)"

abbreviation NUL :: char where "NUL \<equiv> CHR 0x00"
abbreviation CR :: char where "CR \<equiv> CHR 0x0D"
abbreviation LF :: char where "LF \<equiv> CHR 0x0A"

definition crlf :: bytes where "crlf = [CR, LF]"

section \<open>Hexadecimal numbers\<close>

text \<open>\<^verbatim>\<open>is_hex\<close> returns a flag and the value through a reference.\<close>

definition is_hex :: "char \<Rightarrow> int option" where
  "is_hex c =
     (let i = signed_char c
      in if 0x20 \<le> i \<and> 48 \<le> i \<and> i \<le> 57 then Some (i - 48)
         else if 65 \<le> i \<and> i \<le> 70 then Some (i - 65 + 10)
         else if 97 \<le> i \<and> i \<le> 102 then Some (i - 97 + 10)
         else None)"

text \<open>The loop reads \<^verbatim>\<open>s[i]\<close>; at the end of the string that is the terminating zero.\<close>

primrec from_hex_loop :: "bytes \<Rightarrow> nat \<Rightarrow> nat \<Rightarrow> int \<Rightarrow> int option" where
  "from_hex_loop s i 0 val = Some val"
| "from_hex_loop s i (Suc cnt) val =
     (if length s \<le> i \<or> s ! i = NUL then None
      else case is_hex (s ! i) of
             Some v \<Rightarrow> from_hex_loop s (Suc i) cnt (val * 16 + v)
           | None \<Rightarrow> None)"

definition from_hex_to_i :: "bytes \<Rightarrow> nat \<Rightarrow> nat \<Rightarrow> int option" where
  "from_hex_to_i s i cnt = (if length s \<le> i then None else from_hex_loop s i cnt 0)"

definition hex_charset :: string where "hex_charset = ''0123456789abcdef''"

function from_i_to_hex_loop :: "nat \<Rightarrow> bytes \<Rightarrow> bytes" where
  "from_i_to_hex_loop n ret =
     (let ret' = hex_charset ! (n mod 16) # ret; n' = n div 16
      in if n' > 0 then from_i_to_hex_loop n' ret' else ret')"
  by pat_completeness auto
termination by (relation "measure fst") auto

declare from_i_to_hex_loop.simps [simp del]

definition from_i_to_hex :: "nat \<Rightarrow> bytes" where
  "from_i_to_hex n = from_i_to_hex_loop n []"

section \<open>UTF-8\<close>

definition to_char :: "int \<Rightarrow> char" where "to_char i = char_of (nat i)"

definition utf8_tail :: "int \<Rightarrow> nat \<Rightarrow> char" where
  "utf8_tail code n = to_char (0x80 OR (drop_bit n code AND 0x3F))"

definition to_utf8 :: "int \<Rightarrow> bytes" where
  "to_utf8 code =
     (if code < 0x0080 then [to_char (code AND 0x7F)]
      else if code < 0x0800
      then [to_char (0xC0 OR (drop_bit 6 code AND 0x1F)), utf8_tail code 0]
      else if code < 0xD800
      then [to_char (0xE0 OR (drop_bit 12 code AND 0xF)), utf8_tail code 6, utf8_tail code 0]
      else if code < 0xE000 then []
      else if code < 0x10000
      then [to_char (0xE0 OR (drop_bit 12 code AND 0xF)), utf8_tail code 6, utf8_tail code 0]
      else if code < 0x110000
      then [to_char (0xF0 OR (drop_bit 18 code AND 0x7)), utf8_tail code 12, utf8_tail code 6,
            utf8_tail code 0]
      else [])"

section \<open>Base64\<close>

definition base64_lookup :: string where
  "base64_lookup = ''ABCDEFGHIJKLMNOPQRSTUVWXYZabcdefghijklmnopqrstuvwxyz0123456789+/''"

text \<open>\<open>val\<close> is an \<^verbatim>\<open>int\<close> that keeps the bytes shifted in; older ones leave it at the top.\<close>

definition sextet :: "u32 \<Rightarrow> nat \<Rightarrow> char" where
  "sextet val n = base64_lookup ! unat (signed_drop_bit n val AND 0x3F)"

function base64_emit :: "u32 \<Rightarrow> int \<Rightarrow> bytes \<Rightarrow> int \<times> bytes" where
  "base64_emit val valb out =
     (if 0 \<le> valb then base64_emit val (valb - 6) (out @ [sextet val (nat valb)]) else (valb, out))"
  by pat_completeness auto
termination by (relation "measure (\<lambda>(val, valb, out). nat (valb + 6))") auto

declare base64_emit.simps [simp del]

primrec base64_loop :: "bytes \<Rightarrow> u32 \<Rightarrow> int \<Rightarrow> bytes \<Rightarrow> u32 \<times> int \<times> bytes" where
  "base64_loop [] val valb out = (val, valb, out)"
| "base64_loop (c # cs) val valb out =
     (let val' = push_bit 8 val + of_char c;
          (valb', out') = base64_emit val' (valb + 8) out
      in base64_loop cs val' valb' out')"

function base64_pad :: "bytes \<Rightarrow> bytes" where
  "base64_pad out = (if length out mod 4 \<noteq> 0 then base64_pad (out @ ''='') else out)"
  by pat_completeness auto
termination
proof (relation "measure (\<lambda>out. (4 - length out mod 4) mod 4)", goal_cases)
  case (2 out)
  then show ?case by (simp add: mod_Suc) presburger
qed simp

declare base64_pad.simps [simp del]

definition base64_encode :: "bytes \<Rightarrow> bytes" where
  "base64_encode inp =
     (let (val, valb, out) = base64_loop inp 0 (- 6) [];
          out' = (if - 6 < valb then out @ [sextet (push_bit 8 val) (nat (valb + 8))] else out)
      in base64_pad out')"

section \<open>URL encoding\<close>

definition upper_hex :: "nat \<Rightarrow> char" where
  "upper_hex n = ''0123456789ABCDEF'' ! n"

definition encode_char :: "char \<Rightarrow> bytes" where
  "encode_char c =
     (if c = CHR '' '' then ''%20''
      else if c = CHR ''+'' then ''%2B''
      else if c = CR then ''%0D''
      else if c = LF then ''%0A''
      else if c = CHR 0x27 then ''%27''
      else if c = CHR '','' then ''%2C''
      else if c = CHR '':'' then ''%3A''
      else if c = CHR '';'' then ''%3B''
      else if 0x80 \<le> (of_char c :: nat)
      then [CHR ''%'', upper_hex (of_char c div 16), upper_hex (of_char c mod 16)]
      else [c])"

text \<open>The loop runs while \<^verbatim>\<open>s[i]\<close> is not zero.\<close>

definition encode_url :: "bytes \<Rightarrow> bytes" where
  "encode_url s = concat (map encode_char (c_str s))"

text \<open>One round of the loop per equation; the argument is what is left of the string from \<^verbatim>\<open>i\<close> on.\<close>

function decode_url :: "bytes \<Rightarrow> bytes" where
  "decode_url [] = []"
| "decode_url (c # s) =
     (if c = CHR ''%'' \<and> s \<noteq> []
      then if hd s = CHR ''u''
           then case from_hex_to_i (c # s) 2 4 of
                  Some val \<Rightarrow> to_utf8 val @ decode_url (drop 5 s)
                | None \<Rightarrow> c # decode_url s
           else case from_hex_to_i (c # s) 1 2 of
                  Some val \<Rightarrow> char_of (nat val) # decode_url (drop 2 s)
                | None \<Rightarrow> c # decode_url s
      else if c = CHR ''+'' then CHR '' '' # decode_url s
      else c # decode_url s)"
  by pat_completeness auto
termination by (relation "measure length") auto

section \<open>Numbers of the C++ library\<close>

definition digit_value :: "nat \<Rightarrow> char \<Rightarrow> nat option" where
  "digit_value b c =
     (case is_hex c of Some v \<Rightarrow> if nat v < b then Some (nat v) else None | None \<Rightarrow> None)"

definition number :: "nat \<Rightarrow> bytes \<Rightarrow> nat" where
  "number b ds = foldl (\<lambda>n c. n * b + the (digit_value b c)) 0 ds"

text \<open>The subject sequence of \<^verbatim>\<open>strtol\<close> and \<^verbatim>\<open>strtoull\<close>: white space, a sign, for base 16 a prefix \<^verbatim>\<open>0x\<close> that a
  digit follows, and digits. \<open>None\<close> when there is no digit.\<close>

definition strto :: "nat \<Rightarrow> bytes \<Rightarrow> (bool \<times> nat) option" where
  "strto b s =
     (let s1 = dropWhile isspace (c_str s);
          neg = (take 1 s1 = ''-'');
          s2 = (if take 1 s1 = ''-'' \<or> take 1 s1 = ''+'' then drop 1 s1 else s1);
          s3 = (if b = 16 \<and> map tolower (take 2 s2) = ''0x'' \<and> 2 < length s2 \<and> digit_value 16 (s2 ! 2) \<noteq> None
                then drop 2 s2 else s2);
          ds = takeWhile (\<lambda>c. digit_value b c \<noteq> None) s3
      in if ds = [] then None else Some (neg, number b ds))"

text \<open>\<^verbatim>\<open>std::stoi\<close> throws when there is no number and when it does not fit 32 bits.\<close>

definition stoi :: "nat \<Rightarrow> bytes \<Rightarrow> string + int" where
  "stoi b s =
     (case strto b s of
        None \<Rightarrow> Inl ''invalid stoi argument''
      | Some (neg, n) \<Rightarrow>
          (let i = (if neg then - int n else int n)
           in if - (2 ^ 31) \<le> i \<and> i < 2 ^ 31 then Inr i else Inl ''stoi argument out of range''))"

text \<open>\<^verbatim>\<open>std::strtoull\<close> gives zero when there is no number and the largest value on overflow; a negative
  number is negated modulo \<open>2 ^ 64\<close>.\<close>

definition strtoull :: "bytes \<Rightarrow> nat" where
  "strtoull s =
     (case strto 10 s of
        None \<Rightarrow> 0
      | Some (neg, n) \<Rightarrow>
          if 2 ^ 64 \<le> n then 2 ^ 64 - 1
          else if neg then nat (- int n mod 2 ^ 64) else n)"

fun std_to_string :: "nat \<Rightarrow> bytes" where
  "std_to_string n =
     (if n < 10 then [char_of (48 + n)] else std_to_string (n div 10) @ [char_of (48 + n mod 10)])"

declare std_to_string.simps [simp del]

section \<open>Printing and reading numbers\<close>

fun radix :: "nat \<Rightarrow> (nat \<Rightarrow> char) \<Rightarrow> nat \<Rightarrow> bytes" where
  "radix b f n = (if b < 2 \<or> n < b then [f n] else radix b f (n div b) @ [f (n mod b)])"

declare radix.simps [simp del]

lemma number_snoc: "number b (ds @ [c]) = number b ds * b + the (digit_value b c)"
  by (simp add: number_def)

lemma radix_digits:
  assumes "1 < b" and "\<And>d. d < b \<Longrightarrow> digit_value b (f d) = Some d"
  shows "radix b f n \<noteq> [] \<and> (\<forall>c \<in> set (radix b f n). digit_value b c \<noteq> None) \<and> number b (radix b f n) = n"
  using assms
proof (induction b f n rule: radix.induct)
  case (1 b f n)
  show ?case
  proof (cases "n < b")
    case True
    with 1 show ?thesis by (subst (1 2 3) radix.simps) (simp add: number_def)
  next
    case False
    then have "radix b f n = radix b f (n div b) @ [f (n mod b)]" using 1 by (subst radix.simps) simp
    moreover have "n mod b < b" using 1(2) by simp
    ultimately show ?thesis using 1(1) [OF _ 1(2,3)] False 1(2,3) by (simp add: number_snoc)
  qed
qed

lemma from_i_to_hex_loop_radix:
  "from_i_to_hex_loop n ret = radix 16 ((!) hex_charset) n @ ret"
proof (induction n ret rule: from_i_to_hex_loop.induct)
  case (1 n ret)
  show ?case
  proof (cases "n < 16")
    case True
    then show ?thesis by (subst from_i_to_hex_loop.simps, subst radix.simps) simp
  next
    case False
    then have "0 < n div 16" by simp
    with 1 False show ?thesis by (subst from_i_to_hex_loop.simps, subst radix.simps) simp
  qed
qed

lemma std_to_string_radix: "std_to_string n = radix 10 (\<lambda>d. char_of (48 + d)) n"
proof (induction n rule: std_to_string.induct)
  case (1 n)
  then show ?case by (cases "n < 10") (subst std_to_string.simps, subst radix.simps, simp)+
qed

lemma hex_digit: "d < 16 \<Longrightarrow> digit_value 16 (hex_charset ! d) = Some d"
proof -
  assume "d < 16"
  moreover have "list_all (\<lambda>d. digit_value 16 (hex_charset ! d) = Some d) [0..<16]" by code_simp
  ultimately show ?thesis by (simp add: list_all_iff)
qed

lemma decimal_digit: "d < 10 \<Longrightarrow> digit_value 10 (char_of (48 + d)) = Some d"
proof -
  assume "d < 10"
  moreover have "list_all (\<lambda>d. digit_value 10 (char_of (48 + d)) = Some d) [0..<10]" by code_simp
  ultimately show ?thesis by (simp add: list_all_iff)
qed

lemmas hex_facts = radix_digits [where b = 16 and f = "(!) hex_charset", OF _ hex_digit, simplified]
lemmas decimal_facts = radix_digits [where b = 10 and f = "\<lambda>d. char_of (48 + d)", OF _ decimal_digit, simplified]

text \<open>A digit is no white space, sign, zero or letter \<open>x\<close>.\<close>

lemma is_hex_code:
  assumes "is_hex c \<noteq> None"
  shows "48 \<le> (of_char c :: nat) \<and> (of_char c :: nat) \<le> 57 \<or> 65 \<le> (of_char c :: nat) \<and> (of_char c :: nat) \<le> 70
     \<or> 97 \<le> (of_char c :: nat) \<and> (of_char c :: nat) \<le> 102"
proof -
  define m where "m = (of_char c :: nat)"
  have "(of_char c :: int) = int m" "m < 256" by (simp_all add: m_def of_nat_of_char)
  with assms have "48 \<le> m \<and> m \<le> 57 \<or> 65 \<le> m \<and> m \<le> 70 \<or> 97 \<le> m \<and> m \<le> 102"
    by (auto simp: is_hex_def signed_char_def Let_def split: if_splits)
  then show ?thesis by (simp add: m_def)
qed

lemma char_neqI: "(of_char c :: nat) \<noteq> of_char d \<Longrightarrow> c \<noteq> d" by auto

lemma digit_plain:
  assumes "digit_value b c \<noteq> None"
  shows "\<not> isspace c" "c \<noteq> CHR ''-''" "c \<noteq> CHR ''+''" "c \<noteq> NUL" "tolower c \<noteq> CHR ''x''" "c \<noteq> CR"
    "c \<noteq> LF"
proof -
  have "is_hex c \<noteq> None" using assms by (auto simp: digit_value_def split: option.splits)
  from is_hex_code [OF this]
  show "\<not> isspace c" "c \<noteq> CHR ''-''" "c \<noteq> CHR ''+''" "c \<noteq> NUL" "tolower c \<noteq> CHR ''x''" "c \<noteq> CR" "c \<noteq> LF"
    by (auto simp: isspace_def tolower_def intro!: char_neqI)
qed

lemma strto_digits:
  assumes "ds \<noteq> []" and "\<forall>c \<in> set ds. digit_value b c \<noteq> None" and "digit_value b z = None"
    and "tolower z \<noteq> CHR ''x''"
  shows "strto b (ds @ z # r) = Some (False, number b ds)"
proof -
  obtain d ds' where ds: "ds = d # ds'" using assms(1) by (cases ds) auto
  have plain: "\<forall>c \<in> set ds. c \<noteq> NUL" using assms(2) digit_plain(4) by blast
  let ?t = "if z = NUL then [] else z # c_str r"
  have cs: "c_str (ds @ z # r) = ds @ ?t"
    using plain by (simp add: c_str_def takeWhile_append)
  have "digit_value b d \<noteq> None" using assms(2) ds by simp
  note d = digit_plain [OF this]
  have "tolower (hd (ds' @ ?t)) \<noteq> CHR ''x'' \<or> ds' @ ?t = []"
    using assms(2,4) ds digit_plain(5) by (cases ds') auto
  then have x: "map tolower (take 2 (ds @ ?t)) \<noteq> ''0x''"
    using ds by (cases "ds' @ ?t") auto
  define u where "u = ds @ ?t"
  have "takeWhile (\<lambda>c. digit_value b c \<noteq> None) u = ds"
    unfolding u_def using assms(2,3) by (simp add: takeWhile_append)
  moreover have "dropWhile isspace u = u" "take 1 u = [d]" using d(1) ds by (simp_all add: u_def)
  moreover have "map tolower (take 2 u) \<noteq> ''0x''" using x unfolding u_def .
  ultimately show ?thesis using d(2,3) assms(1) unfolding strto_def cs u_def [symmetric] Let_def by simp
qed

lemma c_str_snoc: "takeWhile (\<lambda>c. c \<noteq> NUL) (s @ [NUL]) = takeWhile (\<lambda>c. c \<noteq> NUL) s"
  by (induction s) auto

lemma stoi_hex:
  assumes "n < 2 ^ 31"
  shows "stoi 16 (from_i_to_hex n @ CR # r) = Inr (int n)"
proof -
  have "digit_value 16 CR = None" "tolower CR \<noteq> CHR ''x''" by code_simp+
  with strto_digits [of "from_i_to_hex n" 16 CR r] hex_facts [of n]
  have "strto 16 (from_i_to_hex n @ CR # r) = Some (False, n)"
    by (simp add: from_i_to_hex_def from_i_to_hex_loop_radix)
  with assms show ?thesis by (simp add: stoi_def)
qed

lemma strto_decimal: "strto 10 (std_to_string n) = Some (False, n)"
proof -
  have "c_str (std_to_string n @ [NUL]) = c_str (std_to_string n)"
    unfolding c_str_def by (rule c_str_snoc)
  then have "strto 10 (std_to_string n) = strto 10 (std_to_string n @ [NUL])" by (simp add: strto_def)
  moreover have "digit_value 10 NUL = None" "tolower NUL \<noteq> CHR ''x''" by code_simp+
  ultimately show ?thesis
    using strto_digits [of "std_to_string n" 10 NUL "[]"] decimal_facts [of n]
    by (simp add: std_to_string_radix)
qed

lemma strtoull_decimal: "n < 2 ^ 64 \<Longrightarrow> strtoull (std_to_string n) = n"
  by (simp add: strtoull_def strto_decimal)

section \<open>Base64 is RFC 4648\<close>

text \<open>Three bytes give four characters; a rest of one or two bytes is filled with zero bits and padded.\<close>

definition b64 :: "nat \<Rightarrow> char" where "b64 n = base64_lookup ! n"

fun base64_reference :: "nat list \<Rightarrow> bytes" where
  "base64_reference [] = []"
| "base64_reference [a] = [b64 (a div 4), b64 (a mod 4 * 16), CHR ''='', CHR ''='']"
| "base64_reference [a, b] =
     [b64 (a div 4), b64 (a mod 4 * 16 + b div 16), b64 (b mod 16 * 4), CHR ''='']"
| "base64_reference (a # b # c # rest) =
     [b64 (a div 4), b64 (a mod 4 * 16 + b div 16), b64 (b mod 16 * 4 + c div 64), b64 (c mod 64)]
     @ base64_reference rest"

lemma low_bits:
  assumes "n \<le> 26"
  shows "(x :: nat) mod 2 ^ 32 div 2 ^ n mod 64 = x div 2 ^ n mod 64"
proof -
  have "take_bit 6 (drop_bit n (take_bit 32 x)) = take_bit 6 (drop_bit n x)"
    using assms by (simp add: drop_bit_take_bit)
  then show ?thesis by (simp add: take_bit_eq_mod drop_bit_eq_div)
qed

text \<open>A sextet depends on the low bits of the accumulator only, so the overflow does not matter.\<close>

lemma sextet_value:
  assumes "n \<le> 26"
  shows "sextet v n = b64 (unat v div 2 ^ n mod 64)"
proof -
  have "signed_drop_bit n v AND 0x3F = drop_bit n v AND (mask 6 :: u32)"
  proof (rule bit_word_eqI)
    fix i
    assume "i < LENGTH(32)"
    have "(0x3F :: u32) = mask 6" by (simp add: mask_eq_exp_minus_1)
    then have "bit (0x3F :: u32) i \<longleftrightarrow> i < 6" using \<open>i < LENGTH(32)\<close> by (simp only: bit_mask_iff) simp
    then show "bit (signed_drop_bit n v AND 0x3F) i \<longleftrightarrow> bit (drop_bit n v AND mask 6) i"
      using assms \<open>i < LENGTH(32)\<close> by (auto simp: bit_simps)
  qed
  also have "\<dots> = take_bit 6 (drop_bit n v)" by (simp add: take_bit_eq_mask)
  finally have "unat (signed_drop_bit n v AND 0x3F) = unat (take_bit 6 (drop_bit n v))" by (rule arg_cong)
  also have "\<dots> = unat v div 2 ^ n mod 64"
    by (simp only: unsigned_take_bit_eq unsigned_drop_bit_eq)
       (simp add: take_bit_eq_mod [where 'a = nat] drop_bit_eq_div [where 'a = nat]
        low_bits [OF assms, simplified])
  finally have "unat (signed_drop_bit n v AND 0x3F) = unat v div 2 ^ n mod 64" .
  then show ?thesis by (simp add: sextet_def b64_def)
qed

lemma shifted_in: "unat (push_bit 8 v + of_char c :: u32) = (256 * unat v + of_char c) mod 2 ^ 32"
proof -
  have "push_bit 8 v + of_char c = (word_of_nat (256 * unat v + of_char c) :: u32)"
    by (simp add: push_bit_eq_mult of_nat_of_char)
  then show ?thesis by (simp only: unat_of_nat) (simp add: take_bit_eq_mod)
qed

lemma sextet_shifted:
  assumes "n \<le> 26"
  shows "sextet (push_bit 8 v + of_char c) n = b64 ((256 * unat v + of_char c) div 2 ^ n mod 64)"
  by (simp only: sextet_value [OF assms] shifted_in low_bits [OF assms])

lemma emit_steps:
  "base64_emit v 2 out = (- 4, out @ [sextet v 2])"
  "base64_emit v 4 out = (- 2, out @ [sextet v 4])"
  "base64_emit v 6 out = (- 6, out @ [sextet v 6, sextet v 0])"
  by (subst base64_emit.simps, subst base64_emit.simps, simp)
     (subst base64_emit.simps, subst base64_emit.simps, simp,
      subst base64_emit.simps, subst base64_emit.simps, subst base64_emit.simps, simp)

lemma mod_split:
  assumes "d < m"
  shows "(m * y + d) mod (m * k) = m * (y mod k) + (d :: nat)"
  using assms by (subst mod_mult2_eq) auto

lemma group_bits:
  assumes "b < 256"
  shows "(256 * y + b) div 4 mod 64 = b div (4 :: nat)"
    and "(256 * y + b) div 16 mod 64 = 16 * (y mod 4) + b div (16 :: nat)"
    and "(256 * y + b) div 64 mod 64 = 4 * (y mod 16) + b div (64 :: nat)"
    and "(256 * y + b) mod 64 = b mod (64 :: nat)"
proof -
  have "(256 * y + b) div 4 = 64 * y + b div 4" using div_mult_self2 [of 4 b "64 * y"] by (simp add: algebra_simps)
  then show "(256 * y + b) div 4 mod 64 = b div 4" using assms by simp
  have "(256 * y + b) div 16 = 16 * y + b div 16" using div_mult_self2 [of 16 b "16 * y"] by (simp add: algebra_simps)
  then show "(256 * y + b) div 16 mod 64 = 16 * (y mod 4) + b div 16"
    using mod_split [of "b div 16" 16 y 4] assms by simp
  have "(256 * y + b) div 64 = 4 * y + b div 64" using div_mult_self2 [of 64 b "4 * y"] by (simp add: algebra_simps)
  then show "(256 * y + b) div 64 mod 64 = 4 * (y mod 16) + b div 64"
    using mod_split [of "b div 64" 4 y 16] assms by simp
  have "(256 * y + b) mod 64 = (b + 64 * (4 * y)) mod 64" by (simp add: algebra_simps)
  then show "(256 * y + b) mod 64 = b mod 64" by (simp only: mod_mult_self2)
qed

lemma shifted_low:
  "unat (push_bit 8 v + of_char c :: u32) mod 4 = of_char c mod 4"
  "unat (push_bit 8 v + of_char c :: u32) mod 16 = of_char c mod 16"
proof -
  have "(256 * unat v + of_char c) mod 2 ^ 32 mod 4 = (of_char c + 4 * (64 * unat v)) mod 4"
    by (simp add: mod_mod_cancel algebra_simps)
  then show "unat (push_bit 8 v + of_char c :: u32) mod 4 = of_char c mod 4"
    by (simp only: shifted_in mod_mult_self2)
  have "(256 * unat v + of_char c) mod 2 ^ 32 mod 16 = (of_char c + 16 * (16 * unat v)) mod 16"
    by (simp add: mod_mod_cancel algebra_simps)
  then show "unat (push_bit 8 v + of_char c :: u32) mod 16 = of_char c mod 16"
    by (simp only: shifted_in mod_mult_self2)
qed

lemma sextet_at:
  "sextet (push_bit 8 v + of_char c) 2 = b64 (of_char c div 4)"
  "sextet (push_bit 8 v + of_char c) 4 = b64 (16 * (unat v mod 4) + of_char c div 16)"
  "sextet (push_bit 8 v + of_char c) 6 = b64 (4 * (unat v mod 16) + of_char c div 64)"
  "sextet (push_bit 8 v + of_char c) 0 = b64 (of_char c mod 64)"
  using sextet_shifted [of 2 v c] sextet_shifted [of 4 v c] sextet_shifted [of 6 v c]
    sextet_shifted [of 0 v c] group_bits [of "of_char c" "unat v"] by simp_all

lemma sextet_last:
  "sextet (push_bit 8 v) 4 = b64 (16 * (unat v mod 4))"
  "sextet (push_bit 8 v) 6 = b64 (4 * (unat v mod 16))"
  using sextet_at(2,3) [of v NUL] by simp_all

definition base64_finish :: "u32 \<times> int \<times> bytes \<Rightarrow> bytes" where
  "base64_finish r = (case r of (val, valb, out) \<Rightarrow>
     base64_pad (if - 6 < valb then out @ [sextet (push_bit 8 val) (nat (valb + 8))] else out))"

lemma pad_full: "length out mod 4 = 0 \<Longrightarrow> base64_pad out = out"
  by (subst base64_pad.simps) simp

lemma pad_one: "length out mod 4 = 3 \<Longrightarrow> base64_pad out = out @ ''=''"
  by (subst base64_pad.simps) (simp add: pad_full mod_Suc)

lemma pad_two: "length out mod 4 = 2 \<Longrightarrow> base64_pad out = out @ ''==''"
  by (subst base64_pad.simps) (simp add: pad_one mod_Suc)

lemma base64_loop_reference:
  assumes "length out mod 4 = 0"
  shows "base64_finish (base64_loop inp v (- 6) out) = out @ base64_reference (map of_char inp)"
  using assms
proof (induction "map of_char inp :: nat list" arbitrary: inp v out rule: base64_reference.induct)
  case 1
  then show ?case by (simp add: base64_finish_def pad_full)
next
  case (2 a)
  then obtain x where "inp = [x]" "a = of_char x" by auto
  with 2(2) show ?case
    by (simp add: base64_finish_def emit_steps sextet_at sextet_last shifted_low pad_two mod_Suc mult.commute)
next
  case (3 a b)
  then obtain x y where "inp = [x, y]" "a = of_char x" "b = of_char y" by auto
  with 3(2) show ?case
    by (simp add: base64_finish_def emit_steps sextet_at sextet_last shifted_low pad_one mod_Suc mult.commute)
next
  case (4 a b c rest)
  then obtain x y z r where "inp = x # y # z # r" "rest = map of_char r" by (auto simp: Cons_eq_map_conv)
  with 4(1) [of r] 4(3) show ?case by (simp add: emit_steps sextet_at shifted_low mult.commute)
qed

section \<open>Decoding a URL\<close>

lemma upper_hex_digit:
  assumes "d < 16"
  shows "is_hex (upper_hex d) = Some (int d)" "upper_hex d \<noteq> NUL" "upper_hex d \<noteq> CHR ''u''"
proof -
  have "list_all (\<lambda>d. is_hex (upper_hex d) = Some (int d) \<and> upper_hex d \<noteq> NUL \<and> upper_hex d \<noteq> CHR ''u'') [0..<16]"
    by code_simp
  with assms show "is_hex (upper_hex d) = Some (int d)" "upper_hex d \<noteq> NUL" "upper_hex d \<noteq> CHR ''u''"
    by (simp_all add: list_all_iff)
qed

lemma decode_percent:
  assumes "h < 16" and "l < 16"
  shows "decode_url (CHR ''%'' # upper_hex h # upper_hex l # r) = char_of (16 * h + l) # decode_url r"
proof -
  have "from_hex_to_i (CHR ''%'' # upper_hex h # upper_hex l # r) 1 2 = Some (int h * 16 + int l)"
    using upper_hex_digit [OF assms(1)] upper_hex_digit [OF assms(2)]
    by (simp add: from_hex_to_i_def numeral_2_eq_2)
  moreover have "nat (int h * 16 + int l) = 16 * h + l" by simp
  ultimately show ?thesis using upper_hex_digit(3) [OF assms(1)] by simp
qed

text \<open>The characters written out in the code are percent sequences like those of the other branch.\<close>

lemma encode_char_cases:
  "encode_char c = [c] \<and> c \<noteq> CHR ''+'' \<or>
   encode_char c = [CHR ''%'', upper_hex (of_char c div 16), upper_hex (of_char c mod 16)]"
  by (auto simp: encode_char_def upper_hex_def)

lemma decode_encoded_char:
  assumes "c \<noteq> CHR ''%''"
  shows "decode_url (encode_char c @ r) = c # decode_url r"
proof -
  have "16 * (of_char c div 16) + of_char c mod 16 = (of_char c :: nat)" by simp
  moreover have "of_char c div 16 < (16 :: nat)" using nat_of_char_less_256 [of c] by linarith
  ultimately show ?thesis
    using encode_char_cases [of c] assms decode_percent [of "of_char c div 16" "of_char c mod 16" r] by auto
qed

section \<open>Decoding UTF-8\<close>

fun utf8_reference :: "nat list \<Rightarrow> nat option" where
  "utf8_reference [a] = (if a < 0x80 then Some a else None)"
| "utf8_reference [a, b] =
     (if 0xC0 \<le> a \<and> a < 0xE0 \<and> b div 64 = 2 then Some ((a - 0xC0) * 64 + b mod 64) else None)"
| "utf8_reference [a, b, c] =
     (if 0xE0 \<le> a \<and> a < 0xF0 \<and> b div 64 = 2 \<and> c div 64 = 2
      then Some (((a - 0xE0) * 64 + b mod 64) * 64 + c mod 64) else None)"
| "utf8_reference [a, b, c, d] =
     (if 0xF0 \<le> a \<and> a < 0xF8 \<and> b div 64 = 2 \<and> c div 64 = 2 \<and> d div 64 = 2
      then Some ((((a - 0xF0) * 64 + b mod 64) * 64 + c mod 64) * 64 + d mod 64) else None)"
| "utf8_reference _ = None"

lemma or_disjoint:
  "push_bit k m OR take_bit k y = push_bit k m + (take_bit k y :: int)"
proof -
  have "push_bit k m AND take_bit k y = 0" by (rule bit_eqI) (auto simp: bit_simps)
  then show ?thesis by (simp add: disjunctive_add_eq_or)
qed

lemma utf8_byte:
  assumes "2 ^ k * (m + 1) \<le> 256"
  shows "of_char (to_char (int (2 ^ k * m) OR (drop_bit n (int c) AND mask k))) = 2 ^ k * m + c div 2 ^ n mod (2 ^ k :: nat)"
proof -
  have "int (2 ^ k * m) = push_bit k (int m)" by (simp add: push_bit_eq_mult mult.commute)
  moreover have "drop_bit n (int c) AND mask k = take_bit k (drop_bit n (int c))" by (simp add: take_bit_eq_mask)
  moreover have "take_bit k (drop_bit n (int c)) = int (c div 2 ^ n mod 2 ^ k)"
    by (simp add: take_bit_eq_mod drop_bit_eq_div zdiv_int zmod_int)
  ultimately have "int (2 ^ k * m) OR (drop_bit n (int c) AND mask k) = int (2 ^ k * m + c div 2 ^ n mod 2 ^ k)"
    using or_disjoint [of k "int m" "drop_bit n (int c)"] by simp
  then have "nat (int (2 ^ k * m) OR (drop_bit n (int c) AND mask k)) = 2 ^ k * m + c div 2 ^ n mod 2 ^ k"
    by (simp only: nat_int)
  moreover have "c div 2 ^ n mod 2 ^ k < 2 ^ k" by simp
  then have "2 ^ k * m + c div 2 ^ n mod 2 ^ k < 256" using assms unfolding distrib_left by linarith
  ultimately show ?thesis by (simp add: to_char_def)
qed

lemma utf8_bytes:
  "of_char (utf8_tail (int c) n) = 128 + c div 2 ^ n mod (64 :: nat)"
  "of_char (to_char (0xC0 OR (drop_bit n (int c) AND 0x1F))) = 192 + c div 2 ^ n mod (32 :: nat)"
  "of_char (to_char (0xE0 OR (drop_bit n (int c) AND 0xF))) = 224 + c div 2 ^ n mod (16 :: nat)"
  "of_char (to_char (0xF0 OR (drop_bit n (int c) AND 0x7))) = 240 + c div 2 ^ n mod (8 :: nat)"
  using utf8_byte [of 6 2 n c] utf8_byte [of 5 6 n c] utf8_byte [of 4 14 n c] utf8_byte [of 3 30 n c]
  by (simp_all add: utf8_tail_def mask_eq_exp_minus_1)

lemma tail_bits: "(128 + x mod 64) div 64 = (2 :: nat)" "(128 + x mod 64) mod 64 = (x mod 64 :: nat)"
proof -
  have "x mod 64 < 64" by simp
  then show "(128 + x mod 64) div 64 = 2" by linarith
  show "(128 + x mod 64) mod 64 = x mod 64" by (subst mod_add_left_eq [symmetric]) simp
qed

lemma utf8_groups:
  "c < 0x800 \<Longrightarrow> c div 64 mod 32 * 64 + c mod 64 = (c :: nat)"
  "c < 0x10000 \<Longrightarrow> (c div 4096 mod 16 * 64 + c div 64 mod 64) * 64 + c mod 64 = c"
  "c < 0x110000 \<Longrightarrow> ((c div 262144 mod 8 * 64 + c div 4096 mod 64) * 64 + c div 64 mod 64) * 64 + c mod 64 = c"
proof -
  have d: "c div 4096 = c div 64 div 64" "c div 262144 = c div 64 div 64 div 64" for c :: nat
    by (simp_all add: div_mult2_eq [symmetric])
  show "c < 0x800 \<Longrightarrow> c div 64 mod 32 * 64 + c mod 64 = c" by (simp add: less_mult_imp_div_less)
  show "c < 0x10000 \<Longrightarrow> (c div 4096 mod 16 * 64 + c div 64 mod 64) * 64 + c mod 64 = c"
    by (simp add: d less_mult_imp_div_less)
  show "c < 0x110000 \<Longrightarrow> ((c div 262144 mod 8 * 64 + c div 4096 mod 64) * 64 + c div 64 mod 64) * 64 + c mod 64 = c"
    by (simp add: d less_mult_imp_div_less)
qed

section \<open>Properties\<close>

text \<open>C33. The base64 loop is the encoding of RFC 4648: although the accumulator of 32 bits overflows on every
  text of more than four bytes, each group of six bits, the last incomplete group and the padding are
  those of the specification, so that the credentials of a basic authentication header are sent as
  they should be.\<close>
theorem base64_is_rfc4648: "base64_encode inp = base64_reference (map of_char inp)"
  using base64_loop_reference [of "[]" inp 0]
  by (simp add: base64_encode_def base64_finish_def case_prod_beta Let_def)

text \<open>Decoding inverts the URL encoding of every text without a percent sign and without a zero
  character. (The encoding leaves percent signs alone, so that a path that is already encoded is not
  encoded twice.)\<close>
theorem decode_encode_url:
  assumes "NUL \<notin> set s" and "CHR ''%'' \<notin> set s"
  shows "decode_url (encode_url s) = s"
proof -
  have "c_str s = s" using assms(1) by (auto simp: c_str_def takeWhile_eq_all_conv)
  moreover have "decode_url (concat (map encode_char s)) = s"
    using assms(2) by (induction s) (auto simp: decode_encoded_char)
  ultimately show ?thesis by (simp add: encode_url_def)
qed

text \<open>A code point of a \<^verbatim>\<open>%uXXXX\<close> sequence is turned into its UTF-8 form: every code point outside the
  surrogate range is recovered by the reference decoder.\<close>
theorem to_utf8_decodes:
  assumes "c < 0x110000" and "\<not> (0xD800 \<le> c \<and> c < 0xE000)"
  shows "utf8_reference (map of_char (to_utf8 (int c))) = Some c"
proof -
  have "int c AND 0x7F = int (c mod 128)" using take_bit_eq_mask [of 7 "int c"]
    by (simp add: mask_eq_exp_minus_1 take_bit_eq_mod zmod_int)
  then have one: "c < 0x80 \<Longrightarrow> of_char (to_char (int c AND 0x7F)) = c" by (simp add: to_char_def)
  consider "c < 0x80" | "0x80 \<le> c" "c < 0x800" | "0x800 \<le> c" "c < 0x10000" | "0x10000 \<le> c" by linarith
  then show ?thesis
  proof cases
    case 1
    then show ?thesis using one by (simp add: to_utf8_def)
  next
    case 2
    then show ?thesis using utf8_groups(1) [of c] by (simp add: to_utf8_def utf8_bytes tail_bits)
  next
    case 3
    then show ?thesis using utf8_groups(2) [of c] assms(2) by (simp add: to_utf8_def utf8_bytes tail_bits)
  next
    case 4
    then show ?thesis using utf8_groups(3) [of c] assms(1) by (simp add: to_utf8_def utf8_bytes tail_bits)
  qed
qed

section \<open>Witnesses\<close>

theorem decode_encode_url_witness:
  "encode_url ''/a b:c'' = ''/a%20b%3Ac'' \<and> decode_url ''/a%20b%3Ac'' = ''/a b:c''"
proof -
  have e: "encode_url ''/a b:c'' = ''/a%20b%3Ac''" by code_simp
  from decode_encode_url [of "''/a b:c''"] show ?thesis unfolding e by simp
qed

theorem to_utf8_decodes_witness:
  "utf8_reference (map of_char (to_utf8 8364)) = Some 8364 \<and> length (to_utf8 8364) = 3"
  using to_utf8_decodes [of 8364] by (simp add: to_utf8_def)

end
