(* ===== verification/Http_Stream.thy ===== *)
theory Http_Stream
  imports Http_Text
begin

text \<open>
  The streams of the HTTP client (\<^verbatim>\<open>httplib.h\<close>): \<^verbatim>\<open>SocketStream\<close> on a connection, \<^verbatim>\<open>BufferStream\<close> in
  memory, formatted output, and the \<^verbatim>\<open>stream_line_reader\<close> with its fixed and its growing buffer. The
  connection is code outside the repository (a record of functions on its state). Writing is
  verified once for every stream that appends what it is given (locale \<open>output_stream\<close>); reading is
  specified by the bytes that are still to come (\<open>source_laws\<close>).
\<close>

section \<open>Connections and streams\<close>

text \<open>\<open>select_read\<close> tells whether data arrives in time; \<open>recv\<close> gives \<open>None\<close> for an error, no bytes at the end of the
  stream, and at most as many bytes as asked for otherwise; \<open>send\<close> returns the count or a negative
  number.\<close>

record 'k net =
  select_read :: "'k \<Rightarrow> bool \<times> 'k"
  recv :: "nat \<Rightarrow> 'k \<Rightarrow> bytes option \<times> 'k"
  net_send :: "bytes \<Rightarrow> 'k \<Rightarrow> int \<times> 'k"

text \<open>A read gives \<open>None\<close> for a negative result.\<close>

type_synonym 'k reader = "nat \<Rightarrow> 'k \<Rightarrow> bytes option \<times> 'k"
type_synonym 'k writer = "bytes \<Rightarrow> 'k \<Rightarrow> int \<times> 'k"

definition SocketStream_read :: "'k net \<Rightarrow> 'k reader" where
  "SocketStream_read net n k =
     (case select_read net k of
        (True, k') \<Rightarrow> recv net n k'
      | (False, k') \<Rightarrow> (None, k'))"

definition SocketStream_write :: "'k net \<Rightarrow> 'k writer" where
  "SocketStream_write net d k = net_send net d k"

text \<open>\<^verbatim>\<open>BufferStream\<close>: the state is the buffer. A read copies from its start and removes nothing.\<close>

definition BufferStream_read :: "bytes reader" where
  "BufferStream_read n buffer = (Some (take n buffer), buffer)"

definition BufferStream_write :: "bytes writer" where
  "BufferStream_write d buffer = (int (length d), buffer @ d)"

section \<open>Formatted output\<close>

text \<open>\<^verbatim>\<open>snprintf\<close> into a buffer of the given size: what it stores, without the terminating zero, and the
  length of the whole text, negative when that does not fit an \<^verbatim>\<open>int\<close>.\<close>

definition snprintf :: "nat \<Rightarrow> bytes \<Rightarrow> bytes \<times> int" where
  "snprintf sz str =
     (take (sz - 1) str, if length str < 2 ^ 31 then int (length str) else - 1)"

text \<open>The \<^verbatim>\<open>while\<close> loop that doubles the buffer.\<close>

function grow_buffer :: "nat \<Rightarrow> int \<Rightarrow> nat" where
  "grow_buffer sz n = (if 0 < sz \<and> n \<ge> int (sz - 1) then grow_buffer (sz * 2) n else sz)"
  by pat_completeness auto
termination by (relation "measure (\<lambda>(sz, n). nat (n + 1) - (sz - 1))") auto

declare grow_buffer.simps [simp del]

definition write_format :: "'k writer \<Rightarrow> bytes \<Rightarrow> 'k \<Rightarrow> int \<times> 'k" where
  "write_format emit str k =
     (let (buf, n) = snprintf 2047 str
      in if n \<le> 0 then (n, k)
         else if n \<ge> 2047
         then let sz = grow_buffer 2048 n; (glowable_buf, n') = snprintf (sz - 1) str
              in emit (take (nat n') glowable_buf) k
         else emit (take (nat n) buf) k)"

lemma grow_buffer_fits:
  assumes "0 < sz" and "0 \<le> n"
  shows "n < int (grow_buffer sz n) - 1"
  using assms
proof (induction sz n rule: grow_buffer.induct)
  case (1 sz n)
  show ?case
  proof (cases "n \<ge> int (sz - 1)")
    case True
    with 1 show ?thesis by (subst grow_buffer.simps) simp
  next
    case False
    with 1(2) show ?thesis by (subst grow_buffer.simps) simp
  qed
qed

lemma write_format_text:
  assumes "str \<noteq> []" and "length str < 2 ^ 31"
  shows "write_format emit str k = emit str k"
proof (cases "length str < 2047")
  case True
  with assms show ?thesis by (simp add: write_format_def snprintf_def)
next
  case False
  let ?size = "grow_buffer 2048 (int (length str))"
  have "int (length str) < int ?size - 1" by (rule grow_buffer_fits) simp_all
  then have "length str \<le> ?size - 1 - 1" by linarith
  with False assms show ?thesis by (simp add: write_format_def snprintf_def)
qed

section \<open>Streams that append\<close>

locale output_stream =
  fixes emit :: "'k writer" and written :: "'k \<Rightarrow> bytes"
  assumes appends: "\<exists>k'. emit d k = (int (length d), k') \<and> written k' = written k @ d"
begin

lemma write_format_appends:
  assumes "length str < 2 ^ 31"
  shows "\<exists>k'. write_format emit str k = (int (length str), k') \<and> written k' = written k @ str"
proof (cases "str = []")
  case True
  then show ?thesis by (simp add: write_format_def snprintf_def)
next
  case False
  with assms appends [of str k] show ?thesis by (simp add: write_format_text)
qed

end

interpretation buffer_stream: output_stream BufferStream_write "\<lambda>buffer. buffer"
  by unfold_locales (simp add: BufferStream_write_def)

section \<open>Reading lines\<close>

record line_reader =
  fixed_buffer :: bytes       \<comment> \<open>the used part of the fixed buffer\<close>
  glowable_buffer :: bytes

definition line_ptr :: "line_reader \<Rightarrow> bytes" where
  "line_ptr lr = (if glowable_buffer lr = [] then fixed_buffer lr else glowable_buffer lr)"

definition line_size :: "line_reader \<Rightarrow> nat" where
  "line_size lr = (if glowable_buffer lr = [] then length (fixed_buffer lr) else length (glowable_buffer lr))"

definition end_with_crlf :: "line_reader \<Rightarrow> bool" where
  "end_with_crlf lr \<longleftrightarrow> 2 \<le> line_size lr
     \<and> line_ptr lr ! (line_size lr - 2) = CR \<and> line_ptr lr ! (line_size lr - 1) = LF"

definition line_append :: "nat \<Rightarrow> char \<Rightarrow> line_reader \<Rightarrow> line_reader" where
  "line_append fixed_buffer_size c lr =
     (if length (fixed_buffer lr) < fixed_buffer_size - 1
      then lr\<lparr>fixed_buffer := fixed_buffer lr @ [c]\<rparr>
      else lr\<lparr>glowable_buffer :=
             (if glowable_buffer lr = [] then fixed_buffer lr else glowable_buffer lr) @ [c]\<rparr>)"

text \<open>The loop of \<^verbatim>\<open>getline\<close>; \<open>None\<close> is a stream that goes on for ever without an end of line.\<close>

partial_function (option) getline_loop ::
    "'k reader \<Rightarrow> nat \<Rightarrow> nat \<Rightarrow> line_reader \<Rightarrow> 'k \<Rightarrow> (bool \<times> line_reader \<times> 'k) option" where
  "getline_loop read sz i lr k =
     (case read 1 k of
        (None, k') \<Rightarrow> Some (False, lr, k')
      | (Some [], k') \<Rightarrow> Some (i \<noteq> 0, lr, k')
      | (Some (byte # _), k') \<Rightarrow>
          let lr' = line_append sz byte lr
          in if byte = LF then Some (True, lr', k') else getline_loop read sz (Suc i) lr' k')"

definition getline :: "'k reader \<Rightarrow> nat \<Rightarrow> 'k \<Rightarrow> (bool \<times> line_reader \<times> 'k) option" where
  "getline read sz k = getline_loop read sz 0 \<lparr>fixed_buffer = [], glowable_buffer = []\<rparr> k"

text \<open>The two buffers together hold the line read so far.\<close>

lemma line_size_ptr [simp]: "line_size lr = length (line_ptr lr)"
  by (simp add: line_size_def line_ptr_def)

lemma line_ptr_append:
  assumes "glowable_buffer lr = [] \<or> sz - 1 \<le> length (fixed_buffer lr)"
  shows "line_ptr (line_append sz c lr) = line_ptr lr @ [c]"
    and "glowable_buffer (line_append sz c lr) = []
         \<or> sz - 1 \<le> length (fixed_buffer (line_append sz c lr))"
  using assms by (auto simp: line_append_def line_ptr_def)

section \<open>What is still to come\<close>

text \<open>The behaviour of a connection that delivers a finite sequence of bytes: a read returns some of them,
  in order and at least one, until there are none left.\<close>

definition source_laws :: "'k reader \<Rightarrow> ('k \<Rightarrow> bytes) \<Rightarrow> bool" where
  "source_laws read incoming \<longleftrightarrow>
     (\<forall>n k. 0 < n \<longrightarrow> (\<exists>b k'. read n k = (Some b, k') \<and> incoming k = b @ incoming k' \<and> length b \<le> n
                            \<and> (b = [] \<longrightarrow> incoming k = [])))"

lemma source_read:
  assumes "source_laws read incoming" and "0 < n"
  obtains b k' where "read n k = (Some b, k')" "incoming k = b @ incoming k'" "length b \<le> n"
    "b = [] \<longrightarrow> incoming k = []"
  using assms unfolding source_laws_def by meson

lemma source_read_byte:
  assumes "source_laws read incoming" and "incoming k = c # r"
  obtains k' where "read 1 k = (Some [c], k')" "incoming k' = r"
proof -
  obtain b k' where b: "read 1 k = (Some b, k')" "incoming k = b @ incoming k'" "length b \<le> 1"
      "b = [] \<longrightarrow> incoming k = []"
    using source_read [OF assms(1), of 1 k] by auto
  then obtain x where "b = [x]" using assms(2) by (cases b) auto
  with b assms(2) that show ?thesis by auto
qed

lemma getline_loop_line:
  assumes "source_laws read incoming" and "LF \<notin> set l" and "incoming k = l @ LF # r"
    and "glowable_buffer lr = [] \<or> sz - 1 \<le> length (fixed_buffer lr)"
  shows "\<exists>lr' k'. getline_loop read sz i lr k = Some (True, lr', k')
       \<and> line_ptr lr' = line_ptr lr @ l @ [LF] \<and> incoming k' = r"
  using assms(2-)
proof (induction l arbitrary: i lr k)
  case Nil
  from source_read_byte [OF assms(1), of k LF r] Nil(2) obtain k' where
    "read 1 k = (Some [LF], k')" "incoming k' = r" by auto
  then show ?case using line_ptr_append(1) [OF Nil(3)] by (subst getline_loop.simps) simp
next
  case (Cons c l)
  from source_read_byte [OF assms(1), of k c "l @ LF # r"] Cons(3) obtain k' where
    k': "read 1 k = (Some [c], k')" "incoming k' = l @ LF # r" by auto
  have "c \<noteq> LF" "LF \<notin> set l" using Cons(2) by auto
  with Cons(1) [OF this(2) k'(2) line_ptr_append(2) [OF Cons(4), of c], of "Suc i"] k'(1) show ?case
    by (subst getline_loop.simps) (simp add: Let_def line_ptr_append(1) [OF Cons(4)])
qed

lemma getline_line:
  assumes "source_laws read incoming" and "LF \<notin> set l" and "incoming k = l @ LF # r"
  shows "\<exists>lr k'. getline read sz k = Some (True, lr, k') \<and> line_ptr lr = l @ [LF] \<and> incoming k' = r"
  using getline_loop_line [OF assms, of "\<lparr>fixed_buffer = [], glowable_buffer = []\<rparr>" sz 0]
  by (simp add: getline_def line_ptr_def)

lemma end_with_crlf_line: "line_ptr lr = l @ [LF] \<Longrightarrow> end_with_crlf lr \<longleftrightarrow> l \<noteq> [] \<and> last l = CR"
  by (cases l rule: rev_cases) (auto simp: end_with_crlf_def nth_append)

section \<open>The fixed buffer\<close>

definition buffers_ok :: "nat \<Rightarrow> line_reader \<Rightarrow> bool" where
  "buffers_ok sz lr \<longleftrightarrow>
     length (fixed_buffer lr) < sz \<and> (glowable_buffer lr \<noteq> [] \<longrightarrow> length (fixed_buffer lr) = sz - 1)"

lemma buffers_ok_append: "buffers_ok sz lr \<Longrightarrow> buffers_ok sz (line_append sz c lr)"
  by (auto simp: buffers_ok_def line_append_def)

lemma buffers_ok_getline_loop:
  assumes "getline_loop read sz i lr k = Some y" and "buffers_ok sz lr"
  shows "buffers_ok sz (fst (snd y))"
  by (rule getline_loop.raw_induct [where P = "\<lambda>read sz i lr k y. buffers_ok sz lr \<longrightarrow> buffers_ok sz (fst (snd y))",
        THEN mp, OF _ assms])
    (auto simp: Let_def buffers_ok_append split: prod.splits option.splits list.splits if_splits)

section \<open>Properties\<close>

text \<open>C35. A line never overruns the fixed buffer. Whatever the connection delivers, \<^verbatim>\<open>getline\<close> stores at most
  one byte less than the size of the caller's array, which leaves room for the terminating zero, and
  bytes go to the growing buffer only once the array is full.\<close>

theorem getline_within_buffer:
  assumes "0 < sz" and "getline read sz k = Some (ok, lr, k')"
  shows "length (fixed_buffer lr) < sz \<and> (glowable_buffer lr \<noteq> [] \<longrightarrow> length (fixed_buffer lr) = sz - 1)"
  using buffers_ok_getline_loop [OF assms(2) [unfolded getline_def]] assms(1) by (simp add: buffers_ok_def)

section \<open>Witnesses\<close>

theorem getline_within_buffer_witness:
  "\<exists>lr. getline (\<lambda>n k. (Some (take n k), drop n k)) 3 [CHR ''a'', CHR ''b'', CHR ''c'', LF] = Some (True, lr, [])
     \<and> length (fixed_buffer lr) = 2 \<and> glowable_buffer lr = [CHR ''a'', CHR ''b'', CHR ''c'', LF]"
proof -
  let ?read = "\<lambda>n k. (Some (take n k), drop n k) :: bytes option \<times> bytes"
  let ?lr = "\<lparr>fixed_buffer = ''ab'', glowable_buffer = [CHR ''a'', CHR ''b'', CHR ''c'', LF]\<rparr>"
  have g: "getline ?read 3 [CHR ''a'', CHR ''b'', CHR ''c'', LF] = Some (True, ?lr, [])"
    by (simp add: getline_def getline_loop.simps line_append_def Let_def)
  from getline_within_buffer [OF _ g] g show ?thesis by simp
qed

end
