(* ===== verification/Http_Message.thy ===== *)
theory Http_Message
  imports Http_Stream "HOL-Library.List_Lexorder" "HOL-Library.Multiset"
begin

text \<open>
  The messages of the HTTP client (\<^verbatim>\<open>httplib.h\<close>): headers as a multimap ordered without regard to case,
  reading and writing them, and the three ways a body is delimited (a length, chunks, the end of the
  stream). The theory shows that the multimap stays ordered and keeps the order of equal names, that
  headers written by the library are read back by it, that a body is received whole in each of the
  three forms, and which chunk lines make the reader throw.
\<close>

section \<open>Headers\<close>

type_synonym headers = "(bytes \<times> bytes) list"

text \<open>\<^verbatim>\<open>detail::ci\<close> compares the lower case letters as signed characters.\<close>

definition ci :: "bytes \<Rightarrow> int list" where
  "ci s = map (\<lambda>c. signed_char (tolower c)) s"

definition ci_less :: "bytes \<Rightarrow> bytes \<Rightarrow> bool" where
  "ci_less s1 s2 \<longleftrightarrow> ci s1 < ci s2"

text \<open>\<^verbatim>\<open>multimap::emplace\<close> inserts behind the elements that are not greater; \<^verbatim>\<open>find\<close> gives the first element that
  is not less, if it is not greater either.\<close>

fun emplace :: "bytes \<Rightarrow> bytes \<Rightarrow> headers \<Rightarrow> headers" where
  "emplace key val [] = [(key, val)]"
| "emplace key val ((k, v) # hs) =
     (if ci_less key k then (key, val) # (k, v) # hs else (k, v) # emplace key val hs)"

fun find_header :: "headers \<Rightarrow> bytes \<Rightarrow> headers" where
  "find_header [] key = []"
| "find_header ((k, v) # hs) key =
     (if ci_less k key then find_header hs key
      else if ci_less key k then [] else (k, v) # hs)"

definition has_header :: "headers \<Rightarrow> bytes \<Rightarrow> bool" where
  "has_header hs key \<longleftrightarrow> find_header hs key \<noteq> []"

text \<open>\<^verbatim>\<open>get_header_value\<close> with the index 0; the value is returned as a C string.\<close>

definition get_header_value :: "headers \<Rightarrow> bytes \<Rightarrow> bytes \<Rightarrow> bytes" where
  "get_header_value hs key def = (case find_header hs key of [] \<Rightarrow> def | (k, v) # _ \<Rightarrow> c_str v)"

definition get_header_value_uint64 :: "headers \<Rightarrow> bytes \<Rightarrow> nat \<Rightarrow> nat" where
  "get_header_value_uint64 hs key def =
     (case find_header hs key of [] \<Rightarrow> def | (k, v) # _ \<Rightarrow> strtoull v)"

text \<open>\<^verbatim>\<open>strcasecmp\<close> of two C strings gives zero.\<close>

definition same_ignoring_case :: "bytes \<Rightarrow> bytes \<Rightarrow> bool" where
  "same_ignoring_case s t \<longleftrightarrow> map tolower (c_str s) = map tolower (c_str t)"

definition is_chunked_transfer_encoding :: "headers \<Rightarrow> bool" where
  "is_chunked_transfer_encoding hs \<longleftrightarrow>
     same_ignoring_case (get_header_value hs ''Transfer-Encoding'' []) ''chunked''"

section \<open>Reading headers\<close>

definition blank :: "char \<Rightarrow> bool" where "blank c \<longleftrightarrow> c = CHR '' '' \<or> c = CHR 0x09"

text \<open>The \<^verbatim>\<open>while\<close> loop that moves the end of the line back over blanks.\<close>

definition trim_end :: "bytes \<Rightarrow> bytes" where
  "trim_end s = rev (dropWhile blank (rev s))"

text \<open>A match of \<^verbatim>\<open>(.+?):[\t ]*(.+)\<close> with the whole line. A dot matches no line terminator. The first group is
  as short as possible, so it ends at the first colon behind the first character; the blanks are
  taken greedily but leave one character for the second group.\<close>

definition match_header :: "bytes \<Rightarrow> (bytes \<times> bytes) option" where
  "match_header s =
     (case s of
        [] \<Rightarrow> None
      | c # r \<Rightarrow>
          let key = c # takeWhile (\<lambda>x. x \<noteq> CHR '':'') r;
              rest = drop 1 (dropWhile (\<lambda>x. x \<noteq> CHR '':'') r);
              val = dropWhile blank rest
          in if CR \<in> set s \<or> LF \<in> set s \<or> rest = [] then None
             else Some (key, if val = [] then [last rest] else val))"

partial_function (option) read_headers ::
    "'k reader \<Rightarrow> headers \<Rightarrow> 'k \<Rightarrow> (bool \<times> headers \<times> 'k) option" where
  "read_headers read hs k =
     (case getline read 2048 k of
        None \<Rightarrow> None
      | Some (ok, lr, k') \<Rightarrow>
          if \<not> ok then Some (False, hs, k')
          else if \<not> end_with_crlf lr then read_headers read hs k'
          else if line_size lr = 2 then Some (True, hs, k')
          else case match_header (trim_end (take (line_size lr - 2) (line_ptr lr))) of
                 None \<Rightarrow> read_headers read hs k'
               | Some (key, val) \<Rightarrow> read_headers read (emplace key val hs) k')"

section \<open>Writing headers\<close>

definition header_line :: "bytes \<times> bytes \<Rightarrow> bytes" where
  "header_line h = c_str (fst h) @ '': '' @ c_str (snd h) @ crlf"

text \<open>The loop over one map: the length written so far, or the negative result of a write.\<close>

primrec write_header_lines :: "'k writer \<Rightarrow> headers \<Rightarrow> int \<Rightarrow> 'k \<Rightarrow> (int + int) \<times> 'k" where
  "write_header_lines emit [] write_len k = (Inr write_len, k)"
| "write_header_lines emit (h # hs) write_len k =
     (case write_format emit (header_line h) k of
        (len, k') \<Rightarrow> if len < 0 then (Inl len, k') else write_header_lines emit hs (write_len + len) k')"

definition write_headers :: "'k writer \<Rightarrow> headers \<Rightarrow> headers \<Rightarrow> 'k \<Rightarrow> int \<times> 'k" where
  "write_headers emit info_headers hs k =
     (case write_header_lines emit info_headers 0 k of
        (Inl len, k1) \<Rightarrow> (len, k1)
      | (Inr n1, k1) \<Rightarrow>
          (case write_header_lines emit hs n1 k1 of
             (Inl len, k2) \<Rightarrow> (len, k2)
           | (Inr n2, k2) \<Rightarrow>
               (case emit crlf k2 of (len, k3) \<Rightarrow> (if len < 0 then len else n2 + len, k3))))"

section \<open>Bodies\<close>

definition RECV_BUFSIZ :: nat where "RECV_BUFSIZ = 4096"

text \<open>A content receiver takes the bytes and may refuse them.\<close>

type_synonym 'r receiver = "bytes \<Rightarrow> 'r \<Rightarrow> bool \<times> 'r"

lemma read_progress: "r < len \<Longrightarrow> b \<noteq> [] \<Longrightarrow> len - (r + length b) < len - (r :: nat)"
  by (cases b) auto

function read_content_with_length ::
    "'k reader \<Rightarrow> 'r receiver \<Rightarrow> nat \<Rightarrow> nat \<Rightarrow> 'r \<Rightarrow> 'k \<Rightarrow> bool \<times> 'r \<times> 'k" where
  "read_content_with_length read out len r acc k =
     (if r < len
      then case read (min (len - r) RECV_BUFSIZ) k of
             (None, k') \<Rightarrow> (False, acc, k')
           | (Some buf, k') \<Rightarrow>
               if buf = [] then (False, acc, k')
               else case out buf acc of
                      (False, acc') \<Rightarrow> (False, acc', k')
                    | (True, acc') \<Rightarrow> read_content_with_length read out len (r + length buf) acc' k'
      else (True, acc, k))"
  by pat_completeness auto
termination
  by (relation "measure (\<lambda>(read, out, len, r, acc, k). len - r)") (auto intro: read_progress)

declare read_content_with_length.simps [simp del]

function skip_content_with_length :: "'k reader \<Rightarrow> nat \<Rightarrow> nat \<Rightarrow> 'k \<Rightarrow> 'k" where
  "skip_content_with_length read len r k =
     (if r < len
      then case read (min (len - r) RECV_BUFSIZ) k of
             (None, k') \<Rightarrow> k'
           | (Some buf, k') \<Rightarrow>
               if buf = [] then k' else skip_content_with_length read len (r + length buf) k'
      else k)"
  by pat_completeness auto
termination
  by (relation "measure (\<lambda>(read, len, r, k). len - r)") (auto intro: read_progress)

declare skip_content_with_length.simps [simp del]

text \<open>\<open>None\<close> is a stream that never ends.\<close>

partial_function (option) read_content_without_length ::
    "'k reader \<Rightarrow> 'r receiver \<Rightarrow> 'r \<Rightarrow> 'k \<Rightarrow> (bool \<times> 'r \<times> 'k) option" where
  "read_content_without_length read out acc k =
     (case read RECV_BUFSIZ k of
        (None, k') \<Rightarrow> Some (False, acc, k')
      | (Some buf, k') \<Rightarrow>
          if buf = [] then Some (True, acc, k')
          else case out buf acc of (ok, acc') \<Rightarrow>
                 if \<not> ok then Some (False, acc', k')
                 else read_content_without_length read out acc' k')"

text \<open>Chunks. \<^verbatim>\<open>std::stoi\<close> throws on a line that is no hexadecimal number; nothing here catches it. The state is
  what was received together with the stream.\<close>

definition next_chunk :: "'k reader \<Rightarrow> 'r \<times> 'k \<Rightarrow> (int option, 'r \<times> 'k) result option" where
  "next_chunk read s =
     (case getline read 16 (snd s) of
        None \<Rightarrow> None
      | Some (False, lr, k') \<Rightarrow> Some (Return None, fst s, k')
      | Some (True, lr, k') \<Rightarrow>
          (case stoi 16 (line_ptr lr) of
             Inl msg \<Rightarrow> Some (Throw msg, fst s, k')
           | Inr chunk_len \<Rightarrow> Some (Return (Some chunk_len), fst s, k')))"

text \<open>One round of the loop: \<open>Inl\<close> leaves the function with a result, \<open>Inr\<close> is the length of the next chunk.\<close>

definition chunk_round ::
    "'k reader \<Rightarrow> 'r receiver \<Rightarrow> int \<Rightarrow> 'r \<times> 'k \<Rightarrow> (bool + int, 'r \<times> 'k) result option" where
  "chunk_round read out chunk_len s =
     (case read_content_with_length read out (nat chunk_len) 0 (fst s) (snd s) of
        (False, s') \<Rightarrow> Some (Return (Inl False), s')
      | (True, s') \<Rightarrow>
          (case getline read 16 (snd s') of
             None \<Rightarrow> None
           | Some (False, lr, k) \<Rightarrow> Some (Return (Inl False), fst s', k)
           | Some (True, lr, k) \<Rightarrow>
               if c_str (line_ptr lr) \<noteq> crlf then Some (Return (Inl True), fst s', k)
               else map_option (\<lambda>r. chain r (\<lambda>len s''. (Return (case len of None \<Rightarrow> Inl False | Some n \<Rightarrow> Inr n), s'')))
                      (next_chunk read (fst s', k))))"

text \<open>The loop, and what follows it: \<open>chunk_len\<close> is the length of the chunk that comes next.\<close>

partial_function (option) chunk_loop ::
    "'k reader \<Rightarrow> 'r receiver \<Rightarrow> int \<Rightarrow> 'r \<times> 'k \<Rightarrow> (bool, 'r \<times> 'k) result option" where
  "chunk_loop read out chunk_len s =
     (if chunk_len > 0
      then (case chunk_round read out chunk_len s of
              None \<Rightarrow> None
            | Some (r, s') \<Rightarrow>
                (case r of
                   Return x \<Rightarrow> (case x of Inl ret \<Rightarrow> Some (Return ret, s') | Inr n \<Rightarrow> chunk_loop read out n s')
                 | Throw msg \<Rightarrow> Some (Throw msg, s')
                 | Block \<Rightarrow> Some (Block, s')
                 | Crash \<Rightarrow> Some (Crash, s')))
      else if chunk_len = 0
      then (case getline read 16 (snd s) of
              None \<Rightarrow> None
            | Some (ok, lr, k) \<Rightarrow> Some (Return (ok \<and> c_str (line_ptr lr) = crlf), fst s, k))
      else Some (Return True, s))"

definition read_content_chunked ::
    "'k reader \<Rightarrow> 'r receiver \<Rightarrow> 'r \<times> 'k \<Rightarrow> (bool, 'r \<times> 'k) result option" where
  "read_content_chunked read out s =
     (case next_chunk read s of
        None \<Rightarrow> None
      | Some (Return (Some n), s') \<Rightarrow> chunk_loop read out n s'
      | Some (Return None, s') \<Rightarrow> Some (Return False, s')
      | Some (Throw msg, s') \<Rightarrow> Some (Throw msg, s')
      | Some (Block, s') \<Rightarrow> Some (Block, s')
      | Some (Crash, s') \<Rightarrow> Some (Crash, s'))"

text \<open>\<^verbatim>\<open>read_content\<close> without \<^verbatim>\<open>CPPHTTPLIB_ZLIB_SUPPORT\<close>, which the module does not define: a compressed body is
  refused. The result pairs the flag with the new value of \<open>status\<close>.\<close>

definition read_content ::
    "'k reader \<Rightarrow> headers \<Rightarrow> nat \<Rightarrow> int \<Rightarrow> 'r receiver \<Rightarrow> 'r \<times> 'k \<Rightarrow> (bool \<times> int, 'r \<times> 'k) result option" where
  "read_content read hs payload_max_length status out s =
     (if get_header_value hs ''Content-Encoding'' [] = ''gzip''
      then Some (Return (False, 415), s)
      else if is_chunked_transfer_encoding hs
      then map_option (\<lambda>r. chain r (\<lambda>ok s'. (Return (ok, if ok then status else 400), s')))
             (read_content_chunked read out s)
      else if \<not> has_header hs ''Content-Length''
      then map_option (\<lambda>(ok, s'). (Return (ok, if ok then status else 400), s'))
             (read_content_without_length read out (fst s) (snd s))
      else let len = get_header_value_uint64 hs ''Content-Length'' 0
           in if len > payload_max_length
              then Some (Return (False, 413), fst s, skip_content_with_length read len 0 (snd s))
              else if len > 0
              then (case read_content_with_length read out len 0 (fst s) (snd s) of
                      (ok, s') \<Rightarrow> Some (Return (ok, if ok then status else 400), s'))
              else Some (Return (True, status), s))"

text \<open>One chunk as \<^verbatim>\<open>write_content_chunked\<close> emits it, and the end of the chunks.\<close>

definition chunk :: "bytes \<Rightarrow> bytes" where
  "chunk d = from_i_to_hex (length d) @ crlf @ d @ crlf"

definition last_chunk :: bytes where "last_chunk = ''0'' @ crlf @ crlf"

text \<open>The receiver of \<^verbatim>\<open>Client::process_request\<close> appends to the body; \<open>max_size\<close> is that of \<^verbatim>\<open>std::string\<close>.\<close>

definition body_receiver :: "nat \<Rightarrow> bytes receiver" where
  "body_receiver max_size buf body =
     (if length body + length buf > max_size then (False, body) else (True, body @ buf))"

section \<open>The multimap\<close>

definition headers_sorted :: "headers \<Rightarrow> bool" where
  "headers_sorted hs \<longleftrightarrow> sorted (map (\<lambda>h. ci (fst h)) hs)"

definition emplace_all :: "headers \<Rightarrow> headers \<Rightarrow> headers" where
  "emplace_all hs acc = foldl (\<lambda>acc h. emplace (fst h) (snd h) acc) acc hs"

definition named :: "bytes \<Rightarrow> headers \<Rightarrow> headers" where
  "named key hs = filter (\<lambda>h. ci (fst h) = ci key) hs"

lemma emplace_all_simps [simp]:
  "emplace_all [] acc = acc"
  "emplace_all (h # hs) acc = emplace_all hs (emplace (fst h) (snd h) acc)"
  "emplace_all (hs @ gs) acc = emplace_all gs (emplace_all hs acc)"
  by (simp_all add: emplace_all_def)

lemma mset_emplace [simp]: "mset (emplace key val hs) = add_mset (key, val) (mset hs)"
  by (induction key val hs rule: emplace.induct) auto

lemma set_emplace [simp]: "set (emplace key val hs) = insert (key, val) (set hs)"
  by (induction key val hs rule: emplace.induct) auto

lemma sorted_emplace [intro]: "headers_sorted hs \<Longrightarrow> headers_sorted (emplace key val hs)"
  unfolding headers_sorted_def
  by (induction key val hs rule: emplace.induct) (auto simp: ci_less_def)

lemma named_simps [simp]:
  "named key [] = []"
  "named key (h # hs) = (if ci (fst h) = ci key then h # named key hs else named key hs)"
  by (simp_all add: named_def)

lemma named_above: "\<forall>h\<in>set hs. ci key < ci (fst h) \<Longrightarrow> named key hs = []"
  by (induction hs) auto

lemma named_emplace:
  "headers_sorted hs \<Longrightarrow>
   named key (emplace k v hs) = named key hs @ (if ci k = ci key then [(k, v)] else [])"
proof (induction k v hs rule: emplace.induct)
  case (2 key' val k v hs)
  then have "ci key' < ci k \<Longrightarrow> named key' ((k, v) # hs) = []"
    by (intro named_above) (auto simp: headers_sorted_def)
  then have "ci key' < ci k \<Longrightarrow> ci key' = ci key \<Longrightarrow> named key ((k, v) # hs) = []"
    by (simp add: named_def)
  with 2 show ?case by (auto simp: ci_less_def headers_sorted_def)
qed auto

lemma emplace_last:
  "\<forall>h\<in>set hs. ci (fst h) \<le> ci key \<Longrightarrow> emplace key val hs = hs @ [(key, val)]"
  by (induction key val hs rule: emplace.induct) (auto simp: ci_less_def)

lemma emplace_all_sorted: "headers_sorted acc \<Longrightarrow> headers_sorted (emplace_all hs acc)"
  by (induction hs arbitrary: acc) auto

lemma named_emplace_all:
  "headers_sorted acc \<Longrightarrow> named key (emplace_all hs acc) = named key acc @ named key hs"
proof (induction hs arbitrary: acc)
  case (Cons h hs)
  then have "headers_sorted (emplace (fst h) (snd h) acc)" by auto
  with Cons show ?case by (simp add: named_emplace)
qed simp

lemma mset_emplace_all: "mset (emplace_all hs acc) = mset hs + mset acc"
  by (induction hs arbitrary: acc) auto

lemma emplace_all_id: "headers_sorted (acc @ hs) \<Longrightarrow> emplace_all hs acc = acc @ hs"
proof (induction hs arbitrary: acc)
  case (Cons h hs)
  then have "emplace (fst h) (snd h) acc = acc @ [(fst h, snd h)]"
    by (intro emplace_last) (auto simp: headers_sorted_def sorted_append)
  with Cons show ?case by simp
qed simp

lemma find_header_named:
  "headers_sorted hs \<Longrightarrow>
   (case find_header hs key of [] \<Rightarrow> None | h # _ \<Rightarrow> Some h)
     = (case named key hs of [] \<Rightarrow> None | h # _ \<Rightarrow> Some h)"
proof (induction hs key rule: find_header.induct)
  case (2 k v hs key)
  show ?case
  proof (cases "ci key < ci k")
    case True
    then have "named key ((k, v) # hs) = []"
      using 2(2) by (intro named_above) (auto simp: headers_sorted_def)
    with True show ?thesis by (auto simp: ci_less_def)
  next
    case False
    with 2 show ?thesis by (auto simp: ci_less_def headers_sorted_def)
  qed
qed simp

lemma has_header_named: "headers_sorted hs \<Longrightarrow> has_header hs key \<longleftrightarrow> named key hs \<noteq> []"
  using find_header_named [of hs key] by (auto simp: has_header_def split: list.splits)

lemma get_header_value_named:
  "headers_sorted hs \<Longrightarrow>
   get_header_value hs key def = (case named key hs of [] \<Rightarrow> def | h # _ \<Rightarrow> c_str (snd h))"
  using find_header_named [of hs key] by (auto simp: get_header_value_def split: list.splits)

lemma get_header_value_uint64_named:
  "headers_sorted hs \<Longrightarrow>
   get_header_value_uint64 hs key def = (case named key hs of [] \<Rightarrow> def | h # _ \<Rightarrow> strtoull (snd h))"
  using find_header_named [of hs key] by (auto simp: get_header_value_uint64_def split: list.splits)

lemma ci_length: "length s \<noteq> length t \<Longrightarrow> ci s \<noteq> ci t"
  unfolding ci_def by (metis length_map)

lemma sorted_single [simp]: "headers_sorted [h]"
  by (simp add: headers_sorted_def)

section \<open>Header lines\<close>

definition header_ok :: "bytes \<times> bytes \<Rightarrow> bool" where
  "header_ok h \<longleftrightarrow>
     fst h \<noteq> [] \<and> list_all (\<lambda>c. c \<notin> {NUL, CR, LF, CHR '':''}) (fst h)
     \<and> snd h \<noteq> [] \<and> list_all (\<lambda>c. c \<notin> {NUL, CR, LF}) (snd h)
     \<and> \<not> blank (hd (snd h)) \<and> \<not> blank (last (snd h)) \<and> length (header_line h) < 2 ^ 31"

lemma c_str_plain: "NUL \<notin> set s \<Longrightarrow> c_str s = s"
  by (auto simp: c_str_def intro: takeWhile_eq_all_conv [THEN iffD2])

lemma header_line_plain: "header_ok h \<Longrightarrow> header_line h = fst h @ '': '' @ snd h @ crlf"
  by (subst header_line_def, subst c_str_plain, force simp: header_ok_def list_all_iff)
    (subst c_str_plain, auto simp: header_ok_def list_all_iff)

lemma trim_end_plain: "s \<noteq> [] \<Longrightarrow> \<not> blank (last s) \<Longrightarrow> trim_end s = s"
  by (cases s rule: rev_cases) (simp_all add: trim_end_def)

lemma match_header_plain:
  assumes "header_ok h"
  shows "match_header (fst h @ '': '' @ snd h) = Some h"
proof -
  obtain c r where k: "fst h = c # r" using assms by (cases "fst h") (auto simp: header_ok_def)
  obtain d v where v: "snd h = d # v" "\<not> blank d"
    using assms by (cases "snd h") (auto simp: header_ok_def)
  have colon: "takeWhile (\<lambda>x. x \<noteq> CHR '':'') (r @ CHR '':'' # t) = r"
      "dropWhile (\<lambda>x. x \<noteq> CHR '':'') (r @ CHR '':'' # t) = CHR '':'' # t" for t
    using assms by (auto simp: header_ok_def k list_all_iff takeWhile_append dropWhile_append)
  have "CR \<notin> set (fst h @ '': '' @ snd h)" "LF \<notin> set (fst h @ '': '' @ snd h)"
    using assms by (auto simp: header_ok_def list_all_iff)
  moreover have "h = (c # r, d # v)" using k v(1) by (cases h) simp
  ultimately show ?thesis using v(2) by (simp add: match_header_def colon blank_def)
qed

lemma read_headers_line:
  assumes "source_laws read incoming" and "header_ok h" and "incoming k = header_line h @ r"
  shows "\<exists>k'. read_headers read hs k = read_headers read (emplace (fst h) (snd h) hs) k' \<and> incoming k' = r"
proof -
  let ?l = "fst h @ '': '' @ snd h"
  have "incoming k = (?l @ [CR]) @ LF # r" "LF \<notin> set (?l @ [CR])"
    using assms(2,3) header_line_plain [OF assms(2)]
    by (auto simp: crlf_def header_ok_def list_all_iff)
  from getline_line [OF assms(1) this(2,1), of 2048] obtain lr k' where
    g: "getline read 2048 k = Some (True, lr, k')" "line_ptr lr = (?l @ [CR]) @ [LF]" "incoming k' = r"
    by auto
  then have "end_with_crlf lr" by (simp add: end_with_crlf_line)
  moreover have "trim_end ?l = ?l" by (rule trim_end_plain) (use assms(2) in \<open>auto simp: header_ok_def\<close>)
  ultimately show ?thesis
    using g match_header_plain [OF assms(2)] by (subst read_headers.simps) (auto split: prod.splits)
qed

lemma read_headers_lines:
  assumes "source_laws read incoming" and "list_all header_ok hs"
    and "incoming k = concat (map header_line hs) @ crlf @ r"
  shows "\<exists>k'. read_headers read acc k = Some (True, emplace_all hs acc, k') \<and> incoming k' = r"
  using assms(2,3)
proof (induction hs arbitrary: acc k)
  case Nil
  then have "incoming k = [CR] @ LF # r" "LF \<notin> set [CR]" by (simp_all add: crlf_def)
  from getline_line [OF assms(1) this(2,1), of 2048] show ?case
    by (subst read_headers.simps) (auto simp: end_with_crlf_line)
next
  case (Cons h hs)
  then have "header_ok h" "incoming k = header_line h @ concat (map header_line hs) @ crlf @ r" by auto
  from read_headers_line [OF assms(1) this, of acc] Cons show ?case by auto
qed

text \<open>Written headers, on every stream that appends.\<close>

context output_stream
begin

lemma write_header_lines_appends:
  assumes "list_all header_ok hs"
  shows "\<exists>n k'. write_header_lines emit hs m k = (Inr n, k') \<and> m \<le> n
           \<and> written k' = written k @ concat (map header_line hs)"
  using assms
proof (induction hs arbitrary: m k)
  case (Cons h hs)
  then have "length (header_line h) < 2 ^ 31" by (simp add: header_ok_def)
  from write_format_appends [OF this, of k] obtain k1 where
    k1: "write_format emit (header_line h) k = (int (length (header_line h)), k1)"
      "written k1 = written k @ header_line h" by auto
  from Cons.IH [of "m + int (length (header_line h))" k1] Cons.prems k1 show ?case by force
qed auto

lemma write_headers_appends:
  assumes "list_all header_ok info" and "list_all header_ok hs"
  shows "\<exists>n k'. write_headers emit info hs k = (n, k') \<and> 0 \<le> n
           \<and> written k' = written k @ concat (map header_line (info @ hs)) @ crlf"
proof -
  from write_header_lines_appends [OF assms(1), of 0 k] obtain n1 k1 where
    1: "write_header_lines emit info 0 k = (Inr n1, k1)" "0 \<le> n1"
      "written k1 = written k @ concat (map header_line info)" by auto
  from write_header_lines_appends [OF assms(2), of n1 k1] obtain n2 k2 where
    2: "write_header_lines emit hs n1 k1 = (Inr n2, k2)" "n1 \<le> n2"
      "written k2 = written k1 @ concat (map header_line hs)" by auto
  from appends [of crlf k2] obtain k3 where
    "emit crlf k2 = (int (length crlf), k3)" "written k3 = written k2 @ crlf" by auto
  with 1 2 show ?thesis by (simp add: write_headers_def)
qed

end

section \<open>Whole bodies\<close>

lemma body_receiver_room:
  "length body + length d \<le> max_size \<Longrightarrow> body_receiver max_size d body = (True, body @ d)"
  by (simp add: body_receiver_def)

lemma read_with_length_source:
  assumes "source_laws read incoming" and "length body + length d \<le> max_size"
    and "incoming k = d @ r" and "len = n + length d"
  shows "\<exists>k'. read_content_with_length read (body_receiver max_size) len n body k = (True, body @ d, k')
           \<and> incoming k' = r"
  using assms(2-)
proof (induction d arbitrary: body k n rule: length_induct)
  case (1 d)
  show ?case
  proof (cases "d = []")
    case True
    with 1 show ?thesis by (subst read_content_with_length.simps) simp
  next
    case False
    then have pos: "0 < min (len - n) RECV_BUFSIZ" using 1(4) by (simp add: RECV_BUFSIZ_def)
    from source_read [OF assms(1) pos, of k] obtain b k' where
      b: "read (min (len - n) RECV_BUFSIZ) k = (Some b, k')" "incoming k = b @ incoming k'"
        "length b \<le> len - n" "b = [] \<longrightarrow> incoming k = []" by (metis min.boundedE)
    then have "b \<noteq> []" "length b \<le> length d" using False 1(3,4) by auto
    then obtain d' where d': "d = b @ d'" "incoming k' = d' @ r"
      using b(2) 1(3) by (metis append_eq_append_conv_if append_eq_conv_conj append_take_drop_id)
    with 1(2-4) b(1) \<open>b \<noteq> []\<close> 1(1) [rule_format, of d' "body @ b" k' "n + length b"] show ?thesis
      by (subst read_content_with_length.simps) (simp add: body_receiver_room)
  qed
qed

lemma read_without_length_source:
  assumes "source_laws read incoming" and "length body + length (incoming k) \<le> max_size"
  shows "\<exists>k'. read_content_without_length read (body_receiver max_size) body k
             = Some (True, body @ incoming k, k') \<and> incoming k' = []"
  using assms(2)
proof (induction "length (incoming k)" arbitrary: body k rule: less_induct)
  case less
  from source_read [OF assms(1), of RECV_BUFSIZ k] obtain b k' where
    b: "read RECV_BUFSIZ k = (Some b, k')" "incoming k = b @ incoming k'" "b = [] \<longrightarrow> incoming k = []"
    by (metis RECV_BUFSIZ_def zero_less_numeral)
  show ?case
  proof (cases "b = []")
    case True
    with b show ?thesis by (subst read_content_without_length.simps) simp
  next
    case False
    with b less(2) less(1) [of k' "body @ b"] show ?thesis
      by (subst read_content_without_length.simps) (simp add: body_receiver_room)
  qed
qed

lemma next_chunk_line:
  assumes "source_laws read incoming" and "incoming k = from_i_to_hex n @ crlf @ r" and "n < 2 ^ 31"
  shows "\<exists>k'. next_chunk read (body, k) = Some (Return (Some (int n)), body, k') \<and> incoming k' = r"
proof -
  have "\<forall>c\<in>set (from_i_to_hex n). c \<noteq> LF"
    using digit_plain(7) [of 16] hex_facts [of n] by (auto simp: from_i_to_hex_def from_i_to_hex_loop_radix)
  then have "LF \<notin> set (from_i_to_hex n @ [CR])" by auto
  with getline_line [OF assms(1) this, of k r 16] assms(2) stoi_hex [OF assms(3), of "[LF]"]
  show ?thesis by (auto simp: next_chunk_def crlf_def)
qed

lemma getline_crlf:
  assumes "source_laws read incoming" and "incoming k = crlf @ r"
  shows "\<exists>lr k'. getline read sz k = Some (True, lr, k') \<and> c_str (line_ptr lr) = crlf \<and> incoming k' = r"
  using getline_line [OF assms(1), of "[CR]" k r sz] assms(2) by (auto simp: crlf_def c_str_def)

text \<open>After a chunk the loop starts again.\<close>

lemma chunk_loop_step:
  assumes "source_laws read incoming" and "length body + length d \<le> max_size" and "d \<noteq> []"
    and "incoming k = d @ crlf @ r"
  shows "\<exists>k'. chunk_loop read (body_receiver max_size) (int (length d)) (body, k)
             = read_content_chunked read (body_receiver max_size) (body @ d, k') \<and> incoming k' = r"
proof -
  from read_with_length_source [OF assms(1,2,4), of "length d" 0] obtain k1 where
    k1: "read_content_with_length read (body_receiver max_size) (length d) 0 body k = (True, body @ d, k1)"
      "incoming k1 = crlf @ r" by auto
  from getline_crlf [OF assms(1) k1(2), of 16] obtain lr k2 where
    k2: "getline read 16 k1 = Some (True, lr, k2)" "c_str (line_ptr lr) = crlf" "incoming k2 = r" by auto
  have "chunk_loop read (body_receiver max_size) (int (length d)) (body, k)
      = read_content_chunked read (body_receiver max_size) (body @ d, k2)"
    using k1(1) k2(1,2) assms(3)
    by (subst chunk_loop.simps)
      (simp add: chunk_round_def chain_def read_content_chunked_def
        split: option.splits outcome.splits prod.splits)
  with k2(3) show ?thesis by blast
qed

lemma read_content_chunked_chunks:
  assumes "source_laws read incoming" and "list_all (\<lambda>d. d \<noteq> [] \<and> length d < 2 ^ 31) ds"
    and "length body + length (concat ds) \<le> max_size"
    and "incoming k = concat (map chunk ds) @ last_chunk @ r"
  shows "\<exists>k'. read_content_chunked read (body_receiver max_size) (body, k)
             = Some (Return True, body @ concat ds, k') \<and> incoming k' = r"
  using assms(2-)
proof (induction ds arbitrary: body k)
  case Nil
  have "from_i_to_hex 0 = ''0''" by code_simp
  with Nil(3) have "incoming k = from_i_to_hex 0 @ crlf @ crlf @ r" by (simp add: last_chunk_def)
  from next_chunk_line [OF assms(1) this, of body] obtain k1 where
    k1: "next_chunk read (body, k) = Some (Return (Some 0), body, k1)" "incoming k1 = crlf @ r" by auto
  from getline_crlf [OF assms(1) k1(2), of 16] k1(1) show ?case
    by (auto simp: read_content_chunked_def chunk_loop.simps)
next
  case (Cons d ds)
  let ?r = "concat (map chunk ds) @ last_chunk @ r"
  from Cons.prems have d: "d \<noteq> []" "length d < 2 ^ 31" "length body + length d \<le> max_size"
    "incoming k = from_i_to_hex (length d) @ crlf @ d @ crlf @ ?r" by (auto simp: chunk_def [of d])
  from next_chunk_line [OF assms(1) d(4,2), of body] obtain k1 where
    k1: "next_chunk read (body, k) = Some (Return (Some (int (length d))), body, k1)"
      "incoming k1 = d @ crlf @ ?r" by auto
  from chunk_loop_step [OF assms(1) d(3,1) k1(2)] obtain k2 where
    k2: "chunk_loop read (body_receiver max_size) (int (length d)) (body, k1)
        = read_content_chunked read (body_receiver max_size) (body @ d, k2)" "incoming k2 = ?r" by blast
  have "list_all (\<lambda>d. d \<noteq> [] \<and> length d < 2 ^ 31) ds" "length (body @ d) + length (concat ds) \<le> max_size"
    using Cons.prems by simp_all
  from Cons.IH [OF this k2(2)] k1(1) k2(1) show ?case
    by (simp add: read_content_chunked_def [of read _ "(body, k)"])
qed

text \<open>How headers delimit a body on the wire.\<close>

inductive framed :: "headers \<Rightarrow> bytes \<Rightarrow> bytes \<Rightarrow> bool" for hs where
  chunks: "is_chunked_transfer_encoding hs \<Longrightarrow> list_all (\<lambda>d. d \<noteq> [] \<and> length d < 2 ^ 31) ds \<Longrightarrow>
    framed hs (concat ds) (concat (map chunk ds) @ last_chunk @ r)"
| sized: "\<not> is_chunked_transfer_encoding hs \<Longrightarrow> has_header hs ''Content-Length'' \<Longrightarrow>
    get_header_value_uint64 hs ''Content-Length'' 0 = length body \<Longrightarrow> framed hs body (body @ r)"
| until_end: "\<not> is_chunked_transfer_encoding hs \<Longrightarrow> \<not> has_header hs ''Content-Length'' \<Longrightarrow>
    framed hs body body"

lemma read_content_framed:
  assumes "source_laws read incoming" and "framed hs body (incoming k)"
    and "get_header_value hs ''Content-Encoding'' [] \<noteq> ''gzip''"
    and "length body \<le> max_size" and "length body \<le> payload_max_length"
  shows "\<exists>k'. read_content read hs payload_max_length status (body_receiver max_size) ([], k)
             = Some (Return (True, status), body, k')"
  using assms(2)
proof cases
  case (chunks ds r)
  with read_content_chunked_chunks [OF assms(1) chunks(4), of "[]" max_size k r] assms(3,4) show ?thesis
    by (auto simp: read_content_def)
next
  case (sized r)
  from read_with_length_source [OF assms(1), of "[]" body max_size k r "length body" 0] sized assms(4)
  have "\<exists>k'. read_content_with_length read (body_receiver max_size) (length body) 0 [] k = (True, body, k')"
    by auto
  with sized assms(3,5) show ?thesis by (auto simp: read_content_def)
next
  case until_end
  with read_without_length_source [OF assms(1), of "[]" k max_size] assms(3,4) show ?thesis
    by (auto simp: read_content_def)
qed

section \<open>What reading leaves alone\<close>

text \<open>A part of the state that no single read changes is changed by none of the readers built on it.\<close>

lemma chain_state: "chain q (\<lambda>a s'. (Return (f a), s')) = (r, s) \<Longrightarrow> snd q = s"
  by (cases q; cases "fst q") auto

locale quiet_reader =
  fixes read :: "'k reader" and part :: "'k \<Rightarrow> 'p"
  assumes quiet: "part (snd (read n k)) = part k"
begin

lemma quiet_read: "read n k = (b, k') \<Longrightarrow> part k' = part k"
  using quiet [of n k] by simp

lemma quiet_getline_loop:
  assumes "getline_loop read sz i lr k = Some y"
  shows "part (snd (snd y)) = part k"
  by (rule getline_loop.raw_induct
      [where P = "\<lambda>rd sz i lr k y. rd = read \<longrightarrow> part (snd (snd y)) = part k", THEN mp, OF _ assms refl])
    (fastforce simp: Let_def dest!: quiet_read split: prod.splits option.splits list.splits if_splits)

lemma quiet_getline: "getline read sz k = Some (ok, lr, k') \<Longrightarrow> part k' = part k"
  using quiet_getline_loop [of sz 0 _ k] by (fastforce simp: getline_def)

lemma quiet_read_headers:
  assumes "read_headers read hs k = Some (ok, hs', k')"
  shows "part k' = part k"
  using read_headers.raw_induct
      [where P = "\<lambda>rd hs k y. rd = read \<longrightarrow> part (snd (snd y)) = part k", THEN mp, OF _ assms refl]
  by (fastforce dest!: quiet_getline split: prod.splits option.splits if_splits)

lemma quiet_with_length:
  "rd = read \<Longrightarrow> part (snd (snd (read_content_with_length rd out len r acc k))) = part k"
proof (induction rd out len r acc k rule: read_content_with_length.induct)
  case (1 rd out len r acc k)
  then show ?case
    by (subst read_content_with_length.simps)
      (auto dest!: quiet_read split: prod.splits option.splits bool.splits)
qed

lemma quiet_with_length_eq:
  "read_content_with_length read out len r acc k = (ok, s) \<Longrightarrow> part (snd s) = part k"
  using quiet_with_length [of read out len r acc k] by simp

lemma quiet_skip: "rd = read \<Longrightarrow> part (skip_content_with_length rd len r k) = part k"
proof (induction rd len r k rule: skip_content_with_length.induct)
  case (1 rd len r k)
  then show ?case
    by (subst skip_content_with_length.simps) (auto dest!: quiet_read split: prod.splits option.splits)
qed

lemma quiet_without_length:
  assumes "read_content_without_length read out acc k = Some (ok, acc', k')"
  shows "part k' = part k"
  using read_content_without_length.raw_induct
      [where P = "\<lambda>rd out acc k y. rd = read \<longrightarrow> part (snd (snd y)) = part k", THEN mp, OF _ assms refl]
  by (fastforce dest!: quiet_read split: prod.splits option.splits if_splits)

lemma quiet_next_chunk: "next_chunk read s = Some (r, s') \<Longrightarrow> part (snd s') = part (snd s)"
  by (auto simp: next_chunk_def dest!: quiet_getline split: prod.splits option.splits bool.splits sum.splits)

lemma quiet_chunk_round:
  assumes "chunk_round read out n s = Some (r, s')"
  shows "part (snd s') = part (snd s)"
proof -
  obtain ok s1 where s1: "read_content_with_length read out (nat n) 0 (fst s) (snd s) = (ok, s1)" by (rule prod.exhaust)
  then have q1: "part (snd s1) = part (snd s)" by (rule quiet_with_length_eq)
  show ?thesis
  proof (cases ok)
    case False
    with assms s1 q1 show ?thesis by (auto simp: chunk_round_def)
  next
    case True
    with assms s1 obtain ok2 lr k where g: "getline read 16 (snd s1) = Some (ok2, lr, k)"
      by (auto simp: chunk_round_def split: option.splits)
    then have "part k = part (snd s)" using q1 by (simp add: quiet_getline)
    with assms s1 True g show ?thesis
      by (cases ok2) (auto simp: chunk_round_def dest!: chain_state quiet_next_chunk split: if_splits)
  qed
qed

lemma quiet_chunk_loop:
  assumes "chunk_loop read out n s = Some (r, s')"
  shows "part (snd s') = part (snd s)"
proof -
  have "part (snd (snd (r, s'))) = part (snd s)"
    by (rule chunk_loop.raw_induct
        [where P = "\<lambda>rd out n s y. rd = read \<longrightarrow> part (snd (snd y)) = part (snd s)", THEN mp, OF _ assms refl])
      (fastforce dest!: quiet_getline quiet_chunk_round
        split: prod.splits option.splits if_splits outcome.splits sum.splits)
  then show ?thesis by simp
qed

lemma quiet_chunked: "read_content_chunked read out s = Some (r, s') \<Longrightarrow> part (snd s') = part (snd s)"
  by (auto simp: read_content_chunked_def dest!: quiet_next_chunk quiet_chunk_loop
      split: prod.splits option.splits outcome.splits)

lemma quiet_read_content:
  assumes "read_content read hs m st out s = Some (r, s')"
  shows "part (snd s') = part (snd s)"
proof -
  consider "get_header_value hs ''Content-Encoding'' [] = ''gzip''"
    | "get_header_value hs ''Content-Encoding'' [] \<noteq> ''gzip''" "is_chunked_transfer_encoding hs"
    | "get_header_value hs ''Content-Encoding'' [] \<noteq> ''gzip''" "\<not> is_chunked_transfer_encoding hs"
      "\<not> has_header hs ''Content-Length''"
    | "get_header_value hs ''Content-Encoding'' [] \<noteq> ''gzip''" "\<not> is_chunked_transfer_encoding hs"
      "has_header hs ''Content-Length''" by blast
  then show ?thesis
  proof cases
    case 2
    with assms show ?thesis by (auto simp: read_content_def dest!: chain_state quiet_chunked)
  next
    case 3
    with assms show ?thesis by (auto simp: read_content_def dest!: quiet_without_length)
  next
    case 4
    with assms show ?thesis
      by (auto simp: read_content_def Let_def quiet_skip dest!: quiet_with_length_eq
          split: if_splits prod.splits)
  qed (use assms in \<open>simp add: read_content_def\<close>)
qed

end

text \<open>A buffer is not changed by reading it.\<close>

interpretation buffer_reader: quiet_reader BufferStream_read "\<lambda>buffer. buffer"
  by unfold_locales (simp add: BufferStream_read_def)

text \<open>A stream held in memory that is consumed as it is read.\<close>

definition list_source :: "bytes reader" where
  "list_source n k = (Some (take n k), drop n k)"

lemma list_source_laws: "source_laws list_source (\<lambda>k. k)"
  by (auto simp: source_laws_def list_source_def)

section \<open>Properties\<close>

text \<open>The headers of a message form a multimap that is ordered without regard to case: whatever headers
  are put in, the result is ordered, it holds each header exactly once, and a lookup gives the value of the
  header that was put in first among those with the same name up to case, or the default.\<close>

theorem headers_multimap:
  "headers_sorted (emplace_all hs []) \<and> mset (emplace_all hs []) = mset hs
   \<and> get_header_value (emplace_all hs []) key def
     = (case filter (\<lambda>h. ci (fst h) = ci key) hs of [] \<Rightarrow> def | h # _ \<Rightarrow> c_str (snd h))"
proof -
  have empty: "headers_sorted []" by (simp add: headers_sorted_def)
  with emplace_all_sorted have "headers_sorted (emplace_all hs [])" by blast
  then show ?thesis
    using named_emplace_all [OF empty, of key hs] mset_emplace_all [of hs "[]"]
    by (simp add: get_header_value_named named_def)
qed

text \<open>Headers survive the wire: for an ordered multimap of headers with plain names and values, what
  \<^verbatim>\<open>write_headers\<close> puts into a buffer is read back by \<^verbatim>\<open>read_headers\<close> from any connection that delivers those
  bytes as exactly the same multimap, and the bytes behind them are left for the body.\<close>

theorem headers_round_trip:
  assumes "source_laws read incoming" and "list_all header_ok hs" and "headers_sorted hs"
    and "incoming k = snd (write_headers BufferStream_write [] hs []) @ r"
  shows "\<exists>k'. read_headers read [] k = Some (True, hs, k') \<and> incoming k' = r"
proof -
  from buffer_stream.write_headers_appends [OF _ assms(2), of "[]" "[]"]
  have "snd (write_headers BufferStream_write [] hs []) = concat (map header_line hs) @ crlf" by auto
  with read_headers_lines [OF assms(1,2), of k r "[]"] assms(3,4) show ?thesis
    by (simp add: emplace_all_id)
qed

text \<open>A body is received whole. When the headers delimit it by chunks, by a length or by the end of the
  connection, \<^verbatim>\<open>read_content\<close> hands exactly its bytes to the response, however the connection splits them,
  and leaves the status as it was.\<close>

theorem body_received_whole:
  assumes "source_laws read incoming" and "framed hs body (incoming k)"
    and "get_header_value hs ''Content-Encoding'' [] \<noteq> ''gzip''"
    and "length body \<le> max_size" and "length body \<le> payload_max_length"
  shows "\<exists>k'. read_content read hs payload_max_length status (body_receiver max_size) ([], k)
             = Some (Return (True, status), body, k')"
  by (rule read_content_framed [OF assms])

section \<open>Witnesses\<close>

theorem headers_round_trip_witness:
  "\<exists>k'. read_headers list_source [] (''accept: */*'' @ crlf @ ''host: h'' @ crlf @ crlf @ ''body'')
        = Some (True, [(''accept'', ''*/*''), (''host'', ''h'')], k') \<and> k' = ''body''"
proof -
  let ?hs = "[(''accept'', ''*/*''), (''host'', ''h'')]"
  have lines: "header_line (''accept'', ''*/*'') = ''accept: */*'' @ crlf"
    "header_line (''host'', ''h'') = ''host: h'' @ crlf" by code_simp+
  have "list_all header_ok ?hs" using lines by (simp add: header_ok_def crlf_def blank_def)
  moreover have "headers_sorted ?hs"
    by (simp add: headers_sorted_def ci_def signed_char_def tolower_def)
  moreover have
    "snd (write_headers BufferStream_write [] ?hs []) = ''accept: */*'' @ crlf @ ''host: h'' @ crlf @ crlf"
    by (simp add: write_headers_def lines write_format_def snprintf_def BufferStream_write_def crlf_def)
  ultimately show ?thesis using headers_round_trip [OF list_source_laws, of ?hs _ "''body''"] by (metis append.assoc)
qed

theorem body_received_whole_witness:
  "\<exists>k'. read_content list_source [(''Transfer-Encoding'', ''chunked'')] 100 200 (body_receiver 100)
          ([], ''3'' @ crlf @ ''abc'' @ crlf @ ''0'' @ crlf @ crlf)
        = Some (Return (True, 200), ''abc'', k')"
proof (rule body_received_whole [OF list_source_laws])
  let ?hs = "[(''Transfer-Encoding'', ''chunked'')]"
  have "chunk ''abc'' = ''3'' @ crlf @ ''abc'' @ crlf"
    by (simp add: chunk_def from_i_to_hex_def from_i_to_hex_loop.simps hex_charset_def)
  moreover have "is_chunked_transfer_encoding ?hs"
    by (simp add: is_chunked_transfer_encoding_def get_header_value_named same_ignoring_case_def c_str_def)
  ultimately show "framed ?hs ''abc'' (''3'' @ crlf @ ''abc'' @ crlf @ ''0'' @ crlf @ crlf)"
    using framed.chunks [of ?hs "[''abc'']" "[]"] by (simp add: last_chunk_def)
  show "get_header_value ?hs ''Content-Encoding'' [] \<noteq> ''gzip''"
    by (simp add: get_header_value_named ci_length)
qed simp_all

end
