(* ===== verification/Fetch.thy ===== *)
theory Fetch
  imports Thread_Pool Weak_Objects Http_Message
begin

text \<open>
  \<^verbatim>\<open>http.fetch\<close> and the response objects it resolves to. The request is assembled from the arguments
  and the optional object, sent by a worker through cpp-httplib, and answered by an object with
  \<^verbatim>\<open>status\<close>, \<^verbatim>\<open>text\<close>, \<^verbatim>\<open>blob\<close> and \<^verbatim>\<open>headers\<close>. The HTTP client is a parameter here, filled in by the theory of the fetching thread; V8's property access
  is one too. The
  names of the properties come from the cache of \<^verbatim>\<open>find_or_create_eternal_name_cache\<close>, which is shown
  to be transparent in the theory of the engine; here they are written out.
\<close>

section \<open>Requests\<close>

record FetchRequest =
  is_ssl :: bool
  hostname :: bytes
  path :: bytes
  request_method :: bytes
  body :: bytes
  request_headers :: headers

definition new_request :: "bytes \<Rightarrow> bytes \<Rightarrow> FetchRequest" where
  "new_request host p = \<lparr>is_ssl = False, hostname = host, path = p, request_method = ''GET'',
                         body = [], request_headers = []\<rparr>"

text \<open>V8's side of the object: \<open>None\<close> is a property access that threw. \<open>property_names\<close> gives the names
  in order together with the values read for them.\<close>

record v8_objects =
  GetProperty :: "js_value \<Rightarrow> bytes \<Rightarrow> js_value option"
  property_names :: "js_value \<Rightarrow> (js_value \<times> js_value option) list option"

primrec read_header_properties ::
    "(js_value \<times> js_value option) list \<Rightarrow> FetchRequest \<Rightarrow> 's \<Rightarrow> (FetchRequest, 's) result" where
  "read_header_properties [] req s = (Return req, s)"
| "read_header_properties (x # xs) req s =
     (case snd x of
        None \<Rightarrow> (Crash, s)
      | Some val \<Rightarrow>
          or_throw (from_v8_string (fst x)) s (\<lambda>key.
          or_throw (from_v8_string val) s (\<lambda>v.
          read_header_properties xs (req\<lparr>request_headers := emplace key v (request_headers req)\<rparr>) s)))"

text \<open>The block for the third argument: \<^verbatim>\<open>body\<close>, \<^verbatim>\<open>method\<close>, \<^verbatim>\<open>is_ssl\<close>, \<^verbatim>\<open>headers\<close>, in this order; a property of
  another type is ignored.\<close>

definition read_init :: "v8_objects \<Rightarrow> js_value \<Rightarrow> FetchRequest \<Rightarrow> 's \<Rightarrow> (FetchRequest, 's) result" where
  "read_init js object req s =
     (case GetProperty js object ''body'' of
        None \<Rightarrow> (Throw ''unable to get value.'', s)
      | Some b \<Rightarrow>
     let req1 = (case b of Str t \<Rightarrow> req\<lparr>body := utf8 t\<rparr> | _ \<Rightarrow> req)
     in case GetProperty js object ''method'' of
        None \<Rightarrow> (Throw ''unable to get value.'', s)
      | Some m \<Rightarrow>
     let req2 = (case m of Str t \<Rightarrow> req1\<lparr>request_method := utf8 t\<rparr> | _ \<Rightarrow> req1)
     in case GetProperty js object ''is_ssl'' of
        None \<Rightarrow> (Throw ''unable to get value.'', s)
      | Some l \<Rightarrow>
     let req3 = (case l of Boolean flag \<Rightarrow> req2\<lparr>is_ssl := flag\<rparr> | _ \<Rightarrow> req2)
     in case GetProperty js object ''headers'' of
        None \<Rightarrow> (Throw ''unable to get value.'', s)
      | Some h \<Rightarrow>
     if IsObject h
     then (case property_names js h of
             None \<Rightarrow> (Crash, s)
           | Some names \<Rightarrow> read_header_properties names req3 s)
     else (Return req3, s))"

definition fetch_request :: "v8_objects \<Rightarrow> js_args \<Rightarrow> 's \<Rightarrow> (FetchRequest, 's) result" where
  "fetch_request js args s =
     (if length args < 2 then (Throw ''invalid function signature for http.fetch'', s)
      else if \<not> IsString (arg args 0) \<or> \<not> IsString (arg args 1)
      then (Throw ''invalid argument types for http.fetch'', s)
      else or_throw (from_v8_string (arg args 0)) s (\<lambda>host.
           or_throw (from_v8_string (arg args 1)) s (\<lambda>p.
           if length args > 2 \<and> IsObject (arg args 2)
           then read_init js (arg args 2) (new_request host p) s
           else (Return (new_request host p), s))))"

definition fetch_start :: "v8_objects \<Rightarrow> js_args \<Rightarrow> pool \<Rightarrow> (nat \<times> FetchRequest, pool) result" where
  "fetch_start js args p =
     chain (fetch_request js args p) (\<lambda>req p'. begin_job req p')"

section \<open>Sending\<close>

record http_response =
  status :: int
  response_body :: bytes
  response_headers :: headers
  body_capacity :: int
  version_capacity :: int

text \<open>\<open>send ssl host method path headers body\<close>: one method call of \<^verbatim>\<open>httplib::Client\<close> or \<^verbatim>\<open>SSLClient\<close>; methods
  without a body pass \<open>None\<close>. \<open>None\<close> as a result is a null response.\<close>

type_synonym httplib =
  "bool \<Rightarrow> bytes \<Rightarrow> string \<Rightarrow> bytes \<Rightarrow> headers \<Rightarrow> bytes option \<Rightarrow> http_response option"

definition send_request :: "httplib \<Rightarrow> FetchRequest \<Rightarrow> http_response option" where
  "send_request send req =
     (let call = (\<lambda>verb content. send (is_ssl req) (hostname req) verb (c_str (path req))
                                   (request_headers req) content);
          r0 = None;
          r1 = (if request_method req = ''GET'' then call ''GET'' None else r0);
          r2 = (if request_method req = ''POST'' then call ''POST'' (Some (body req)) else r1);
          r3 = (if request_method req = ''HEAD'' then call ''HEAD'' None else r2);
          r4 = (if request_method req = ''PUT'' then call ''PUT'' (Some (body req)) else r3);
          r5 = (if request_method req = ''DELETE'' then call ''DELETE'' (Some (body req)) else r4);
          r6 = (if request_method req = ''OPTIONS'' then call ''OPTIONS'' None else r5);
          r7 = (if request_method req = ''PATCH'' then call ''PATCH'' (Some (body req)) else r6)
      in r7)"

text \<open>\<^verbatim>\<open>FetchResponse::capacity\<close>, with the sizes of \<^verbatim>\<open>int\<close>, \<^verbatim>\<open>std::string\<close> and a pair of strings of a 64-bit
  Windows build.\<close>

definition capacity :: "http_response \<Rightarrow> int" where
  "capacity r =
     body_capacity r + version_capacity r + 4 + (32 + 64) * int (length (response_headers r))"

text \<open>The end of the worker, after the slot was freed: reject, or create the object and resolve.\<close>

definition fetch_answer ::
    "http_response option \<Rightarrow> http_response heap \<Rightarrow> settlement \<times> http_response heap" where
  "fetch_answer response h =
     (case response of
        None \<Rightarrow> (RejectedWith ''unable to fetch'', h)
      | Some r \<Rightarrow> let (object, h') = new_object capacity r h in (ResolvedWith (RObject object), h'))"

definition fetch_worker ::
    "httplib \<Rightarrow> http_response heap \<Rightarrow> FetchRequest \<Rightarrow> nat \<Rightarrow> pool \<Rightarrow> pool option" where
  "fetch_worker send h req i p =
     Some (settle i (fst (fetch_answer (send_request send req) h)) (release_slot p))"

section \<open>The response object\<close>

definition fetch_status :: "nat \<Rightarrow> http_response heap \<Rightarrow> (js_return, http_response heap) result" where
  "fetch_status this h =
     (case internal_pointer this h of
        None \<Rightarrow> (Throw ''invalid fetch response for status'', h)
      | Some r \<Rightarrow> (Return (RInteger (status r)), h))"

definition fetch_text ::
    "nat \<Rightarrow> nat \<Rightarrow> http_response heap \<Rightarrow> (js_return, http_response heap) result" where
  "fetch_text max_length this h =
     (case internal_pointer this h of
        None \<Rightarrow> (Throw ''invalid fetch response for text'', h)
      | Some r \<Rightarrow>
          if response_body r = [] then (Return RNull, h)
          else if max_length < length (response_body r) then (Crash, h)
          else (Return (ROneByte (response_body r)), h))"

definition fetch_blob :: "nat \<Rightarrow> http_response heap \<Rightarrow> (js_return, http_response heap) result" where
  "fetch_blob this h =
     (case internal_pointer this h of
        None \<Rightarrow> (Throw ''invalid fetch response for blob'', h)
      | Some r \<Rightarrow>
          if response_body r = [] then (Return RNull, h)
          else (Return (RUint8Array (response_body r)), h))"

definition fetch_headers :: "nat \<Rightarrow> http_response heap \<Rightarrow> (js_return, http_response heap) result" where
  "fetch_headers this h =
     (case internal_pointer this h of
        None \<Rightarrow> (Throw ''invalid fetch response for headers'', h)
      | Some r \<Rightarrow>
          if response_headers r = [] then (Return RNull, h)
          else (Return (RProperties (response_headers r)), h))"

section \<open>Contracts\<close>

text \<open>The validation leaves the pool alone, whatever the script's object does.\<close>

lemma read_header_properties_state: "snd (read_header_properties xs req s) = s"
  by (induction xs arbitrary: req) (auto simp: or_throw_def split: option.split sum.split)

lemma read_init_state: "snd (read_init js object req s) = s"
  by (simp add: read_init_def Let_def read_header_properties_state split: option.split)

lemma fetch_request_state: "snd (fetch_request js args s) = s"
  by (simp add: fetch_request_def or_throw_def read_init_state split: sum.split)

lemma read_header_properties_no_block: "fst (read_header_properties xs req s) \<noteq> Block"
  by (induction xs arbitrary: req) (auto simp: or_throw_def split: option.split sum.split)

lemma fetch_start_cases:
  "(\<exists>req. fst (fetch_request js args p) = Return req \<and> fetch_start js args p = begin_job req p)
   \<or> (fst (fetch_start js args p) \<noteq> Return x \<and> snd (fetch_start js args p) = p)"
  using fetch_request_state [of js args p]
  by (cases "fetch_request js args p"; cases "fst (fetch_request js args p)")
     (auto simp: fetch_start_def)

interpretation fetch: settling_callback "fetch_start js" "fetch_worker send h" for js send h
proof
  fix args p i job p'
  assume s: "fetch_start js args p = (Return (i, job), p')"
  with fetch_start_cases [of js args p "(i, job)"] obtain req where
    "begin_job req p = (Return (i, job), p')" by auto
  from begin_job_cases [OF this] show "begin_async p = (Return i, p')" by auto
next
  fix args p r p'
  assume s: "fetch_start js args p = (r, p')" and r: "\<And>x. r \<noteq> Return x"
  from fetch_start_cases [of js args p undefined] show "p' = p"
  proof (elim disjE exE conjE)
    fix req
    assume "fetch_start js args p = begin_job req p"
    with s have "begin_job req p = (r, p')" by simp
    from begin_job_cases [OF this] r show ?thesis by auto
  qed (use s in simp)
next
  fix job i p p'
  assume "fetch_worker send h job i p = Some p'"
  then show "\<exists>st. st \<noteq> Pending \<and> p' = settle i st (release_slot p)"
    by (auto simp: fetch_worker_def fetch_answer_def Let_def split: option.splits prod.splits)
qed (simp add: fetch_worker_def)

interpretation fetch_memory: weak_handle capacity "(=)"
  by unfold_locales simp

section \<open>Properties\<close>

text \<open>The chain of method tests makes at most one request: exactly the seven known methods are sent,
  once, with a body for \<^verbatim>\<open>POST\<close>, \<^verbatim>\<open>PUT\<close>, \<^verbatim>\<open>DELETE\<close> and \<^verbatim>\<open>PATCH\<close> only; any other spelling, lower case included,
  sends nothing and the promise is rejected.\<close>
theorem send_request_dispatch:
  "send_request send req =
     (if request_method req \<in> {''POST'', ''PUT'', ''DELETE'', ''PATCH''}
      then send (is_ssl req) (hostname req) (request_method req) (c_str (path req))
             (request_headers req) (Some (body req))
      else if request_method req \<in> {''GET'', ''HEAD'', ''OPTIONS''}
      then send (is_ssl req) (hostname req) (request_method req) (c_str (path req))
             (request_headers req) None
      else None)"
  by (simp add: send_request_def Let_def)

text \<open>Every promise of \<^verbatim>\<open>http.fetch\<close> is settled, whatever response the client returns: a started request frees its
  thread slot and its promise ends resolved or rejected.\<close>
theorem fetch_promises_settle:
  assumes "pool_ok p" and "fetch_start js args p = (Return (i, req), p')"
  shows "\<exists>p'' st. fetch_worker send h req i p' = Some p'' \<and> thread_count p'' = thread_count p
           \<and> promises p'' i = Some st \<and> st \<noteq> Pending"
  using assms by (rule fetch.promise_settled_finally)

text \<open>The object a fetch resolves to shows the response that was received: its status, its body as
  text and as bytes (\<^verbatim>\<open>null\<close> when empty) and its headers.\<close>
theorem fetch_object_shows_response:
  assumes "list_all (\<lambda>i. i < next_object h) (cleared h)" and "fetch_answer (Some r) h = (st, h')"
    and "length (response_body r) \<le> max_length"
  shows "\<exists>object. st = ResolvedWith (RObject object)
       \<and> fetch_status object h' = (Return (RInteger (status r)), h')
       \<and> fetch_text max_length object h'
           = (Return (if response_body r = [] then RNull else ROneByte (response_body r)), h')
       \<and> fetch_blob object h'
           = (Return (if response_body r = [] then RNull else RUint8Array (response_body r)), h')
       \<and> fetch_headers object h'
           = (Return (if response_headers r = [] then RNull else RProperties (response_headers r)), h')"
proof -
  have "internal_pointer (fst (new_object capacity r h)) (snd (new_object capacity r h)) = Some r"
    using assms(1) by (rule internal_pointer_new)
  with assms(2,3) show ?thesis
    by (auto simp: fetch_answer_def fetch_status_def fetch_text_def fetch_blob_def fetch_headers_def
        case_prod_beta)
qed

text \<open>External memory of fetch responses is balanced: the amount reported to V8 is always the sum of
  the capacities of the responses not collected yet, because a response does not change between
  the two reports.\<close>
theorem fetch_external_memory:
  "external_memory (heap_events capacity (=) es)
     = sum_list (map (\<lambda>x. capacity (snd x)) (handlers (heap_events capacity (=) es)))"
  by (rule fetch_memory.memory_balanced)

section \<open>Witnesses\<close>

definition no_objects :: v8_objects where
  "no_objects = \<lparr>GetProperty = (\<lambda>_ _. Some Undefined), property_names = (\<lambda>_. Some [])\<rparr>"

definition host_name :: js_value where "host_name = Str \<lparr>utf8 = ''h'', two_byte = []\<rparr>"

definition ok_response :: http_response where
  "ok_response = \<lparr>status = 200, response_body = ''ok'', response_headers = [],
                  body_capacity = 15, version_capacity = 15\<rparr>"

theorem fetch_promises_settle_witness:
  "\<exists>i req p' p'' st. fetch_start no_objects [host_name, host_name] empty_pool = (Return (i, req), p')
     \<and> fetch_worker (\<lambda>_ _ _ _ _ _. None) empty_heap req i p' = Some p''
     \<and> promises p'' i = Some st \<and> st \<noteq> Pending"
proof -
  have "\<exists>i req p'. fetch_start no_objects [host_name, host_name] empty_pool = (Return (i, req), p')"
    by (simp add: fetch_start_def fetch_request_def host_name_def begin_job_def begin_async_def
        empty_pool_def may_start_def MAX_THREADS_def)
  then obtain i req p' where s: "fetch_start no_objects [host_name, host_name] empty_pool = (Return (i, req), p')"
    by blast
  have "pool_ok empty_pool" by (simp add: pool_ok_def empty_pool_def MAX_THREADS_def)
  from fetch_promises_settle [OF this s, of "\<lambda>_ _ _ _ _ _. None" empty_heap] s show ?thesis by blast
qed

theorem fetch_object_shows_response_witness:
  "\<exists>object h'. fetch_answer (Some ok_response) empty_heap = (ResolvedWith (RObject object), h')
     \<and> fetch_text 100 object h' = (Return (ROneByte ''ok''), h')"
proof -
  obtain st h' where a: "fetch_answer (Some ok_response) empty_heap = (st, h')" by force
  from fetch_object_shows_response [OF _ a, of 100] a show ?thesis
    by (auto simp: empty_heap_def ok_response_def)
qed

end
