(* ===== verification/Ssl_Verify.thy ===== *)
theory Ssl_Verify
  imports Http_Text
begin

text \<open>
  The check of a server's certificate in the HTTP client library (\<^verbatim>\<open>SSLClient::verify_host\<close>): the names of the
  certificate are compared with the host, label by label and with wildcards. \<^verbatim>\<open>http.fetch\<close> switches this check
  off. The theory shows what the comparison accepts: a wildcard stands for exactly one label, and a
  wildcard behind other characters stands for nothing at all.
\<close>

section \<open>Splitting\<close>

text \<open>\<^verbatim>\<open>detail::split\<close> with both ends given; \<open>current\<close> is the text since \<^verbatim>\<open>beg\<close>.\<close>

primrec split_loop :: "char \<Rightarrow> bytes \<Rightarrow> bytes \<Rightarrow> bytes list" where
  "split_loop d current [] = [current]"
| "split_loop d current (c # s) =
     (if c = d then current # split_loop d [] s else split_loop d (current @ [c]) s)"

definition detail_split :: "bytes \<Rightarrow> char \<Rightarrow> bytes list" where
  "detail_split s d = (if s = [] then [] else split_loop d [] s)"

section \<open>Comparing names\<close>

text \<open>The loop over both lists of components. \<open>p.compare(0, p.size() - 1, h)\<close> compares the pattern without its
  last character with the whole component.\<close>

definition component_matches :: "bytes \<Rightarrow> bytes \<Rightarrow> bool" where
  "component_matches p h \<longleftrightarrow>
     p = h \<or> p = ''*'' \<or> (length p > 0 \<and> last p = CHR ''*'' \<and> take (length p - 1) p = h)"

fun components_match :: "bytes list \<Rightarrow> bytes list \<Rightarrow> bool" where
  "components_match (p # ps) (h # hs) \<longleftrightarrow> component_matches p h \<and> components_match ps hs"
| "components_match _ _ \<longleftrightarrow> True"

definition check_host_name :: "bytes \<Rightarrow> bytes \<Rightarrow> bool" where
  "check_host_name host pattern \<longleftrightarrow>
     (length host = length pattern \<and> host = c_str pattern)
     \<or> (let host_components = detail_split host (CHR ''.''); pattern_components = detail_split pattern (CHR ''.'')
        in length host_components = length pattern_components \<and> components_match pattern_components host_components)"

section \<open>Certificates\<close>

datatype general_name = GEN_DNS bytes | GEN_IPADD bytes | GEN_OTHER

text \<open>What OpenSSL gives of a certificate: the alternative names and the text of the common name, when it has
  them.\<close>

record certificate =
  subject_alt_names :: "general_name list option"
  common_name :: "bytes option"

text \<open>\<open>is_address\<close> is the answer of \<^verbatim>\<open>inet_pton\<close> for the host. The comparison of addresses reads more memory than the
  code has written, so its result is a parameter, \<open>same_address\<close>. The loop stops at a matching DNS name.\<close>

primrec alt_names_loop :: "bytes \<Rightarrow> bool \<Rightarrow> (bytes \<Rightarrow> bool) \<Rightarrow> general_name list \<Rightarrow> bool \<Rightarrow> bool" where
  "alt_names_loop host is_address same_address [] ip_matched = ip_matched"
| "alt_names_loop host is_address same_address (val # rest) ip_matched =
     (case val of
        GEN_DNS name \<Rightarrow>
          if \<not> is_address \<and> length (c_str name) = length name \<and> check_host_name host name then True
          else alt_names_loop host is_address same_address rest ip_matched
      | GEN_IPADD name \<Rightarrow>
          alt_names_loop host is_address same_address rest
            (ip_matched \<or> is_address \<and> length (c_str name) = length name \<and> same_address name)
      | GEN_OTHER \<Rightarrow> alt_names_loop host is_address same_address rest ip_matched)"

definition verify_host_with_subject_alt_name :: "bytes \<Rightarrow> bool \<Rightarrow> (bytes \<Rightarrow> bool) \<Rightarrow> certificate \<Rightarrow> bool" where
  "verify_host_with_subject_alt_name host is_address same_address cert =
     (case subject_alt_names cert of
        None \<Rightarrow> False
      | Some alt_names \<Rightarrow> alt_names_loop host is_address same_address alt_names False)"

definition verify_host_with_common_name :: "bytes \<Rightarrow> certificate \<Rightarrow> bool" where
  "verify_host_with_common_name host cert =
     (case common_name cert of None \<Rightarrow> False | Some name \<Rightarrow> check_host_name host name)"

definition verify_host :: "bytes \<Rightarrow> bool \<Rightarrow> (bytes \<Rightarrow> bool) \<Rightarrow> certificate \<Rightarrow> bool" where
  "verify_host host is_address same_address cert \<longleftrightarrow>
     verify_host_with_subject_alt_name host is_address same_address cert \<or> verify_host_with_common_name host cert"

section \<open>What is accepted\<close>

lemma split_loop_split_on:
  "split_loop d current s = (current @ hd (split_on (\<lambda>c. c = d) s)) # tl (split_on (\<lambda>c. c = d) s)"
proof (induction s arbitrary: current)
  case (Cons c s)
  obtain h t where "split_on (\<lambda>c. c = d) s = h # t" by (rule split_on_obtain)
  with Cons [of "[]"] Cons [of "current @ [c]"] show ?case by simp
qed simp

lemma detail_split_eq: "s \<noteq> [] \<Longrightarrow> detail_split s d = split_on (\<lambda>c. c = d) s"
  by (simp add: detail_split_def split_loop_split_on)

lemma components_match_all2:
  "length hs = length ps \<and> components_match ps hs \<longleftrightarrow> list_all2 component_matches ps hs"
  by (induction ps hs rule: components_match.induct) auto

definition labels :: "bytes \<Rightarrow> bytes list" where
  "labels s = split_on (\<lambda>c. c = CHR ''.'') s"

definition covers :: "bytes \<Rightarrow> bytes \<Rightarrow> bool" where
  "covers p h \<longleftrightarrow> p = h \<or> p = ''*'' \<or> p = h @ ''*''"

lemma component_matches_covers: "component_matches = covers"
proof (intro ext)
  fix p h
  show "component_matches p h = covers p h"
    by (cases p rule: rev_cases) (auto simp: component_matches_def covers_def)
qed

lemma check_host_name_all2:
  assumes "host \<noteq> []"
  shows "check_host_name host pattern \<longleftrightarrow> list_all2 covers (labels pattern) (labels host)"
proof (cases "pattern = []")
  case True
  have "labels host = [[]] \<Longrightarrow> host = []"
    using assms by (cases host) (auto simp: labels_def split: if_splits)
  with True assms show ?thesis
    by (auto simp: check_host_name_def detail_split_eq detail_split_def labels_def covers_def c_str_def Let_def
        split_loop_split_on list_all2_Cons1)
next
  case False
  have "covers p p" for p by (simp add: covers_def)
  then have refl: "list_all2 covers ls ls" for ls by (simp add: list_all2_refl)
  have "length host = length pattern \<and> host = c_str pattern \<Longrightarrow> host = pattern"
    using takeWhile_eq_take [of "\<lambda>c. c \<noteq> NUL" pattern] unfolding c_str_def by (metis take_all_iff length_take min.absorb_iff2 order_refl)
  with refl assms False show ?thesis
    by (auto simp: check_host_name_def detail_split_eq labels_def component_matches_covers Let_def
        components_match_all2)
qed

section \<open>Properties\<close>

text \<open>C36. A certificate name is accepted for a host exactly when both have the same number of labels and each
  label of the name equals the label of the host, is a single wildcard, or is the label of the host
  followed by a wildcard: a wildcard never spans labels, and one behind other characters stands for
  the empty text only.\<close>

theorem check_host_name_labels:
  assumes "host \<noteq> []"
  shows "check_host_name host pattern \<longleftrightarrow>
    list_all2 (\<lambda>p h. p = h \<or> p = ''*'' \<or> p = h @ ''*'')
      (split_on (\<lambda>c. c = CHR ''.'') pattern) (split_on (\<lambda>c. c = CHR ''.'') host)"
  using check_host_name_all2 [OF assms] unfolding labels_def covers_def [abs_def] .

text \<open>The example of the comment in \<^verbatim>\<open>verify_host\<close>, \<^verbatim>\<open>f*.com\<close> for \<^verbatim>\<open>foo.com\<close>, is refused; \<^verbatim>\<open>*.com\<close> is accepted.\<close>

lemma partial_wildcard_refused:
  "\<not> check_host_name ''foo.com'' ''f*.com''" "check_host_name ''foo.com'' ''*.com''"
  by (simp_all add: check_host_name_all2 labels_def covers_def)

section \<open>Witnesses\<close>

theorem check_host_name_labels_witness:
  "check_host_name ''a.b.com'' ''*.b.com'' \<and> \<not> check_host_name ''a.b.com'' ''*.com''"
  using check_host_name_labels [of "''a.b.com''"] by simp

end
