(* ===== verification/Http_Client.thy ===== *)
theory Http_Client
  imports Http_Message Ssl_Verify
begin

text \<open>
  \<^verbatim>\<open>httplib::Client\<close> and \<^verbatim>\<open>httplib::SSLClient\<close> as \<^verbatim>\<open>http.fetch\<close> uses them: one request per call, written to a new
  connection, its response read back, redirects followed when the client asks for it. Sockets and OpenSSL
  are code outside the repository (the record \<open>network\<close>). The regular expressions are written out as the
  functions they denote. Nothing in the module sets a response handler, a content receiver, a content provider or
  a progress callback, so the branches for those are left out; proxies, digest credentials and several
  requests over one connection are in the theory \<open>Http_Auth\<close>. This
  theory shows which bytes a request puts on the wire, that a response is received as it was sent, that
  redirects end, and which responses make the client throw.
\<close>

section \<open>Requests, responses, clients\<close>

record Request =
  req_method :: bytes
  req_path :: bytes
  req_headers :: headers
  req_body :: bytes
  redirect_count :: nat

record Response =
  res_version :: bytes
  res_status :: int
  res_headers :: headers
  res_body :: bytes

definition REDIRECT_MAX_COUNT :: nat where "REDIRECT_MAX_COUNT = 20"
definition KEEPALIVE_MAX_COUNT :: nat where "KEEPALIVE_MAX_COUNT = 5"

definition empty_response :: Response where
  "empty_response = \<lparr>res_version = [], res_status = - 1, res_headers = [], res_body = []\<rparr>"

text \<open>\<open>ctx_valid\<close> is whether \<^verbatim>\<open>SSL_CTX_new\<close> succeeded.\<close>

record Client =
  ssl_client :: bool
  ctx_valid :: bool
  client_host :: bytes
  client_port :: nat
  keep_alive_max_count :: nat
  basic_auth_username :: bytes
  basic_auth_password :: bytes
  proxy_basic_auth_username :: bytes
  proxy_basic_auth_password :: bytes
  follow_location :: bool
  server_certificate_verification :: bool

definition new_client :: "bytes \<Rightarrow> Client" where
  "new_client host = \<lparr>ssl_client = False, ctx_valid = False, client_host = host, client_port = 80,
     keep_alive_max_count = KEEPALIVE_MAX_COUNT, basic_auth_username = [], basic_auth_password = [],
     proxy_basic_auth_username = [], proxy_basic_auth_password = [], follow_location = False,
     server_certificate_verification = False\<rparr>"

definition new_ssl_client :: "bool \<Rightarrow> bytes \<Rightarrow> Client" where
  "new_ssl_client valid host =
     (new_client host)\<lparr>ssl_client := True, ctx_valid := valid, client_port := 443\<rparr>"

definition enable_server_certificate_verification :: "bool \<Rightarrow> Client \<Rightarrow> Client" where
  "enable_server_certificate_verification enabled c = c\<lparr>server_certificate_verification := enabled\<rparr>"

definition host_and_port :: "Client \<Rightarrow> bytes" where
  "host_and_port c = client_host c @ '':'' @ std_to_string (client_port c)"

definition copy_settings :: "Client \<Rightarrow> Client \<Rightarrow> Client" where
  "copy_settings rhs c = c\<lparr>
     keep_alive_max_count := keep_alive_max_count rhs,
     basic_auth_username := basic_auth_username rhs,
     basic_auth_password := basic_auth_password rhs,
     follow_location := follow_location rhs,
     proxy_basic_auth_username := proxy_basic_auth_username rhs,
     proxy_basic_auth_password := proxy_basic_auth_password rhs\<rparr>"

section \<open>Writing a request\<close>

text \<open>The two groups of \<^verbatim>\<open>^((?:[^:/?#]+://)?(?:[^/?#]*)?)?([^?#]*(?:\?[^#]*)?(?:#.*)?)\<close>: a scheme with an
  authority, and the rest. Everything matches but a fragment with an end of line in it.\<close>

definition fragment_ok :: "bytes \<Rightarrow> bool" where
  "fragment_ok s \<longleftrightarrow> list_all (\<lambda>c. c \<noteq> CR \<and> c \<noteq> LF) (dropWhile (\<lambda>c. c \<noteq> CHR ''#'') s)"

definition split_scheme :: "bytes \<Rightarrow> bytes \<times> bytes" where
  "split_scheme s =
     (let scheme = takeWhile (\<lambda>c. c \<notin> set '':/?#'') s; r = drop (length scheme) s
      in if scheme \<noteq> [] \<and> take 3 r = ''://'' then (scheme @ ''://'', drop 3 r) else ([], s))"

definition split_path :: "bytes \<Rightarrow> (bytes \<times> bytes) option" where
  "split_path s =
     (let (pre, r) = split_scheme s; authority = takeWhile (\<lambda>c. c \<notin> set ''/?#'') r;
          rest = dropWhile (\<lambda>c. c \<notin> set ''/?#'') r
      in if fragment_ok rest then Some (pre @ authority, rest) else None)"

definition make_basic_authentication_header :: "bytes \<Rightarrow> bytes \<Rightarrow> bool \<Rightarrow> bytes \<times> bytes" where
  "make_basic_authentication_header username password is_proxy =
     (if is_proxy then ''Proxy-Authorization'' else ''Authorization'',
      ''Basic '' @ base64_encode (username @ '':'' @ password))"

text \<open>\<^verbatim>\<open>emplace\<close> and \<^verbatim>\<open>insert\<close> under a condition.\<close>

definition emplace_when :: "bool \<Rightarrow> bytes \<Rightarrow> bytes \<Rightarrow> headers \<Rightarrow> headers" where
  "emplace_when b key val hs = (if b then emplace key val hs else hs)"

definition default_port :: "Client \<Rightarrow> nat" where
  "default_port c = (if ssl_client c then 443 else 80)"

definition additional_headers :: "Client \<Rightarrow> Request \<Rightarrow> bool \<Rightarrow> headers" where
  "additional_headers c req last_connection =
     (let has = has_header (req_headers req);
          h1 = emplace_when last_connection ''Connection'' ''close'' [];
          h2 = emplace_when (\<not> has ''Host'') ''Host''
                 (if client_port c = default_port c then client_host c else host_and_port c) h1;
          h3 = emplace_when (\<not> has ''Accept'') ''Accept'' ''*/*'' h2;
          h4 = emplace_when (\<not> has ''User-Agent'') ''User-Agent'' ''cpp-httplib/0.5'' h3;
          h5 = (if req_body req = [] then emplace ''Content-Length'' ''0'' h4
                else emplace_when (\<not> has ''Content-Length'') ''Content-Length''
                       (std_to_string (length (req_body req)))
                       (emplace_when (\<not> has ''Content-Type'') ''Content-Type'' ''text/plain'' h4));
          h6 = (if basic_auth_username c \<noteq> [] \<and> basic_auth_password c \<noteq> []
                then case make_basic_authentication_header (basic_auth_username c) (basic_auth_password c) False of
                       (key, val) \<Rightarrow> emplace key val h5
                else h5)
      in if proxy_basic_auth_username c \<noteq> [] \<and> proxy_basic_auth_password c \<noteq> []
         then case make_basic_authentication_header (proxy_basic_auth_username c) (proxy_basic_auth_password c) True of
                (key, val) \<Rightarrow> emplace key val h6
         else h6)"

definition request_line :: "bytes \<Rightarrow> bytes \<Rightarrow> bytes" where
  "request_line meth p = c_str meth @ '' '' @ c_str p @ '' HTTP/1.1'' @ crlf"

text \<open>The results of the writes to the connection are not looked at.\<close>

definition write_request :: "Client \<Rightarrow> 'k writer \<Rightarrow> Request \<Rightarrow> bool \<Rightarrow> 'k \<Rightarrow> bool \<times> 'k" where
  "write_request c emit req last_connection k =
     (case split_path (req_path req) of
        None \<Rightarrow> (False, k)
      | Some (m1, m2) \<Rightarrow>
          let bstrm = snd (write_format BufferStream_write (request_line (req_method req) (m1 @ encode_url m2)) []);
              hs = additional_headers c req last_connection;
              data = snd (write_headers BufferStream_write (req_headers req) hs bstrm);
              k1 = snd (emit data k)
          in (True, if req_body req = [] then k1 else snd (emit (req_body req) k1)))"

section \<open>Reading a response\<close>

definition isdigit :: "char \<Rightarrow> bool" where
  "isdigit c \<longleftrightarrow> 48 \<le> (of_char c :: nat) \<and> (of_char c :: nat) \<le> 57"

text \<open>The groups of \<^verbatim>\<open>(HTTP/1\.[01]) (\d+?) .*\r\n\<close>, matched with a whole C string.\<close>

definition match_status_line :: "bytes \<Rightarrow> (bytes \<times> bytes) option" where
  "match_status_line s =
     (let digits = takeWhile isdigit (drop 9 s);
          r = drop (length digits) (drop 9 s);
          reason = take (length r - 2) r
      in if (take 9 s = ''HTTP/1.0 '' \<or> take 9 s = ''HTTP/1.1 '') \<and> digits \<noteq> []
            \<and> take 1 reason = '' '' \<and> drop (length r - 2) r = crlf
            \<and> list_all (\<lambda>c. c \<noteq> CR \<and> c \<noteq> LF) reason
         then Some (take 8 s, digits) else None)"

definition read_response_line ::
    "'k reader \<Rightarrow> Response \<times> 'k \<Rightarrow> (bool, Response \<times> 'k) result option" where
  "read_response_line read s =
     (case getline read 2048 (snd s) of
        None \<Rightarrow> None
      | Some (ok, lr, k) \<Rightarrow>
          if \<not> ok then Some (Return False, fst s, k)
          else case match_status_line (c_str (line_ptr lr)) of
                 None \<Rightarrow> Some (Return True, fst s, k)
               | Some (version, digits) \<Rightarrow>
                   let res = (fst s)\<lparr>res_version := version\<rparr>
                   in case stoi 10 digits of
                        Inl msg \<Rightarrow> Some (Throw msg, res, k)
                      | Inr n \<Rightarrow> Some (Return True, res\<lparr>res_status := n\<rparr>, k))"

text \<open>Sequencing for code that may also not come back (\<open>None\<close>).\<close>

definition then_do ::
    "('a, 's) result option \<Rightarrow> ('a \<Rightarrow> 's \<Rightarrow> ('b, 's) result option) \<Rightarrow> ('b, 's) result option" where
  "then_do r f =
     (case r of
        None \<Rightarrow> None
      | Some (Return a, s) \<Rightarrow> f a s
      | Some (Throw msg, s) \<Rightarrow> Some (Throw msg, s)
      | Some (Block, s) \<Rightarrow> Some (Block, s)
      | Some (Crash, s) \<Rightarrow> Some (Crash, s))"

definition read_response_headers ::
    "'k reader \<Rightarrow> Response \<times> 'k \<Rightarrow> (bool, Response \<times> 'k) result option" where
  "read_response_headers read s =
     (case read_headers read (res_headers (fst s)) (snd s) of
        None \<Rightarrow> None
      | Some (ok, hs, k) \<Rightarrow> Some (Return ok, (fst s)\<lparr>res_headers := hs\<rparr>, k))"

definition read_response_body ::
    "'k reader \<Rightarrow> nat \<Rightarrow> Response \<times> 'k \<Rightarrow> (bool, Response \<times> 'k) result option" where
  "read_response_body read max_size s =
     (case read_content read (res_headers (fst s)) (2 ^ 64 - 1) 0 (body_receiver max_size)
             (res_body (fst s), snd s) of
        None \<Rightarrow> None
      | Some (r, b, k) \<Rightarrow>
          Some (case r of Return (ok, dummy_status) \<Rightarrow> Return ok
                        | Throw msg \<Rightarrow> Throw msg | Block \<Rightarrow> Block | Crash \<Rightarrow> Crash,
                (fst s)\<lparr>res_body := b\<rparr>, k))"

text \<open>The result pairs the returned flag with \<open>connection_close\<close>.\<close>

definition process_request ::
    "Client \<Rightarrow> 'k reader \<Rightarrow> 'k writer \<Rightarrow> nat \<Rightarrow> Request \<Rightarrow> bool \<Rightarrow> Response \<times> 'k
       \<Rightarrow> (bool \<times> bool, Response \<times> 'k) result option" where
  "process_request c read emit max_size req last_connection s =
     (case write_request c emit req last_connection (snd s) of
        (sent, k1) \<Rightarrow>
          if \<not> sent then Some (Return (False, False), fst s, k1)
          else then_do (read_response_line read (fst s, k1)) (\<lambda>ok s2.
               if \<not> ok then Some (Return (False, False), s2)
               else then_do (read_response_headers read s2) (\<lambda>ok s3.
               if \<not> ok then Some (Return (False, False), s3)
               else let res = fst s3;
                        closing = (get_header_value (res_headers res) ''Connection'' [] = ''close''
                                   \<or> res_version res = ''HTTP/1.0'')
                    in if req_method req \<noteq> ''HEAD'' \<and> req_method req \<noteq> ''CONNECT''
                       then then_do (read_response_body read max_size s3) (\<lambda>ok s4. Some (Return (ok, closing), s4))
                       else Some (Return (True, closing), s3))))"

section \<open>Connections\<close>

text \<open>Sockets and OpenSSL: \<open>create_client_socket\<close> fails or connects, \<open>ssl_new\<close> makes the session, \<open>ssl_connect\<close> the
  handshake for a host name, \<open>verify_result_ok\<close> and \<open>peer_certificate\<close> give what OpenSSL found out about the
  server, \<open>is_address\<close> and \<open>same_address\<close> compare addresses. The streams work on the connection that is open.\<close>

record 'k network =
  create_client_socket :: "bytes \<Rightarrow> nat \<Rightarrow> 'k \<Rightarrow> bool \<times> 'k"
  close_socket :: "'k \<Rightarrow> 'k"
  plain_net :: "'k net"
  ssl_new :: "'k \<Rightarrow> bool \<times> 'k"
  ssl_connect :: "bytes \<Rightarrow> 'k \<Rightarrow> bool \<times> 'k"
  verify_result_ok :: "'k \<Rightarrow> bool"
  peer_certificate :: "'k \<Rightarrow> certificate option"
  is_address :: "bytes \<Rightarrow> bool"
  same_address :: "bytes \<Rightarrow> bytes \<Rightarrow> bool"
  ssl_pending :: "'k \<Rightarrow> bool"
  ssl_net :: "'k net"
  ssl_shutdown :: "'k \<Rightarrow> 'k"

definition SSLSocketStream_read :: "'k network \<Rightarrow> 'k reader" where
  "SSLSocketStream_read nw n k =
     (if ssl_pending nw k then recv (ssl_net nw) n k
      else case select_read (ssl_net nw) k of
             (True, k') \<Rightarrow> recv (ssl_net nw) n k'
           | (False, k') \<Rightarrow> (None, k'))"

definition SSLSocketStream_write :: "'k network \<Rightarrow> 'k writer" where
  "SSLSocketStream_write nw d k = net_send (ssl_net nw) d k"

definition client_read :: "'k network \<Rightarrow> Client \<Rightarrow> 'k reader" where
  "client_read nw c = (if ssl_client c then SSLSocketStream_read nw else SocketStream_read (plain_net nw))"

definition client_write :: "'k network \<Rightarrow> Client \<Rightarrow> 'k writer" where
  "client_write nw c = (if ssl_client c then SSLSocketStream_write nw else SocketStream_write (plain_net nw))"

text \<open>\<^verbatim>\<open>process_socket\<close> for a client: the callback gets \<open>last_connection\<close> and is repeated while the connection
  stays open. The same loop stands in \<^verbatim>\<open>process_and_close_socket_ssl\<close>.\<close>

primrec process_loop ::
    "nat \<Rightarrow> (bool \<Rightarrow> 's \<Rightarrow> (bool \<times> bool, 's) result option) \<Rightarrow> bool \<Rightarrow> 's \<Rightarrow> (bool, 's) result option" where
  "process_loop 0 callback ret s = Some (Return ret, s)"
| "process_loop (Suc n) callback ret s =
     then_do (callback (n = 0) s) (\<lambda>r s'.
       if \<not> fst r \<or> snd r then Some (Return (fst r), s') else process_loop n callback (fst r) s')"

definition process_socket ::
    "nat \<Rightarrow> (bool \<Rightarrow> 's \<Rightarrow> (bool \<times> bool, 's) result option) \<Rightarrow> 's \<Rightarrow> (bool, 's) result option" where
  "process_socket keep_alive callback s =
     (if keep_alive > 1 then process_loop keep_alive callback False s
      else then_do (callback True s) (\<lambda>r s'. Some (Return (fst r), s')))"

text \<open>The handshake of \<^verbatim>\<open>SSLClient::process_and_close_socket\<close>, with the check of the certificate when it is
  switched on. No client sets a file of trusted authorities.\<close>

definition ssl_handshake :: "'k network \<Rightarrow> Client \<Rightarrow> 'k \<Rightarrow> bool \<times> 'k" where
  "ssl_handshake nw c k =
     (case ssl_connect nw (c_str (client_host c)) k of
        (ok, k1) \<Rightarrow>
          (if \<not> ok then False
           else if server_certificate_verification c
           then (if \<not> verify_result_ok nw k1 then False
                 else case peer_certificate nw k1 of
                        None \<Rightarrow> False
                      | Some server_cert \<Rightarrow>
                          verify_host (client_host c) (is_address nw (c_str (client_host c)))
                            (same_address nw (c_str (client_host c))) server_cert)
           else True, k1))"

text \<open>\<^verbatim>\<open>detail::process_and_close_socket_ssl\<close>; \<^verbatim>\<open>setup\<close> always succeeds. The state pairs the response with the
  network.\<close>

definition process_and_close_socket_ssl ::
    "'k network \<Rightarrow> Client \<Rightarrow> nat \<Rightarrow> (bool \<Rightarrow> 'r \<times> 'k \<Rightarrow> (bool \<times> bool, 'r \<times> 'k) result option)
       \<Rightarrow> 'r \<times> 'k \<Rightarrow> (bool, 'r \<times> 'k) result option" where
  "process_and_close_socket_ssl nw c keep_alive callback s =
     (case ssl_new nw (snd s) of
        (made, k1) \<Rightarrow>
          if \<not> made then Some (Return False, fst s, close_socket nw k1)
          else case ssl_handshake nw c k1 of
                 (ok, k2) \<Rightarrow>
                   then_do (if ok then process_socket keep_alive callback (fst s, k2) else Some (Return False, fst s, k2))
                     (\<lambda>ret s'. Some (Return ret, fst s', close_socket nw (ssl_shutdown nw (snd s')))))"

text \<open>The two implementations of the virtual function \<^verbatim>\<open>process_and_close_socket\<close>, and the choice between them.
  Without an SSL context the socket is left open.\<close>

definition Client_process_and_close_socket ::
    "'k network \<Rightarrow> Client \<Rightarrow> nat \<Rightarrow> (bool \<Rightarrow> 'r \<times> 'k \<Rightarrow> (bool \<times> bool, 'r \<times> 'k) result option)
       \<Rightarrow> 'r \<times> 'k \<Rightarrow> (bool, 'r \<times> 'k) result option" where
  "Client_process_and_close_socket nw c request_count callback s =
     then_do (process_socket (min request_count (keep_alive_max_count c)) callback s)
       (\<lambda>ret s'. Some (Return ret, fst s', close_socket nw (snd s')))"

definition SSLClient_process_and_close_socket ::
    "'k network \<Rightarrow> Client \<Rightarrow> nat \<Rightarrow> (bool \<Rightarrow> 'r \<times> 'k \<Rightarrow> (bool \<times> bool, 'r \<times> 'k) result option)
       \<Rightarrow> 'r \<times> 'k \<Rightarrow> (bool, 'r \<times> 'k) result option" where
  "SSLClient_process_and_close_socket nw c request_count callback s =
     (if \<not> ctx_valid c then Some (Return False, s)
      else process_and_close_socket_ssl nw c (min request_count (keep_alive_max_count c)) callback s)"

definition process_and_close_socket ::
    "'k network \<Rightarrow> Client \<Rightarrow> nat \<Rightarrow> (bool \<Rightarrow> 'r \<times> 'k \<Rightarrow> (bool \<times> bool, 'r \<times> 'k) result option)
       \<Rightarrow> 'r \<times> 'k \<Rightarrow> (bool, 'r \<times> 'k) result option" where
  "process_and_close_socket nw c =
     (if ssl_client c then SSLClient_process_and_close_socket nw c else Client_process_and_close_socket nw c)"

lemmas close_socket_defs = process_and_close_socket_def Client_process_and_close_socket_def
  SSLClient_process_and_close_socket_def process_and_close_socket_ssl_def

section \<open>Redirects\<close>

text \<open>The groups of \<^verbatim>\<open>^(?:([^:/?#]+):)?(?://([^/?#]*))?([^?#]*(?:\?[^#]*)?)(?:#.*)?\<close>: scheme, host, path with query.\<close>

definition match_location :: "bytes \<Rightarrow> (bytes \<times> bytes \<times> bytes) option" where
  "match_location s =
     (let word = takeWhile (\<lambda>c. c \<notin> set '':/?#'') s;
          (scheme, r1) = (if word \<noteq> [] \<and> take 1 (drop (length word) s) = '':''
                          then (word, drop (length word + 1) s) else ([], s));
          (host, r2) = (if take 2 r1 = ''//''
                        then (takeWhile (\<lambda>c. c \<notin> set ''/?#'') (drop 2 r1),
                              dropWhile (\<lambda>c. c \<notin> set ''/?#'') (drop 2 r1))
                        else ([], r1))
      in if fragment_ok r2 then Some (scheme, host, takeWhile (\<lambda>c. c \<noteq> CHR ''#'') r2) else None)"

text \<open>The client and the request for the next location, if there is one. \<open>valid\<close> tells whether a new SSL context
  can be made.\<close>

definition redirect_target ::
    "bool \<Rightarrow> Client \<Rightarrow> Request \<Rightarrow> Response \<Rightarrow> (Client \<times> Request) option" where
  "redirect_target valid c req res =
     (if redirect_count req = 0 then None
      else let location = get_header_value (res_headers res) ''location'' []
      in if location = [] then None
      else case match_location location of
             None \<Rightarrow> None
           | Some (m1, m2, m3) \<Rightarrow>
               let scheme = (if ssl_client c then ''https'' else ''http'');
                   next_scheme = (if m1 = [] then scheme else m1);
                   next_host = (if m2 = [] then client_host c else m2);
                   next_path = (if m3 = [] then ''/'' else m3);
                   new_req = req\<lparr>req_path := next_path, redirect_count := redirect_count req - 1\<rparr>
               in if next_scheme = scheme \<and> next_host = client_host c then Some (c, new_req)
                  else if next_scheme = ''https''
                  then Some (copy_settings c (new_ssl_client valid (c_str next_host)), new_req)
                  else Some (copy_settings c (new_client (c_str next_host)), new_req))"

lemma redirect_target_count:
  "redirect_target valid c req res = Some (c', req') \<Longrightarrow> redirect_count req = Suc (redirect_count req')"
  by (auto simp: redirect_target_def Let_def split: if_splits option.splits prod.splits)

section \<open>Sending\<close>

text \<open>One exchange on a new connection.\<close>

definition exchange ::
    "'k network \<Rightarrow> nat \<Rightarrow> Client \<Rightarrow> Request \<Rightarrow> 'k \<Rightarrow> (bool, Response \<times> 'k) result option" where
  "exchange nw max_size c req k =
     process_and_close_socket nw c 1
       (process_request c (client_read nw c) (client_write nw c) max_size req) (empty_response, k)"

text \<open>\<^verbatim>\<open>Client::send\<close> with the test the callers apply to its result: the response, or \<^verbatim>\<open>nullptr\<close>.\<close>

function send ::
    "'k network \<Rightarrow> bool \<Rightarrow> nat \<Rightarrow> Client \<Rightarrow> Request \<Rightarrow> 'k \<Rightarrow> (Response option, 'k) result option" where
  "send nw valid max_size c req k =
     (if req_path req = [] then Some (Return None, k)
      else case create_client_socket nw (c_str (client_host c)) (client_port c) k of
        (connected, k1) \<Rightarrow>
          if \<not> connected then Some (Return None, k1)
          else case exchange nw max_size c req k1 of
            None \<Rightarrow> None
          | Some (r, res, k2) \<Rightarrow>
              (case r of
                 Return ok \<Rightarrow>
                   if \<not> ok then Some (Return None, k2)
                   else if 300 < res_status res \<and> res_status res < 400 \<and> follow_location c
                   then (case redirect_target valid c req res of
                           None \<Rightarrow> Some (Return None, k2)
                         | Some (c', req') \<Rightarrow> send nw valid max_size c' req' k2)
                   else Some (Return (Some res), k2)
               | Throw msg \<Rightarrow> Some (Throw msg, k2)
               | Block \<Rightarrow> Some (Block, k2)
               | Crash \<Rightarrow> Some (Crash, k2)))"
  by pat_completeness auto
termination
  by (relation "measure (\<lambda>(nw, valid, max_size, c, req, k). redirect_count req)")
    (auto dest: redirect_target_count)

declare send.simps [simp del]

definition new_http_request :: "bytes \<Rightarrow> bytes \<Rightarrow> headers \<Rightarrow> bytes \<Rightarrow> Request" where
  "new_http_request meth p hs b = \<lparr>req_method = meth, req_path = p, req_headers = hs, req_body = b,
     redirect_count = REDIRECT_MAX_COUNT\<rparr>"

text \<open>The calls of \<^verbatim>\<open>http.fetch\<close>. No \<^verbatim>\<open>Content-Type\<close> is added from the argument.\<close>

type_synonym 'k call = "bytes \<Rightarrow> headers \<Rightarrow> 'k \<Rightarrow> (Response option, 'k) result option"

definition Get :: "'k network \<Rightarrow> bool \<Rightarrow> nat \<Rightarrow> Client \<Rightarrow> 'k call" where
  "Get nw valid max_size c p hs = send nw valid max_size c (new_http_request ''GET'' p hs [])"

definition Head :: "'k network \<Rightarrow> bool \<Rightarrow> nat \<Rightarrow> Client \<Rightarrow> 'k call" where
  "Head nw valid max_size c p hs = send nw valid max_size c (new_http_request ''HEAD'' p hs [])"

definition send_with_content_provider ::
    "'k network \<Rightarrow> bool \<Rightarrow> nat \<Rightarrow> Client \<Rightarrow> bytes \<Rightarrow> bytes \<Rightarrow> headers \<Rightarrow> bytes \<Rightarrow> 'k
       \<Rightarrow> (Response option, 'k) result option" where
  "send_with_content_provider nw valid max_size c meth p hs b =
     send nw valid max_size c (new_http_request meth p hs b)"

definition Post :: "'k network \<Rightarrow> bool \<Rightarrow> nat \<Rightarrow> Client \<Rightarrow> bytes \<Rightarrow> 'k call" where
  "Post nw valid max_size c b p hs = send_with_content_provider nw valid max_size c ''POST'' p hs b"

definition Put :: "'k network \<Rightarrow> bool \<Rightarrow> nat \<Rightarrow> Client \<Rightarrow> bytes \<Rightarrow> 'k call" where
  "Put nw valid max_size c b p hs = send_with_content_provider nw valid max_size c ''PUT'' p hs b"

definition Patch :: "'k network \<Rightarrow> bool \<Rightarrow> nat \<Rightarrow> Client \<Rightarrow> bytes \<Rightarrow> 'k call" where
  "Patch nw valid max_size c b p hs = send_with_content_provider nw valid max_size c ''PATCH'' p hs b"

definition Delete :: "'k network \<Rightarrow> bool \<Rightarrow> nat \<Rightarrow> Client \<Rightarrow> bytes \<Rightarrow> 'k call" where
  "Delete nw valid max_size c b p hs = send nw valid max_size c (new_http_request ''DELETE'' p hs b)"

definition Options :: "'k network \<Rightarrow> bool \<Rightarrow> nat \<Rightarrow> Client \<Rightarrow> 'k call" where
  "Options nw valid max_size c p hs = send nw valid max_size c (new_http_request ''OPTIONS'' p hs [])"

section \<open>The bytes of a request\<close>

definition one_if :: "bool \<Rightarrow> bytes \<times> bytes \<Rightarrow> headers" where
  "one_if b h = (if b then [h] else [])"

text \<open>The additional headers in the order they are put in.\<close>

definition added :: "Client \<Rightarrow> Request \<Rightarrow> bool \<Rightarrow> headers" where
  "added c req last_connection =
     one_if last_connection (''Connection'', ''close'')
     @ one_if (\<not> has_header (req_headers req) ''Host'')
         (''Host'', if client_port c = default_port c then client_host c else host_and_port c)
     @ one_if (\<not> has_header (req_headers req) ''Accept'') (''Accept'', ''*/*'')
     @ one_if (\<not> has_header (req_headers req) ''User-Agent'') (''User-Agent'', ''cpp-httplib/0.5'')
     @ one_if (req_body req = []) (''Content-Length'', ''0'')
     @ one_if (req_body req \<noteq> [] \<and> \<not> has_header (req_headers req) ''Content-Type'') (''Content-Type'', ''text/plain'')
     @ one_if (req_body req \<noteq> [] \<and> \<not> has_header (req_headers req) ''Content-Length'')
         (''Content-Length'', std_to_string (length (req_body req)))
     @ one_if (basic_auth_username c \<noteq> [] \<and> basic_auth_password c \<noteq> [])
         (make_basic_authentication_header (basic_auth_username c) (basic_auth_password c) False)
     @ one_if (proxy_basic_auth_username c \<noteq> [] \<and> proxy_basic_auth_password c \<noteq> [])
         (make_basic_authentication_header (proxy_basic_auth_username c) (proxy_basic_auth_password c) True)"

lemma emplace_all_one_if:
  "emplace_all (one_if b h) acc = (if b then emplace (fst h) (snd h) acc else acc)"
  by (simp add: one_if_def)

lemma additional_headers_added: "additional_headers c req l = emplace_all (added c req l) []"
  unfolding additional_headers_def added_def Let_def emplace_when_def emplace_all_simps emplace_all_one_if
    make_basic_authentication_header_def fst_conv snd_conv prod.case
  by (cases "req_body req = []") (simp_all only: not_True_eq_False not_False_eq_True if_True if_False simp_thms)

lemma list_all_emplace_all: "list_all P (emplace_all hs acc) \<longleftrightarrow> list_all P hs \<and> list_all P acc"
  by (induction hs arbitrary: acc) (auto simp: list_all_iff)

definition request_head :: "Client \<Rightarrow> Request \<Rightarrow> bytes \<Rightarrow> bool \<Rightarrow> bytes" where
  "request_head c req p l =
     request_line (req_method req) p
     @ concat (map header_line (req_headers req @ additional_headers c req l)) @ crlf"

definition headers_plain :: "Client \<Rightarrow> Request \<Rightarrow> bool \<Rightarrow> bool" where
  "headers_plain c req l \<longleftrightarrow> list_all header_ok (req_headers req) \<and> list_all header_ok (added c req l)"

text \<open>On every stream that appends, a request is its line, its headers and its body.\<close>

context output_stream
begin

lemma write_request_appends:
  assumes "split_path (req_path req) = Some (m1, m2)" and "headers_plain c req l"
    and "length (request_line (req_method req) (m1 @ encode_url m2)) < 2 ^ 31"
  shows "\<exists>k'. write_request c emit req l k = (True, k')
           \<and> written k' = written k @ request_head c req (m1 @ encode_url m2) l @ req_body req"
proof -
  let ?line = "request_line (req_method req) (m1 @ encode_url m2)"
  let ?head = "request_head c req (m1 @ encode_url m2) l"
  have line: "snd (write_format BufferStream_write ?line []) = ?line"
    using buffer_stream.write_format_appends [OF assms(3), of "[]"] by auto
  have "list_all header_ok (additional_headers c req l)"
    using assms(2) by (simp add: additional_headers_added list_all_emplace_all headers_plain_def)
  with buffer_stream.write_headers_appends [of "req_headers req" "additional_headers c req l" ?line] assms(2)
  have head: "snd (write_headers BufferStream_write (req_headers req) (additional_headers c req l) ?line) = ?head"
    by (auto simp: headers_plain_def request_head_def)
  from appends [of ?head k] obtain k1 where
    k1: "emit ?head k = (int (length ?head), k1)" "written k1 = written k @ ?head" by auto
  from appends [of "req_body req" k1] obtain k2 where
    "emit (req_body req) k1 = (int (length (req_body req)), k2)" "written k2 = written k1 @ req_body req" by auto
  with k1 show ?thesis by (auto simp: write_request_def assms(1) line head Let_def)
qed

end

text \<open>A path that starts with a slash is encoded as a whole, and an encoded path has no blank and no end of
  line in it.\<close>

lemma split_path_slash: "fragment_ok (CHR ''/'' # p) \<Longrightarrow> split_path (CHR ''/'' # p) = Some ([], CHR ''/'' # p)"
  by (simp add: split_path_def split_scheme_def)

lemma encode_char_plain:
  assumes "c \<noteq> NUL"
  shows "set (encode_char c) \<inter> {CHR '' '', CR, LF, NUL} = {}"
proof -
  have hex: "upper_hex d \<notin> {CHR '' '', CR, LF, NUL}" if "d < 16" for d
  proof -
    have "list_all (\<lambda>x. is_hex x = None) [CHR '' '', CR, LF, NUL]" by code_simp
    with upper_hex_digit(1) [OF that] show ?thesis by auto
  qed
  have "(of_char c :: nat) div 16 < 16" using nat_of_char_less_256 [of c] by linarith
  from hex [OF this] hex [of "of_char c mod 16"] assms show ?thesis
    by (auto simp: encode_char_def)
qed

lemma encode_url_plain: "set (encode_url s) \<inter> {CHR '' '', CR, LF, NUL} = {}"
proof -
  have "\<forall>c\<in>set (c_str s). c \<noteq> NUL" by (auto simp: c_str_def dest: set_takeWhileD)
  with encode_char_plain show ?thesis by (fastforce simp: encode_url_def)
qed

lemma write_request_slash:
  assumes "output_stream emit written" and "req_path req = CHR ''/'' # p" and "fragment_ok (req_path req)"
    and "headers_plain c req l" and "length (request_line (req_method req) (encode_url (req_path req))) < 2 ^ 31"
  shows "\<exists>k'. write_request c emit req l k = (True, k')
           \<and> written k' = written k @ c_str (req_method req) @ '' '' @ encode_url (req_path req) @ '' HTTP/1.1'' @ crlf
               @ concat (map header_line (req_headers req @ additional_headers c req l)) @ crlf @ req_body req"
proof -
  have "split_path (req_path req) = Some ([], req_path req)" using assms(2,3) split_path_slash by simp
  from output_stream.write_request_appends [OF assms(1) this assms(4), of k] assms(5)
  show ?thesis using encode_url_plain [of "req_path req"]
    by (simp add: request_head_def request_line_def c_str_plain)
qed

section \<open>Received requests\<close>

lemma named_append [simp]: "named key (hs @ gs) = named key hs @ named key gs"
  by (simp add: named_def)

lemma named_one_if: "named key (one_if b h) = one_if (b \<and> ci (fst h) = ci key) h"
  by (simp add: one_if_def)

lemma named_added_chunked: "named ''Transfer-Encoding'' (added c req l) = []"
  by (simp add: added_def named_one_if ci_length make_basic_authentication_header_def)
    (simp add: one_if_def)

lemma named_added_encoding: "named ''Content-Encoding'' (added c req l) = []"
  by (simp add: added_def named_one_if ci_length make_basic_authentication_header_def)
    (simp add: one_if_def)

lemma named_added_length:
  assumes "named ''Content-Length'' (req_headers req) = []" and "headers_sorted (req_headers req)"
  shows "named ''Content-Length'' (added c req l) = [(''Content-Length'', std_to_string (length (req_body req)))]"
proof -
  have "std_to_string 0 = ''0''" by code_simp
  with assms show ?thesis
    by (simp add: added_def named_one_if ci_length make_basic_authentication_header_def has_header_named)
      (simp add: one_if_def)
qed

text \<open>What a receiver of the headers gets, and what they say about the body.\<close>

definition sent_headers :: "Client \<Rightarrow> Request \<Rightarrow> bool \<Rightarrow> headers" where
  "sent_headers c req l = emplace_all (req_headers req @ additional_headers c req l) []"

definition no_framing_headers :: "Request \<Rightarrow> bool" where
  "no_framing_headers req \<longleftrightarrow> list_all (\<lambda>key. named key (req_headers req) = [])
     [''Content-Length'', ''Content-Encoding'', ''Transfer-Encoding'']"

lemma empty_sorted: "headers_sorted []"
  by (simp add: headers_sorted_def)

lemma sent_headers_sorted: "headers_sorted (sent_headers c req l)"
  unfolding sent_headers_def by (rule emplace_all_sorted [OF empty_sorted])

lemma named_sent: "named key (sent_headers c req l) = named key (req_headers req) @ named key (added c req l)"
  using named_emplace_all [OF empty_sorted, of key "req_headers req @ additional_headers c req l"]
    named_emplace_all [OF empty_sorted, of key "added c req l"]
  by (simp del: emplace_all_simps add: additional_headers_added sent_headers_def)

lemma mset_sent: "mset (sent_headers c req l) = mset (req_headers req) + mset (added c req l)"
  by (simp del: emplace_all_simps add: sent_headers_def mset_emplace_all additional_headers_added)

lemma sent_not_compressed:
  "no_framing_headers req \<Longrightarrow> get_header_value (sent_headers c req l) ''Content-Encoding'' [] \<noteq> ''gzip''"
  by (simp add: get_header_value_named sent_headers_sorted named_sent no_framing_headers_def named_added_encoding)

lemma request_framed:
  assumes "headers_sorted (req_headers req)" and "length (req_body req) < 2 ^ 64" and "no_framing_headers req"
  shows "framed (sent_headers c req l) (req_body req) (req_body req @ r)"
proof -
  let ?hs = "sent_headers c req l"
  have "named ''Content-Length'' (req_headers req) = []" "named ''Transfer-Encoding'' (req_headers req) = []"
    using assms(3) by (simp_all add: no_framing_headers_def)
  then have n: "named ''Content-Length'' ?hs = [(''Content-Length'', std_to_string (length (req_body req)))]"
    "named ''Transfer-Encoding'' ?hs = []"
    using named_added_length [OF _ assms(1)] named_added_chunked by (simp_all add: named_sent)
  have "\<not> is_chunked_transfer_encoding ?hs"
    using n(2) by (simp add: is_chunked_transfer_encoding_def same_ignoring_case_def c_str_def
        get_header_value_named sent_headers_sorted)
  with n(1) assms(2) show ?thesis
    by (intro framed.sized)
      (simp_all add: has_header_named get_header_value_uint64_named strtoull_decimal sent_headers_sorted)
qed

lemma sent_headers_read:
  assumes "source_laws read incoming" and "headers_plain c req l" and "headers_sorted (req_headers req)"
    and "no_framing_headers req" and "length (req_body req) \<le> max_size" and "max_size < 2 ^ 64"
    and "incoming k = concat (map header_line (req_headers req @ additional_headers c req l)) @ crlf @ req_body req @ r"
  shows "\<exists>k2 k3. read_headers read [] k = Some (True, sent_headers c req l, k2)
           \<and> read_content read (sent_headers c req l) max_size st (body_receiver max_size) ([], k2)
             = Some (Return (True, st), req_body req, k3)"
proof -
  have "list_all header_ok (req_headers req @ additional_headers c req l)"
    using assms(2) by (simp add: additional_headers_added list_all_emplace_all headers_plain_def)
  from read_headers_lines [OF assms(1) this assms(7), of "[]"] obtain k2 where
    k2: "read_headers read [] k = Some (True, sent_headers c req l, k2)" "incoming k2 = req_body req @ r"
    by (auto simp: sent_headers_def simp del: emplace_all_simps)
  have "framed (sent_headers c req l) (req_body req) (incoming k2)"
    unfolding k2(2) by (rule request_framed) (use assms(3-6) in simp_all)
  from read_content_framed [OF assms(1) this sent_not_compressed [OF assms(4)] assms(5,5)] k2(1)
  show ?thesis by blast
qed

section \<open>Received responses\<close>

definition status_line :: "bytes \<Rightarrow> nat \<Rightarrow> bytes \<Rightarrow> bytes" where
  "status_line version n reason = version @ '' '' @ std_to_string n @ '' '' @ reason @ crlf"

definition status_ok :: "bytes \<Rightarrow> nat \<Rightarrow> bytes \<Rightarrow> bool" where
  "status_ok version n reason \<longleftrightarrow> version \<in> {''HTTP/1.0'', ''HTTP/1.1''} \<and> n < 2 ^ 31
     \<and> list_all (\<lambda>c. c \<notin> {NUL, CR, LF}) reason"

lemma digit_isdigit:
  assumes "digit_value 10 c \<noteq> None"
  shows "isdigit c"
proof -
  define m where "m = (of_char c :: nat)"
  have "(of_char c :: int) = int m" "m < 256" by (simp_all add: m_def of_nat_of_char)
  with assms have "48 \<le> m \<and> m \<le> 57"
    by (auto simp: digit_value_def is_hex_def signed_char_def Let_def split: if_splits option.splits)
  then show ?thesis by (simp add: isdigit_def m_def)
qed

lemma decimal_digits:
  "takeWhile isdigit (std_to_string n @ CHR '' '' # r) = std_to_string n"
  "std_to_string n \<noteq> []" "list_all (\<lambda>c. c \<notin> {NUL, CR, LF}) (std_to_string n)"
proof -
  have d: "\<forall>c\<in>set (std_to_string n). digit_value 10 c \<noteq> None" "std_to_string n \<noteq> []"
    using decimal_facts [of n] by (simp_all add: std_to_string_radix)
  moreover have "\<not> isdigit (CHR '' '')" by (simp add: isdigit_def)
  ultimately show "takeWhile isdigit (std_to_string n @ CHR '' '' # r) = std_to_string n"
    using digit_isdigit by (simp add: takeWhile_append)
  show "std_to_string n \<noteq> []" by (rule d)
  show "list_all (\<lambda>c. c \<notin> {NUL, CR, LF}) (std_to_string n)"
    using d(1) digit_plain [of 10] by (fastforce simp: list_all_iff)
qed

lemma match_status_line_plain:
  assumes "status_ok version n reason"
  shows "match_status_line (status_line version n reason) = Some (version, std_to_string n)"
proof -
  have v: "length version = 8" "version @ '' '' = ''HTTP/1.0 '' \<or> version @ '' '' = ''HTTP/1.1 ''"
    using assms by (auto simp: status_ok_def)
  have r: "take 9 (status_line version n reason) = version @ '' ''"
    "drop 9 (status_line version n reason) = std_to_string n @ CHR '' '' # reason @ crlf"
    "take 8 (status_line version n reason) = version"
    using v(1) by (simp_all add: status_line_def)
  have "list_all (\<lambda>c. c \<noteq> CR \<and> c \<noteq> LF) (CHR '' '' # reason)"
    using assms by (auto simp: status_ok_def list_all_iff)
  with v(2) decimal_digits show ?thesis
    unfolding match_status_line_def r by (simp add: Let_def decimal_digits crlf_def)
qed

lemma stoi_decimal: "n < 2 ^ 31 \<Longrightarrow> stoi 10 (std_to_string n) = Inr (int n)"
  by (simp add: stoi_def strto_decimal)

lemma then_do_simps [simp]:
  "then_do None f = None"
  "then_do (Some (Return a, s)) f = f a s"
  "then_do (Some (Throw msg, s)) f = Some (Throw msg, s)"
  by (simp_all add: then_do_def)

lemma status_line_line:
  assumes "source_laws read incoming" and "status_ok version n reason"
    and "incoming k = status_line version n reason @ r"
  shows "\<exists>lr k'. getline read 2048 k = Some (True, lr, k')
           \<and> c_str (line_ptr lr) = status_line version n reason \<and> incoming k' = r"
proof -
  define l where "l = version @ '' '' @ std_to_string n @ '' '' @ reason @ [CR]"
  have l: "status_line version n reason = l @ [LF]" by (simp add: l_def status_line_def crlf_def)
  have "list_all (\<lambda>c. c \<notin> {NUL, CR, LF}) version" "list_all (\<lambda>c. c \<notin> {NUL, CR, LF}) reason"
    using assms(2) unfolding status_ok_def by auto
  with decimal_digits(3) [of n] have "\<forall>c\<in>set l. c \<noteq> NUL \<and> c \<noteq> LF"
    unfolding l_def list_all_iff by (simp add: ball_Un)
  then have "LF \<notin> set l" "NUL \<notin> set (l @ [LF])" by auto
  with getline_line [OF assms(1) this(1), of k r 2048] assms(3) show ?thesis
    by (auto simp: l c_str_plain)
qed

lemma read_response_line_plain:
  assumes "source_laws read incoming" and "status_ok version n reason"
    and "incoming k = status_line version n reason @ r"
  shows "\<exists>k'. read_response_line read (res, k)
           = Some (Return True, res\<lparr>res_version := version, res_status := int n\<rparr>, k') \<and> incoming k' = r"
proof -
  from status_line_line [OF assms] obtain lr k' where
    g: "getline read 2048 k = Some (True, lr, k')" "c_str (line_ptr lr) = status_line version n reason"
      "incoming k' = r" by blast
  have "stoi 10 (std_to_string n) = Inr (int n)" using assms(2) by (simp add: stoi_decimal status_ok_def)
  with g match_status_line_plain [OF assms(2)] show ?thesis by (simp add: read_response_line_def)
qed

definition has_body :: "Request \<Rightarrow> bool" where
  "has_body req \<longleftrightarrow> req_method req \<noteq> ''HEAD'' \<and> req_method req \<noteq> ''CONNECT''"

text \<open>A well-formed response, and the bytes it may be sent as.\<close>

definition response_ok :: "bytes \<Rightarrow> nat \<Rightarrow> bytes \<Rightarrow> headers \<Rightarrow> bool" where
  "response_ok version n reason hs \<longleftrightarrow> status_ok version n reason \<and> list_all header_ok hs
     \<and> get_header_value (emplace_all hs []) ''Content-Encoding'' [] \<noteq> ''gzip''"

definition response_bytes :: "bytes \<Rightarrow> nat \<Rightarrow> bytes \<Rightarrow> headers \<Rightarrow> bytes \<Rightarrow> bytes" where
  "response_bytes version n reason hs wire =
     status_line version n reason @ concat (map header_line hs) @ crlf @ wire"

definition response_of :: "bytes \<Rightarrow> nat \<Rightarrow> headers \<Rightarrow> bytes \<Rightarrow> Response" where
  "response_of version n hs b =
     \<lparr>res_version = version, res_status = int n, res_headers = emplace_all hs [], res_body = b\<rparr>"

lemma process_request_head:
  assumes "source_laws read incoming" and "response_ok version n reason hs"
    and "write_request c emit req l k = (True, k1)"
    and "incoming k1 = response_bytes version n reason hs wire"
  obtains k3 closing where "incoming k3 = wire"
    and "process_request c read emit max_size req l (empty_response, k)
         = (if has_body req
            then then_do (read_response_body read max_size (response_of version n hs [], k3))
                   (\<lambda>ok s. Some (Return (ok, closing), s))
            else Some (Return (True, closing), response_of version n hs [], k3))"
proof -
  let ?res = "\<lparr>res_version = version, res_status = int n, res_headers = [], res_body = []\<rparr>"
  from read_response_line_plain [OF assms(1), of version n reason k1 _ empty_response] assms(2,4) obtain k2 where
    k2: "read_response_line read (empty_response, k1) = Some (Return True, ?res, k2)"
      "incoming k2 = concat (map header_line hs) @ crlf @ wire"
    by (auto simp: response_ok_def response_bytes_def empty_response_def)
  have "list_all header_ok hs" using assms(2) by (simp add: response_ok_def)
  from read_headers_lines [OF assms(1) this k2(2), of "[]"] obtain k3 where
    k3: "read_response_headers read (?res, k2) = Some (Return True, response_of version n hs [], k3)"
      "incoming k3 = wire"
    by (auto simp: read_response_headers_def response_of_def)
  from that [OF k3(2)] assms(3) k2(1) k3(1) show ?thesis
    by (simp add: process_request_def has_body_def Let_def)
qed

lemma process_request_receives:
  assumes "source_laws read incoming" and "response_ok version n reason hs"
    and "write_request c emit req l k = (True, k1)"
    and "incoming k1 = response_bytes version n reason hs wire"
    and "if has_body req then framed (emplace_all hs []) b wire else b = []"
    and "length b \<le> max_size" and "max_size < 2 ^ 64"
  shows "\<exists>closing k'. process_request c read emit max_size req l (empty_response, k)
           = Some (Return (True, closing), response_of version n hs b, k')"
proof -
  obtain k3 closing where k3: "incoming k3 = wire"
    "process_request c read emit max_size req l (empty_response, k)
         = (if has_body req
            then then_do (read_response_body read max_size (response_of version n hs [], k3))
                   (\<lambda>ok s. Some (Return (ok, closing), s))
            else Some (Return (True, closing), response_of version n hs [], k3))"
    by (rule process_request_head [OF assms(1-4)])
  show ?thesis
  proof (cases "has_body req")
    case False
    with assms(5) k3 show ?thesis by simp
  next
    case True
    with assms(5) k3(1) have "framed (emplace_all hs []) b (incoming k3)" by simp
    from read_content_framed [OF assms(1) this _ assms(6), of "2 ^ 64 - 1" 0] assms(2,6,7) obtain k4 where
      "read_response_body read max_size (response_of version n hs [], k3)
         = Some (Return True, response_of version n hs b, k4)"
      by (auto simp: read_response_body_def response_ok_def response_of_def)
    with True k3(2) show ?thesis by simp
  qed
qed

text \<open>A chunk line without a number makes \<^verbatim>\<open>std::stoi\<close> throw through all of it.\<close>

lemma bad_chunk_throws:
  assumes "source_laws read incoming" and "LF \<notin> set l" and "incoming k = l @ LF # r"
    and "stoi 16 (l @ [LF]) = Inl msg"
  shows "\<exists>k'. read_content_chunked read out (b, k) = Some (Throw msg, b, k')"
  using getline_line [OF assms(1-3), of 16] assms(4)
  by (auto simp: read_content_chunked_def next_chunk_def)

lemma process_request_bad_chunk:
  assumes "source_laws read incoming" and "response_ok version n reason hs"
    and "write_request c emit req last_connection k = (True, k1)"
    and "incoming k1 = response_bytes version n reason hs (l @ LF # r)"
    and "is_chunked_transfer_encoding (emplace_all hs [])" and "has_body req"
    and "LF \<notin> set l" and "stoi 16 (l @ [LF]) = Inl msg"
  shows "\<exists>res k'. process_request c read emit max_size req last_connection (empty_response, k)
           = Some (Throw msg, res, k')"
proof -
  obtain k3 closing where k3: "incoming k3 = l @ LF # r"
    "process_request c read emit max_size req last_connection (empty_response, k)
         = (if has_body req
            then then_do (read_response_body read max_size (response_of version n hs [], k3))
                   (\<lambda>ok s. Some (Return (ok, closing), s))
            else Some (Return (True, closing), response_of version n hs [], k3))"
    by (rule process_request_head [OF assms(1-4)])
  from bad_chunk_throws [OF assms(1,7) k3(1) assms(8), of "body_receiver max_size" "[]"] obtain k4 where
    "read_content_chunked read (body_receiver max_size) ([], k3) = Some (Throw msg, [], k4)" by blast
  then have "read_content read (emplace_all hs []) (2 ^ 64 - 1) 0 (body_receiver max_size) ([], k3)
      = Some (Throw msg, [], k4)"
    using assms(2,5) by (simp add: read_content_def response_ok_def)
  then show ?thesis by (simp add: k3(2) assms(6) read_response_body_def response_of_def)
qed

text \<open>The state in which the request is written, when the connection can be opened.\<close>

definition open_connection :: "'k network \<Rightarrow> Client \<Rightarrow> 'k \<Rightarrow> 'k option" where
  "open_connection nw c k =
     (case create_client_socket nw (c_str (client_host c)) (client_port c) k of
        (connected, k1) \<Rightarrow>
          if \<not> connected then None
          else if \<not> ssl_client c then Some k1
          else if \<not> ctx_valid c then None
          else case ssl_new nw k1 of
                 (made, k2) \<Rightarrow>
                   if \<not> made then None
                   else case ssl_handshake nw c k2 of (ok, k3) \<Rightarrow> if ok then Some k3 else None)"

lemma process_socket_once:
  "process_socket (min (Suc 0) n) callback s = then_do (callback True s) (\<lambda>r s'. Some (Return (fst r), s'))"
  by (simp add: process_socket_def)

lemma then_do_assoc:
  "then_do (then_do r f) g = then_do r (\<lambda>a s. then_do (f a s) g)"
  by (simp add: then_do_def split: option.splits prod.splits outcome.splits)

lemma exchange_on_connection:
  assumes "open_connection nw c k = Some k1"
  obtains k0 fin where "create_client_socket nw (c_str (client_host c)) (client_port c) k = (True, k0)"
    and "exchange nw max_size c req k0
         = then_do (process_request c (client_read nw c) (client_write nw c) max_size req True (empty_response, k1))
             (\<lambda>r s'. Some (Return (fst r), fst s', fin (snd s')))"
proof -
  obtain k0 where k0: "create_client_socket nw (c_str (client_host c)) (client_port c) k = (True, k0)"
    using assms by (auto simp: open_connection_def split: prod.splits if_splits)
  show ?thesis
  proof (cases "ssl_client c")
    case False
    with assms k0 have "k0 = k1" by (simp add: open_connection_def)
    with False k0 that [of k0 "close_socket nw"] show ?thesis
      by (simp add: exchange_def close_socket_defs process_socket_once then_do_assoc)
  next
    case True
    with assms k0 obtain k2 where "ctx_valid c" "ssl_new nw k0 = (True, k2)" "ssl_handshake nw c k2 = (True, k1)"
      by (auto simp: open_connection_def split: prod.splits if_splits)
    with True k0 that [of k0 "\<lambda>k. close_socket nw (ssl_shutdown nw k)"] show ?thesis
      by (simp add: exchange_def close_socket_defs process_socket_once then_do_assoc)
  qed
qed

lemma send_on_connection:
  assumes "req_path req \<noteq> []" and "open_connection nw c k = Some k1"
    and "process_request c (client_read nw c) (client_write nw c) max_size req True (empty_response, k1)
           = Some (Return (True, closing), res, k2)"
    and "\<not> (300 < res_status res \<and> res_status res < 400 \<and> follow_location c)"
  shows "\<exists>k'. send nw valid max_size c req k = Some (Return (Some res), k')"
proof -
  from exchange_on_connection [OF assms(2), of max_size req] obtain k0 fin where
    "create_client_socket nw (c_str (client_host c)) (client_port c) k = (True, k0)"
    "exchange nw max_size c req k0 = Some (Return True, res, fin k2)"
    using assms(3) by auto
  with assms(1,4) show ?thesis by (subst send.simps) auto
qed

lemma send_throws:
  assumes "req_path req \<noteq> []" and "open_connection nw c k = Some k1"
    and "process_request c (client_read nw c) (client_write nw c) max_size req True (empty_response, k1)
           = Some (Throw msg, res, k2)"
  shows "\<exists>k'. send nw valid max_size c req k = Some (Throw msg, k')"
proof -
  from exchange_on_connection [OF assms(2), of max_size req] obtain k0 where
    "create_client_socket nw (c_str (client_host c)) (client_port c) k = (True, k0)"
    "exchange nw max_size c req k0 = Some (Throw msg, res, k2)"
    using assms(3) by auto
  with assms(1) show ?thesis by (subst send.simps) auto
qed

section \<open>Counting connections\<close>

text \<open>The behaviour of a counter of connection attempts: only \<open>create_client_socket\<close> adds to it.\<close>

definition net_keeps :: "'k net \<Rightarrow> ('k \<Rightarrow> 'p) \<Rightarrow> bool" where
  "net_keeps net part \<longleftrightarrow>
     (\<forall>k. part (snd (select_read net k)) = part k) \<and> (\<forall>n k. part (snd (recv net n k)) = part k)
     \<and> (\<forall>d k. part (snd (net_send net d k)) = part k)"

definition counts_connections :: "'k network \<Rightarrow> ('k \<Rightarrow> nat) \<Rightarrow> bool" where
  "counts_connections nw conns \<longleftrightarrow>
     (\<forall>h p k. conns (snd (create_client_socket nw h p k)) = Suc (conns k))
     \<and> (\<forall>k. conns (close_socket nw k) = conns k) \<and> (\<forall>k. conns (ssl_shutdown nw k) = conns k)
     \<and> (\<forall>k. conns (snd (ssl_new nw k)) = conns k) \<and> (\<forall>h k. conns (snd (ssl_connect nw h k)) = conns k)
     \<and> net_keeps (plain_net nw) conns \<and> net_keeps (ssl_net nw) conns"

definition ends_with :: "('k \<Rightarrow> 'p) \<Rightarrow> 'p \<Rightarrow> ('a, 'r \<times> 'k) result option \<Rightarrow> bool" where
  "ends_with part v r \<longleftrightarrow> (\<forall>a s. r = Some (a, s) \<longrightarrow> part (snd s) = v)"

lemma ends_with_simps [simp]:
  "ends_with part v None" "ends_with part v (Some (a, s)) \<longleftrightarrow> part (snd s) = v"
  by (simp_all add: ends_with_def split_paired_All [symmetric] del: split_paired_All)

lemma ends_with_then_do:
  assumes "ends_with part v r" and "\<And>a s. part (snd s) = v \<Longrightarrow> ends_with part v (f a s)"
  shows "ends_with part v (then_do r f)"
  using assms by (auto simp: then_do_def ends_with_def split: option.splits outcome.splits)

lemma client_read_quiet:
  assumes "counts_connections nw conns"
  shows "quiet_reader (client_read nw c) conns"
  using assms
  by unfold_locales
    (auto simp: counts_connections_def net_keeps_def client_read_def SSLSocketStream_read_def SocketStream_read_def
      split: prod.splits bool.splits, (metis snd_conv)+)

lemma client_write_quiet:
  assumes "counts_connections nw conns"
  shows "conns (snd (client_write nw c d k)) = conns k"
  using assms
  by (auto simp: counts_connections_def net_keeps_def client_write_def SSLSocketStream_write_def SocketStream_write_def)

lemma write_request_quiet:
  assumes "\<And>d k. part (snd (emit d k)) = part k"
  shows "part (snd (write_request c emit req l k)) = part k"
  by (auto simp: write_request_def Let_def assms split: option.splits prod.splits)

lemma process_request_quiet:
  assumes "quiet_reader read part" and "\<And>d k. part (snd (emit d k)) = part k" and "part (snd s) = v"
  shows "ends_with part v (process_request c read emit max_size req l s)"
proof -
  obtain ok k1 where w: "write_request c emit req l (snd s) = (ok, k1)" by (rule prod.exhaust)
  with write_request_quiet [where part = part and emit = emit, OF assms(2), of c req l "snd s"] assms(3) have k1: "part k1 = v"
    by simp
  have line: "part (snd t) = v \<Longrightarrow> ends_with part v (read_response_line read t)" for t v
    by (auto simp: read_response_line_def Let_def ends_with_def dest!: quiet_reader.quiet_getline [OF assms(1)]
        split: option.splits prod.splits if_splits sum.splits)
  have head: "part (snd t) = v \<Longrightarrow> ends_with part v (read_response_headers read t)" for t v
    by (auto simp: read_response_headers_def ends_with_def dest!: quiet_reader.quiet_read_headers [OF assms(1)]
        split: option.splits prod.splits)
  have body: "part (snd t) = v \<Longrightarrow> ends_with part v (read_response_body read max_size t)" for t v
    by (auto simp: read_response_body_def ends_with_def dest!: quiet_reader.quiet_read_content [OF assms(1)]
        split: option.splits prod.splits)
  show ?thesis
    unfolding process_request_def w prod.case Let_def
    using k1 by (auto intro!: ends_with_then_do line head body)
qed

lemma process_loop_quiet:
  assumes "\<And>l s v. part (snd s) = v \<Longrightarrow> ends_with part v (callback l s)"
  shows "part (snd s) = v \<Longrightarrow> ends_with part v (process_loop n callback ret s)"
  by (induction n arbitrary: ret s) (auto intro!: ends_with_then_do assms)

lemma process_socket_quiet:
  assumes "\<And>l s v. part (snd s) = v \<Longrightarrow> ends_with part v (callback l s)" and "part (snd s) = v"
  shows "ends_with part v (process_socket n callback s)"
  using assms(2) by (auto simp: process_socket_def intro!: ends_with_then_do process_loop_quiet assms(1))

lemma exchange_quiet:
  assumes "counts_connections nw conns"
  shows "ends_with conns (conns k) (exchange nw max_size c req k)"
proof -
  let ?callback = "process_request c (client_read nw c) (client_write nw c) max_size req"
  have cb: "conns (snd s) = v \<Longrightarrow> ends_with conns v (?callback l s)" for l s v
    by (rule process_request_quiet [where part = conns])
      (simp_all add: client_read_quiet client_write_quiet assms)
  have laws: "\<And>k. conns (close_socket nw k) = conns k" "\<And>k. conns (ssl_shutdown nw k) = conns k"
    "\<And>k. conns (snd (ssl_new nw k)) = conns k" "\<And>h k. conns (snd (ssl_connect nw h k)) = conns k"
    using assms by (simp_all add: counts_connections_def)
  obtain made k1 where n: "ssl_new nw k = (made, k1)" by (rule prod.exhaust)
  obtain ok k2 where h: "ssl_handshake nw c k1 = (ok, k2)" by (rule prod.exhaust)
  have "conns (snd (ssl_handshake nw c k1)) = conns k1"
    using laws(4) [of "c_str (client_host c)" k1]
    by (auto simp: ssl_handshake_def split: prod.splits)
  with laws(3) [of k] n h have "conns k1 = conns k" "conns k2 = conns k" by simp_all
  with n h laws show ?thesis
    unfolding exchange_def close_socket_defs
    by (auto intro!: ends_with_then_do process_socket_quiet cb)
qed

lemma redirect_target_follows:
  "redirect_target valid c req res = Some (c', req') \<Longrightarrow> follow_location c' = follow_location c"
  by (auto simp: redirect_target_def Let_def copy_settings_def split: if_splits option.splits prod.splits)

lemma send_connections:
  assumes "counts_connections nw conns"
  shows "send nw valid max_size c req k = Some (r, k') \<Longrightarrow>
    conns k' \<le> conns k + (if follow_location c then Suc (redirect_count req) else 1)"
  using assms
proof (induction nw valid max_size c req k arbitrary: r k' rule: send.induct)
  case (1 nw valid max_size c req k)
  obtain connected k1 where k1: "create_client_socket nw (c_str (client_host c)) (client_port c) k = (connected, k1)"
    by (rule prod.exhaust)
  have c1: "conns k1 = Suc (conns k)"
    using 1(3) k1 unfolding counts_connections_def by (metis snd_conv)
  show ?case
  proof (cases "req_path req = [] \<or> \<not> connected")
    case True
    with 1(2) k1 c1 show ?thesis by (subst (asm) send.simps) (auto split: if_splits)
  next
    case False
    with 1(2) k1 obtain o2 res k2 where x: "exchange nw max_size c req k1 = Some (o2, res, k2)"
      by (subst (asm) send.simps) (auto split: option.splits)
    with exchange_quiet [OF 1(3), of k1 max_size c req] c1 have c2: "conns k2 = Suc (conns k)" by simp
    show ?thesis
    proof (cases "\<exists>c' req'. o2 = Return True \<and> 300 < res_status res \<and> res_status res < 400 \<and> follow_location c
          \<and> redirect_target valid c req res = Some (c', req')")
      case True
      then obtain c' req' where t: "o2 = Return True" "300 < res_status res" "res_status res < 400"
        "follow_location c" "redirect_target valid c req res = Some (c', req')" by blast
      with 1(2) k1 x False have "send nw valid max_size c' req' k2 = Some (r, k')"
        by (subst (asm) send.simps) simp
      from 1(1) [OF _ k1 [symmetric] _ x refl refl t(1) _ _ t(5) refl this] False t 1(3)
      have "conns k' \<le> conns k2 + (if follow_location c' then Suc (redirect_count req') else 1)" by simp
      with c2 t(4) redirect_target_count [OF t(5)] redirect_target_follows [OF t(5)] show ?thesis by simp
    next
      case nofollow: False
      then have "k' = k2" using 1(2) k1 x False
        by (subst (asm) send.simps) (auto split: outcome.splits if_splits option.splits)
      with c2 show ?thesis by simp
    qed
  qed
qed

section \<open>A network in memory\<close>

text \<open>Its state holds what was sent, what is still to be received and the number of connections made.\<close>

definition memory_net :: "(bytes \<times> bytes \<times> nat) net" where
  "memory_net = \<lparr>select_read = (\<lambda>k. (True, k)),
     recv = (\<lambda>n (sent, inp, m). (Some (take n inp), (sent, drop n inp, m))),
     net_send = (\<lambda>d (sent, inp, m). (int (length d), (sent @ d, inp, m)))\<rparr>"

definition memory_network :: "(bytes \<times> bytes \<times> nat) network" where
  "memory_network = \<lparr>create_client_socket = (\<lambda>h p (sent, inp, m). (True, (sent, inp, Suc m))),
     close_socket = (\<lambda>k. k), plain_net = memory_net, ssl_new = (\<lambda>k. (True, k)),
     ssl_connect = (\<lambda>h k. (True, k)), verify_result_ok = (\<lambda>k. True), peer_certificate = (\<lambda>k. None),
     is_address = (\<lambda>h. False), same_address = (\<lambda>h n. False), ssl_pending = (\<lambda>k. False),
     ssl_net = memory_net, ssl_shutdown = (\<lambda>k. k)\<rparr>"

lemma memory_source: "source_laws (client_read memory_network c) (\<lambda>k. fst (snd k))"
  by (auto simp: source_laws_def client_read_def memory_network_def memory_net_def SocketStream_read_def
      SSLSocketStream_read_def)

interpretation memory_stream: output_stream "client_write memory_network c" fst for c
  by unfold_locales
    (auto simp: client_write_def memory_network_def memory_net_def SocketStream_write_def SSLSocketStream_write_def)

lemma memory_write_keeps_input: "fst (snd (snd (client_write memory_network c d k))) = fst (snd k)"
  by (auto simp: client_write_def memory_network_def memory_net_def SocketStream_write_def
      SSLSocketStream_write_def split: prod.splits)

lemma memory_counts: "counts_connections memory_network (\<lambda>k. snd (snd k))"
  by (auto simp: counts_connections_def net_keeps_def memory_network_def memory_net_def split: prod.splits)

section \<open>Properties\<close>

text \<open>The bytes of a request. For a path that starts with a slash and plain headers, \<^verbatim>\<open>write_request\<close> puts
  exactly the request line with the encoded path, the headers of the request, the headers it adds, an
  empty line and the body on the connection, and no character of the path can end the line or the path.\<close>

theorem request_on_wire:
  assumes "output_stream emit written" and "req_path req = CHR ''/'' # p" and "fragment_ok (req_path req)"
    and "headers_plain c req l" and "length (request_line (req_method req) (encode_url (req_path req))) < 2 ^ 31"
  shows "(\<exists>k'. write_request c emit req l k = (True, k')
           \<and> written k' = written k @ c_str (req_method req) @ '' '' @ encode_url (req_path req) @ '' HTTP/1.1'' @ crlf
               @ concat (map header_line (req_headers req @ additional_headers c req l)) @ crlf @ req_body req)
         \<and> set (encode_url (req_path req)) \<inter> {CHR '' '', CR, LF, NUL} = {}"
  using write_request_slash [OF assms] encode_url_plain by blast


text \<open>A response is received as it was sent. When the connection can be opened and the server answers the
  written request with a status line, plain headers that do not announce compression, and a body that
  they delimit, \<^verbatim>\<open>send\<close> returns exactly that status, those headers and that body, however the connection
  splits the bytes; without a body for \<^verbatim>\<open>HEAD\<close>.\<close>

theorem response_received:
  assumes "source_laws (client_read nw c) incoming" and "response_ok version n reason hs"
    and "req_path req \<noteq> []" and "open_connection nw c k = Some k1"
    and "write_request c (client_write nw c) req True k1 = (True, k2)"
    and "incoming k2 = response_bytes version n reason hs wire"
    and "if has_body req then framed (emplace_all hs []) b wire else b = []"
    and "length b \<le> max_size" and "max_size < 2 ^ 64"
    and "\<not> (300 < n \<and> n < 400 \<and> follow_location c)"
  shows "\<exists>k'. send nw valid max_size c req k
           = Some (Return (Some \<lparr>res_version = version, res_status = int n, res_headers = emplace_all hs [],
                                 res_body = b\<rparr>), k')"
proof -
  from process_request_receives [OF assms(1,2,5,6,7,8,9)] obtain closing k3 where
    "process_request c (client_read nw c) (client_write nw c) max_size req True (empty_response, k1)
       = Some (Return (True, closing), response_of version n hs b, k3)" by blast
  from send_on_connection [OF assms(3,4) this] assms(10) show ?thesis by (simp add: response_of_def)
qed


text \<open>A path without a slash, a question mark or a hash sign is sent as it is, blanks and ends of line
  included: it is taken for a host name and not encoded.\<close>

theorem path_without_slash_is_raw:
  assumes "output_stream emit written" and "req_path req = p" and "list_all (\<lambda>c. c \<notin> set ''/?#'') p"
    and "headers_plain c req l" and "length (request_line (req_method req) p) < 2 ^ 31" and "NUL \<notin> set p"
  shows "\<exists>k'. write_request c emit req l k = (True, k')
           \<and> written k' = written k @ c_str (req_method req) @ '' '' @ p @ '' HTTP/1.1'' @ crlf
               @ concat (map header_line (req_headers req @ additional_headers c req l)) @ crlf @ req_body req"
proof -
  have p: "takeWhile (\<lambda>c. c \<notin> set ''/?#'') p = p" "dropWhile (\<lambda>c. c \<notin> set ''/?#'') p = []"
    using assms(3) by (auto simp: list_all_iff)
  have "CHR ''/'' \<notin> set p" using assms(3) by (auto simp: list_all_iff)
  then have "take 3 (drop j p) \<noteq> ''://''" for j
    by (metis in_set_dropD in_set_takeD list.set_intros(1) list.set_intros(2))
  then have "split_scheme p = ([], p)" by (simp add: split_scheme_def Let_def)
  then have "split_path (req_path req) = Some (p, [])"
    unfolding split_path_def assms(2) by (simp only: p Let_def prod.case) (simp add: fragment_ok_def)
  from output_stream.write_request_appends [OF assms(1) this assms(4), of k] assms(5,6) show ?thesis
    by (simp add: request_head_def request_line_def c_str_plain encode_url_def c_str_def [of "[]"])
qed

section \<open>Witnesses\<close>

definition sample_request :: "bytes \<Rightarrow> Request" where
  "sample_request p = new_http_request ''GET'' p [] []"

lemma sample_plain: "headers_plain (new_client ''h'') (sample_request p) True"
  by (simp add: headers_plain_def sample_request_def new_http_request_def new_client_def added_def one_if_def
      has_header_def default_port_def header_ok_def header_line_def c_str_def crlf_def blank_def)

lemma sample_simps:
  "req_path (sample_request p) = p" "req_method (sample_request p) = ''GET''" "req_body (sample_request p) = []"
  "req_headers (sample_request p) = []" "redirect_count (sample_request p) = 20"
  by (simp_all add: sample_request_def new_http_request_def REDIRECT_MAX_COUNT_def)

theorem request_on_wire_witness:
  "\<exists>k'. write_request (new_client ''h'') BufferStream_write (sample_request ''/a b'') True [] = (True, k')
     \<and> k' = ''GET /a%20b HTTP/1.1'' @ crlf
            @ concat (map header_line (additional_headers (new_client ''h'') (sample_request ''/a b'') True)) @ crlf"
proof -
  have e: "encode_url ''/a b'' = ''/a%20b''" by code_simp
  have "fragment_ok ''/a b''" by code_simp
  with request_on_wire [OF buffer_stream.output_stream_axioms _ _ sample_plain, of "''/a b''" "''a b''" "[]"]
  show ?thesis by (simp add: sample_simps e request_line_def c_str_def crlf_def)
qed


text \<open>The network in memory serves any bytes.\<close>

lemma memory_serves:
  obtains k2 where "open_connection memory_network (new_client ''h'') ([], inp, 0) = Some ([], inp, 1)"
    and "write_request (new_client ''h'') (client_write memory_network (new_client ''h'')) (sample_request ''/'') True
           ([], inp, 1) = (True, k2)"
    and "fst (snd k2) = inp"
proof -
  let ?c = "new_client ''h''"
  let ?w = "write_request ?c (client_write memory_network ?c) (sample_request ''/'') True ([], inp, 1)"
  have "fst ?w"
    by (simp add: write_request_def sample_simps split_path_slash [of "[]"] fragment_ok_def Let_def)
  moreover have "fst (snd (snd ?w)) = inp"
    using write_request_quiet [where part = "\<lambda>k. fst (snd k)" and emit = "client_write memory_network ?c"
        and k = "([], inp, 1)", OF memory_write_keeps_input]
    by (metis fst_conv snd_conv)
  moreover have "open_connection memory_network ?c ([], inp, 0) = Some ([], inp, 1)"
    by (simp add: open_connection_def memory_network_def new_client_def)
  ultimately show ?thesis using that [of "snd ?w"] by (simp add: prod_eq_iff)
qed

definition sample_response :: bytes where
  "sample_response = response_bytes ''HTTP/1.1'' 200 ''OK'' [(''Content-Length'', ''2'')] ''hi''"

lemma sample_response_ok: "response_ok ''HTTP/1.1'' 200 ''OK'' [(''Content-Length'', ''2'')]"
  by (simp add: response_ok_def status_ok_def header_ok_def header_line_def c_str_def crlf_def blank_def
      get_header_value_named ci_length)

lemma sample_framed: "framed [(''Content-Length'', ''2'')] ''hi'' ''hi''"
proof -
  have "std_to_string 2 = ''2''" by code_simp
  with strtoull_decimal [of 2] have "strtoull ''2'' = 2" by simp
  then show ?thesis
    using framed.sized [of "[(''Content-Length'', ''2'')]" "''hi''" "[]"]
    by (simp add: is_chunked_transfer_encoding_def same_ignoring_case_def has_header_named get_header_value_named
        get_header_value_uint64_named ci_length c_str_def)
qed

theorem response_received_witness:
  "\<exists>k'. send memory_network True 100 (new_client ''h'') (sample_request ''/'') ([], sample_response, 0)
     = Some (Return (Some \<lparr>res_version = ''HTTP/1.1'', res_status = 200,
                           res_headers = [(''Content-Length'', ''2'')], res_body = ''hi''\<rparr>), k')"
proof -
  obtain k2 where s: "open_connection memory_network (new_client ''h'') ([], sample_response, 0) = Some ([], sample_response, 1)"
    "write_request (new_client ''h'') (client_write memory_network (new_client ''h'')) (sample_request ''/'') True
       ([], sample_response, 1) = (True, k2)" "fst (snd k2) = sample_response"
    by (rule memory_serves)
  with response_received [OF memory_source sample_response_ok _ s(1,2), of "''hi''" "''hi''" 100 True] sample_framed
  show ?thesis by (simp add: sample_simps has_body_def new_client_def sample_response_def)
qed


theorem path_without_slash_is_raw_witness:
  "\<exists>k'. write_request (new_client ''h'') BufferStream_write (sample_request (''x'' @ crlf @ ''A: b'')) True [] = (True, k')
     \<and> k' = ''GET x'' @ crlf @ ''A: b HTTP/1.1'' @ crlf
         @ concat (map header_line (additional_headers (new_client ''h'') (sample_request (''x'' @ crlf @ ''A: b'')) True)) @ crlf"
  using path_without_slash_is_raw [OF buffer_stream.output_stream_axioms _ _ sample_plain, of "''x'' @ crlf @ ''A: b''" _ "[]"]
  by (simp add: sample_simps request_line_def c_str_def crlf_def)

end
