(* ===== verification/Fetch_Client.thy ===== *)
theory Fetch_Client
  imports Fetch Http_Client
begin

text \<open>
  The thread of \<^verbatim>\<open>http.fetch\<close> with the HTTP client it runs: from the bytes a server sends to the object the
  script gets, and what a malformed response does to the process.
\<close>

section \<open>The thread\<close>

definition client_for :: "bool \<Rightarrow> FetchRequest \<Rightarrow> Client" where
  "client_for valid req =
     (if is_ssl req then enable_server_certificate_verification False (new_ssl_client valid (hostname req))
      else new_client (hostname req))"

text \<open>The tests of the method exclude each other; when none holds there is no response.\<close>

definition call_client ::
    "'k network \<Rightarrow> bool \<Rightarrow> nat \<Rightarrow> FetchRequest \<Rightarrow> 'k \<Rightarrow> (Response option, 'k) result option" where
  "call_client nw valid max_size req k =
     (let c = client_for valid req; p = c_str (path req); hs = request_headers req
      in if request_method req = ''GET'' then Get nw valid max_size c p hs k
         else if request_method req = ''POST'' then Post nw valid max_size c (body req) p hs k
         else if request_method req = ''HEAD'' then Head nw valid max_size c p hs k
         else if request_method req = ''PUT'' then Put nw valid max_size c (body req) p hs k
         else if request_method req = ''DELETE'' then Delete nw valid max_size c (body req) p hs k
         else if request_method req = ''OPTIONS'' then Options nw valid max_size c p hs k
         else if request_method req = ''PATCH'' then Patch nw valid max_size c (body req) p hs k
         else Some (Return None, k))"

text \<open>The response as the wrapper keeps it; \<open>cap\<close> gives the capacities of the strings for the body and the
  version.\<close>

definition to_response :: "(Response \<Rightarrow> int \<times> int) \<Rightarrow> Response \<Rightarrow> http_response" where
  "to_response cap r = \<lparr>status = res_status r, response_body = res_body r, response_headers = res_headers r,
     body_capacity = fst (cap r), version_capacity = snd (cap r)\<rparr>"

text \<open>An exception leaves the function of a detached thread, so the process is terminated.\<close>

definition fetch_thread ::
    "'k network \<Rightarrow> bool \<Rightarrow> nat \<Rightarrow> (Response \<Rightarrow> int \<times> int) \<Rightarrow> FetchRequest \<Rightarrow> nat
       \<Rightarrow> http_response heap \<Rightarrow> pool \<Rightarrow> 'k \<Rightarrow> (http_response heap \<times> pool, 'k) result option" where
  "fetch_thread nw valid max_size cap req i h p k =
     (case call_client nw valid max_size req k of
        None \<Rightarrow> None
      | Some (r, k') \<Rightarrow>
          (case r of
             Return response \<Rightarrow>
               (case fetch_answer (map_option (to_response cap) response) h of
                  (st, h') \<Rightarrow> Some (Return (h', settle i st (release_slot p)), k'))
           | Throw msg \<Rightarrow> Some (Crash, k')
           | Block \<Rightarrow> Some (Block, k')
           | Crash \<Rightarrow> Some (Crash, k')))"

section \<open>The request that is sent\<close>

definition known_methods :: "bytes list" where
  "known_methods = [''GET'', ''POST'', ''HEAD'', ''PUT'', ''DELETE'', ''OPTIONS'', ''PATCH'']"

definition http_request :: "FetchRequest \<Rightarrow> Request" where
  "http_request req = new_http_request (request_method req) (c_str (path req)) (request_headers req)
     (if request_method req \<in> {''POST'', ''PUT'', ''DELETE'', ''PATCH''} then body req else [])"

lemma call_client_sends:
  assumes "request_method req \<in> set known_methods"
  shows "call_client nw valid max_size req k = send nw valid max_size (client_for valid req) (http_request req) k"
  using assms unfolding known_methods_def
  by (auto simp: call_client_def http_request_def Get_def Head_def Post_def Put_def Patch_def Delete_def Options_def
      send_with_content_provider_def)

lemma client_for_follows: "follow_location (client_for valid req) = False"
  by (simp add: client_for_def enable_server_certificate_verification_def new_ssl_client_def new_client_def)

text \<open>Where the client returns, the thread does what the worker of the theory of \<^verbatim>\<open>http.fetch\<close> does with its
  answer.\<close>

lemma fetch_thread_worker:
  assumes "call_client nw valid max_size req k = Some (Return response, k')"
  shows "\<exists>h' p'. fetch_thread nw valid max_size cap req i h p k = Some (Return (h', p'), k')
           \<and> fetch_worker (\<lambda>_ _ _ _ _ _. map_option (to_response cap) response) h req i p = Some p'"
proof (cases "request_method req \<in> set known_methods")
  case True
  then have "send_request (\<lambda>_ _ _ _ _ _. map_option (to_response cap) response) req = map_option (to_response cap) response"
    by (auto simp: send_request_def known_methods_def)
  with assms show ?thesis by (simp add: fetch_thread_def fetch_worker_def split: prod.splits)
next
  case False
  then have "send_request (\<lambda>_ _ _ _ _ _. map_option (to_response cap) response) req = None" "response = None"
    using assms by (auto simp: send_request_def known_methods_def call_client_def)
  with assms show ?thesis by (simp add: fetch_thread_def fetch_worker_def split: prod.splits)
qed

section \<open>Answered requests\<close>

text \<open>The connection for a request opens, the request is written, and these bytes come back.\<close>

definition answered :: "'k network \<Rightarrow> bool \<Rightarrow> FetchRequest \<Rightarrow> ('k \<Rightarrow> bytes) \<Rightarrow> bytes \<Rightarrow> 'k \<Rightarrow> bool" where
  "answered nw valid req incoming answer k \<longleftrightarrow>
     (let c = client_for valid req
      in source_laws (client_read nw c) incoming
         \<and> (case open_connection nw c k of
              None \<Rightarrow> False
            | Some k1 \<Rightarrow> (case write_request c (client_write nw c) (http_request req) True k1 of
                            (sent, k2) \<Rightarrow> sent \<and> incoming k2 = answer)))"

lemma answeredE:
  assumes "answered nw valid req incoming answer k"
  obtains k1 k2 where "source_laws (client_read nw (client_for valid req)) incoming"
    and "open_connection nw (client_for valid req) k = Some k1"
    and "write_request (client_for valid req) (client_write nw (client_for valid req)) (http_request req) True k1 = (True, k2)"
    and "incoming k2 = answer"
  using assms by (auto simp: answered_def Let_def split: option.splits prod.splits)

lemma http_request_facts:
  "req_path (http_request req) = c_str (path req)" "req_method (http_request req) = request_method req"
  by (simp_all add: http_request_def new_http_request_def)

lemma fetch_thread_receives:
  assumes "request_method req \<in> set known_methods" and "c_str (path req) \<noteq> []"
    and "answered nw valid req incoming (response_bytes version n reason hs wire) k"
    and "response_ok version n reason hs"
    and "if request_method req = ''HEAD'' then b = [] else framed (emplace_all hs []) b wire"
    and "length b \<le> max_size" and "max_size < 2 ^ 64" and "promises p i = Some Pending"
  shows "\<exists>h' p' k' object. fetch_thread nw valid max_size cap req i h p k = Some (Return (h', p'), k')
           \<and> thread_count p' = thread_count p - 1
           \<and> promises p' i = Some (ResolvedWith (RObject object))
           \<and> fetch_answer (Some (to_response cap (response_of version n hs b))) h = (ResolvedWith (RObject object), h')"
proof -
  let ?r = "response_of version n hs b"
  from assms(3) obtain k1 k2 where
    c: "source_laws (client_read nw (client_for valid req)) incoming"
      "open_connection nw (client_for valid req) k = Some k1"
      "write_request (client_for valid req) (client_write nw (client_for valid req)) (http_request req) True k1 = (True, k2)"
      "incoming k2 = response_bytes version n reason hs wire"
    by (rule answeredE)
  have "request_method req \<noteq> ''CONNECT''" using assms(1) by (auto simp: known_methods_def)
  with assms(5) have "if has_body (http_request req) then framed (emplace_all hs []) b wire else b = []"
    by (simp add: has_body_def http_request_facts)
  from process_request_receives [OF c(1) assms(4) c(3,4) this assms(6,7)] obtain closing k3 where
    "process_request (client_for valid req) (client_read nw (client_for valid req)) (client_write nw (client_for valid req))
       max_size (http_request req) True (empty_response, k1) = Some (Return (True, closing), ?r, k3)" by blast
  from send_on_connection [OF _ c(2) this, of valid] assms(1,2) client_for_follows obtain k' where
    sent: "call_client nw valid max_size req k = Some (Return (Some ?r), k')"
    by (auto simp: call_client_sends http_request_facts)
  obtain object h' where "new_object capacity (to_response cap ?r) h = (object, h')" by (rule prod.exhaust)
  then have "fetch_answer (Some (to_response cap ?r)) h = (ResolvedWith (RObject object), h')"
    by (simp add: fetch_answer_def)
  with sent release_settle [OF assms(8)] show ?thesis by (auto simp: fetch_thread_def)
qed

section \<open>Properties\<close>

text \<open>C9. From the server to the script. When the connection opens, the server answers the request of a fetch
  with a well-formed response and the thread runs, it ends, frees its slot, and resolves its promise with
  an object whose status, body and headers are the ones the server sent.\<close>

theorem fetch_end_to_end:
  assumes "request_method req \<in> set known_methods" and "c_str (path req) \<noteq> []"
    and "answered nw valid req incoming (response_bytes version n reason hs wire) k"
    and "response_ok version n reason hs"
    and "if request_method req = ''HEAD'' then b = [] else framed (emplace_all hs []) b wire"
    and "length b \<le> max_size" and "max_size < 2 ^ 64" and "promises p i = Some Pending"
    and "length b \<le> max_length" and "list_all (\<lambda>j. j < next_object h) (cleared h)"
  shows "\<exists>h' p' k' object. fetch_thread nw valid max_size cap req i h p k = Some (Return (h', p'), k')
           \<and> thread_count p' = thread_count p - 1
           \<and> promises p' i = Some (ResolvedWith (RObject object))
           \<and> fetch_status object h' = (Return (RInteger (int n)), h')
           \<and> fetch_text max_length object h' = (Return (if b = [] then RNull else ROneByte b), h')
           \<and> fetch_headers object h'
             = (Return (if emplace_all hs [] = [] then RNull else RProperties (emplace_all hs [])), h')"
proof -
  let ?r = "to_response cap (response_of version n hs b)"
  from fetch_thread_receives [OF assms(1-8), of cap h] obtain h' p' k' object where
    t: "fetch_thread nw valid max_size cap req i h p k = Some (Return (h', p'), k')"
      "thread_count p' = thread_count p - 1" "promises p' i = Some (ResolvedWith (RObject object))"
      "fetch_answer (Some ?r) h = (ResolvedWith (RObject object), h')" by blast
  have "status ?r = int n" "response_body ?r = b" "response_headers ?r = emplace_all hs []"
    by (simp_all add: to_response_def response_of_def)
  with fetch_object_shows_response [OF assms(10) t(4), of max_length] assms(9) t(1-3) show ?thesis by auto
qed

text \<open>C37. A malformed chunk ends the process. When a response announces chunks and the line of the first chunk
  is no number for \<^verbatim>\<open>std::stoi\<close>, the exception leaves the thread of the fetch, for every method but \<^verbatim>\<open>HEAD\<close>.\<close>

theorem malformed_chunk_ends_process:
  assumes "request_method req \<in> set known_methods - {''HEAD''}" and "c_str (path req) \<noteq> []"
    and "answered nw valid req incoming (response_bytes version n reason hs (l @ LF # r)) k"
    and "response_ok version n reason hs" and "is_chunked_transfer_encoding (emplace_all hs [])"
    and "LF \<notin> set l" and "stoi 16 (l @ [LF]) = Inl msg"
  shows "\<exists>k'. fetch_thread nw valid max_size cap req i h p k = Some (Crash, k')"
proof -
  from assms(3) obtain k1 k2 where
    c: "source_laws (client_read nw (client_for valid req)) incoming"
      "open_connection nw (client_for valid req) k = Some k1"
      "write_request (client_for valid req) (client_write nw (client_for valid req)) (http_request req) True k1 = (True, k2)"
      "incoming k2 = response_bytes version n reason hs (l @ LF # r)"
    by (rule answeredE)
  have "has_body (http_request req)"
    using assms(1) by (auto simp: has_body_def known_methods_def http_request_facts)
  from process_request_bad_chunk [OF c(1) assms(4) c(3,4) assms(5) this assms(6,7), of max_size] obtain res k3 where
    "process_request (client_for valid req) (client_read nw (client_for valid req)) (client_write nw (client_for valid req))
       max_size (http_request req) True (empty_response, k1) = Some (Throw msg, res, k3)" by blast
  from send_throws [OF _ c(2) this, of valid] assms(1,2) obtain k' where
    "call_client nw valid max_size req k = Some (Throw msg, k')" by (auto simp: call_client_sends http_request_facts)
  then show ?thesis by (simp add: fetch_thread_def)
qed

section \<open>Witnesses\<close>

definition sample_fetch :: FetchRequest where
  "sample_fetch = new_request ''h'' ''/''"

definition waiting_pool :: pool where
  "waiting_pool = \<lparr>thread_count = 1, next_promise = 1, promises = [0 \<mapsto> Pending]\<rparr>"

lemma sample_fetch_facts:
  "request_method sample_fetch = ''GET''" "c_str (path sample_fetch) = ''/''"
  "client_for valid sample_fetch = new_client ''h''" "http_request sample_fetch = sample_request ''/''"
  by (simp_all add: sample_fetch_def new_request_def c_str_def client_for_def http_request_def sample_request_def)

lemma sample_answered: "answered memory_network valid sample_fetch (\<lambda>k. fst (snd k)) inp ([], inp, 0)"
proof -
  obtain k2 where "open_connection memory_network (new_client ''h'') ([], inp, 0) = Some ([], inp, 1)"
    "write_request (new_client ''h'') (client_write memory_network (new_client ''h'')) (sample_request ''/'') True
       ([], inp, 1) = (True, k2)" "fst (snd k2) = inp"
    by (rule memory_serves)
  then show ?thesis by (simp add: answered_def sample_fetch_facts memory_source)
qed

theorem fetch_end_to_end_witness:
  "\<exists>h' p' k' object. fetch_thread memory_network True 100 (\<lambda>_. (15, 15)) sample_fetch 0 empty_heap waiting_pool
       ([], sample_response, 0) = Some (Return (h', p'), k')
     \<and> promises p' 0 = Some (ResolvedWith (RObject object))
     \<and> fetch_status object h' = (Return (RInteger 200), h')
     \<and> fetch_text 100 object h' = (Return (ROneByte ''hi''), h')"
  using fetch_end_to_end [OF _ _ sample_answered [of True sample_response, unfolded sample_response_def] sample_response_ok,
      of "''hi''" 100 waiting_pool 0 100 empty_heap "\<lambda>_. (15, 15)"] sample_framed
  by (auto simp: sample_fetch_facts known_methods_def waiting_pool_def empty_heap_def sample_response_def)

theorem malformed_chunk_ends_process_witness:
  "\<exists>k'. fetch_thread memory_network True 100 (\<lambda>_. (15, 15)) sample_fetch 0 empty_heap waiting_pool
       ([], response_bytes ''HTTP/1.1'' 200 ''OK'' [(''Transfer-Encoding'', ''chunked'')] (''zz'' @ LF # []), 0)
     = Some (Crash, k')"
proof (rule malformed_chunk_ends_process [OF _ _ sample_answered])
  have "strto 16 (''zz'' @ [LF]) = None" by code_simp
  then show "stoi 16 (''zz'' @ [LF]) = Inl ''invalid stoi argument''" by (simp add: stoi_def)
  show "response_ok ''HTTP/1.1'' 200 ''OK'' [(''Transfer-Encoding'', ''chunked'')]"
    by (simp add: response_ok_def status_ok_def header_ok_def header_line_def c_str_def crlf_def blank_def
        get_header_value_named ci_length)
  show "is_chunked_transfer_encoding (emplace_all [(''Transfer-Encoding'', ''chunked'')] [])"
    by (simp add: is_chunked_transfer_encoding_def get_header_value_named same_ignoring_case_def c_str_def)
qed (simp_all add: sample_fetch_facts known_methods_def)

end
