(* ===== verification/Runtime.thy ===== *)
theory Runtime
  imports Script_Api Http_Response Http_Request File_System Ipc_Object Bcrypt Fetch_Client
begin

text \<open>
  The running module: every function of the namespace called on the state of all components, the
  workers started by the asynchronous functions, and the collection of objects, as one
  transition system. A worker acts in two steps, as in the source: it does its work and frees its
  slot without the V8 lock, and later settles its promise under the lock, so other calls and other
  workers come in between. The properties: in every reachable state the counter of threads is the
  number of workers that still work, every pending promise belongs to exactly one worker, and
  external memory is accounted for; settled promises stay as they are; when the workers end, all
  promises get settled; and what happens when a function is called on an object of another kind.
\<close>

section \<open>State\<close>

datatype db_job = Job_exec | Job_query | Job_queryRow

datatype job =
    FetchJob FetchRequest
  | CompressJob "bytes \<times> int"
  | DecompressJob bytes
  | HashJob "int \<times> bytes"
  | CheckJob "bytes \<times> bytes"
  | DbJob db_job nat

text \<open>What a worker still does once it holds the lock: settle its promise, or first create the object
  for a response.\<close>

datatype ending = Settle settlement | Answer "http_response option"

record ('k, 'd, 'n) world =
  shell_engine :: engine
  files :: fs
  stores :: "'k ipc"
  databases :: "'d heap"
  responses :: "http_response heap"
  contexts :: "nat \<Rightarrow> http"                \<comment> \<open>by number of the \<^verbatim>\<open>IHttpContext\<close>\<close>
  net_state :: 'n
  threads :: pool
  busy :: "(nat \<times> job) list"           \<comment> \<open>workers before the release of their slot\<close>
  ending :: "(nat \<times> ending) list"         \<comment> \<open>workers that wait for the lock\<close>

text \<open>Everything outside the repository, and the runner of compiled scripts.\<close>

record ('k, 'd, 'z, 'n) host =
  host_v8 :: v8
  host_disk :: disk
  host_runner :: script_runner
  host_files :: file_api
  host_dir :: wstring
  host_memory :: "nat \<Rightarrow> char"
  host_slot :: nat
  host_iis :: iis
  host_kv :: "'k ipc_kv"
  host_db :: "'d cppdb"
  host_bcrypt :: bcrypt
  host_random :: nat
  host_zlib :: "'z zlib"
  host_objects :: v8_objects
  host_network :: "'n network"
  host_ssl_valid :: bool
  host_max_size :: nat
  host_capacities :: "Response \<Rightarrow> int \<times> int"

section \<open>Receivers\<close>

text \<open>The object a function is called on: one without an internal field, or one of the objects that
  carry a native pointer. The functions cast that pointer without checking what it points to.\<close>

datatype receiver = Plain | Ipc_Object nat | Db_Object nat | Fetch_Object nat | Http_Object nat

datatype pointer = No_Field | Null_Pointer | Points

definition points :: "'a option \<Rightarrow> pointer" where
  "points x = (case x of None \<Rightarrow> Null_Pointer | Some _ \<Rightarrow> Points)"

fun pointer_of :: "receiver \<Rightarrow> ('k, 'd, 'n) world \<Rightarrow> pointer" where
  "pointer_of Plain w = No_Field"
| "pointer_of (Ipc_Object i) w = points (internal_pointer i (ipc_objects (stores w)))"
| "pointer_of (Db_Object i) w = points (internal_pointer i (databases w))"
| "pointer_of (Fetch_Object i) w = points (internal_pointer i (responses w))"
| "pointer_of (Http_Object c) w = (if http_context (contexts w c) = NullContext then Null_Pointer else Points)"

text \<open>A function on a receiver of another kind: reading the field of an object that has none fails V8's
  check, a null pointer is refused like a null pointer of the right kind, and any other pointer is
  used as if it had the right type.\<close>

definition foreign :: "receiver \<Rightarrow> 'r outcome \<Rightarrow> ('k, 'd, 'n) world \<Rightarrow> ('r, ('k, 'd, 'n) world) result" where
  "foreign this refused w = (if pointer_of this w = Null_Pointer then (refused, w) else (Crash, w))"

section \<open>The functions\<close>

fun invoke_shell ::
    "('k, 'd, 'z, 'n) host \<Rightarrow> shell_function \<Rightarrow> js_args \<Rightarrow> engine \<Rightarrow> (js_return, engine) result option" where
  "invoke_shell env Fn_print args e = Some (print (host_v8 env) args e)"
| "invoke_shell env Fn_load args e = load (host_v8 env) (host_disk env) (host_runner env) args e"
| "invoke_shell env Fn_register args e = Some (register args e)"

fun invoke_fs :: "('k, 'd, 'z, 'n) host \<Rightarrow> fs_fn \<Rightarrow> js_args \<Rightarrow> ('k, 'd, 'n) world \<Rightarrow> (js_return, ('k, 'd, 'n) world) result" where
  "invoke_fs env Fs_register args w =
     (case fs_register args (shell_engine w) of (r, e) \<Rightarrow> (r, w\<lparr>shell_engine := e\<rparr>))"
| "invoke_fs env Fs_copy args w =
     (case fs_copy (host_files env) (host_dir env) args (files w) of (r, s) \<Rightarrow> (r, w\<lparr>files := s\<rparr>))"
| "invoke_fs env Fs_exists args w =
     (case fs_exists (host_files env) (host_dir env) args (files w) of (r, s) \<Rightarrow> (r, w\<lparr>files := s\<rparr>))"
| "invoke_fs env Fs_delete args w =
     (case fs_delete (host_files env) (host_dir env) args (files w) of (r, s) \<Rightarrow> (r, w\<lparr>files := s\<rparr>))"
| "invoke_fs env Fs_write args w =
     (case fs_write (host_files env) (host_dir env) args (files w) of (r, s) \<Rightarrow> (r, w\<lparr>files := s\<rparr>))"
| "invoke_fs env Fs_read args w =
     (case fs_read (host_files env) (host_dir env) (host_memory env) args (files w) of (r, s) \<Rightarrow> (r, w\<lparr>files := s\<rparr>))"

fun invoke_ipc :: "('k, 'd, 'z, 'n) host \<Rightarrow> ipc_fn \<Rightarrow> nat \<Rightarrow> js_args \<Rightarrow> 'k ipc \<Rightarrow> (js_return, 'k ipc) result" where
  "invoke_ipc env Ipc_set = ipc_set (host_kv env)"
| "invoke_ipc env Ipc_get = ipc_get (host_kv env)"
| "invoke_ipc env Ipc_close = ipc_close (host_kv env)"

text \<open>The synchronous functions of a database object; the asynchronous ones start a job.\<close>

fun db_async :: "db_fn \<Rightarrow> db_job option" where
  "db_async Db_exec = Some Job_exec"
| "db_async Db_query = Some Job_query"
| "db_async Db_queryRow = Some Job_queryRow"
| "db_async _ = None"

text \<open>The clauses for \<^verbatim>\<open>exec\<close>, \<^verbatim>\<open>query\<close> and \<^verbatim>\<open>queryRow\<close> only matter for a receiver without a context, which both
  variants refuse alike; with a context they start a worker.\<close>

fun invoke_db :: "('k, 'd, 'z, 'n) host \<Rightarrow> db_fn \<Rightarrow> nat \<Rightarrow> js_args \<Rightarrow> 'd heap \<Rightarrow> (js_return, 'd heap) result" where
  "invoke_db env Db_prepare = prepare (host_db env)"
| "invoke_db env Db_reset = reset (host_db env)"
| "invoke_db env Db_execSync = execSync (host_db env)"
| "invoke_db env Db_querySync = querySync (host_db env)"
| "invoke_db env Db_queryRowSync = queryRowSync (host_db env)"
| "invoke_db env Db_close = close (host_db env)"
| "invoke_db env Db_next = next_row (host_db env)"
| "invoke_db env Db_fetch = fetch (host_db env)"
| "invoke_db env Db_bind = bind (host_db env)"
| "invoke_db env Db_exec = execSync (host_db env)"
| "invoke_db env Db_query = querySync (host_db env)"
| "invoke_db env Db_queryRow = queryRowSync (host_db env)"

fun db_start :: "db_job \<Rightarrow> nat \<Rightarrow> 'd heap \<Rightarrow> js_args \<Rightarrow> pool \<Rightarrow> (nat \<times> nat, pool) result" where
  "db_start Job_exec = exec_start"
| "db_start Job_query = query_start"
| "db_start Job_queryRow = queryRow_start"

fun invoke_fetch :: "('k, 'd, 'z, 'n) host \<Rightarrow> fetch_fn \<Rightarrow> nat \<Rightarrow> http_response heap \<Rightarrow> (js_return, http_response heap) result" where
  "invoke_fetch env Fetch_status = fetch_status"
| "invoke_fetch env Fetch_text = fetch_text (kMaxLength (host_iis env))"
| "invoke_fetch env Fetch_blob = fetch_blob"
| "invoke_fetch env Fetch_headers = fetch_headers"

fun invoke_response :: "('k, 'd, 'z, 'n) host \<Rightarrow> response_fn \<Rightarrow> http_function" where
  "invoke_response env Rs_clear = response_clear"
| "invoke_response env Rs_clearHeaders = response_clearHeaders"
| "invoke_response env Rs_closeConnection = response_closeConnection"
| "invoke_response env Rs_disableBuffering = response_disableBuffering"
| "invoke_response env Rs_setNeedDisconnect = response_setNeedDisconnect"
| "invoke_response env Rs_getKernelCacheEnabled = response_getKernelCacheEnabled (host_iis env)"
| "invoke_response env Rs_resetConnection = response_resetConnection"
| "invoke_response env Rs_getStatus = response_getStatus (host_iis env)"
| "invoke_response env Rs_setStatus = response_setStatus (host_iis env)"
| "invoke_response env Rs_redirect = response_redirect (host_iis env)"
| "invoke_response env Rs_setErrorDescription = response_setErrorDescription (host_iis env)"
| "invoke_response env Rs_disableKernelCache = response_disableKernelCache (host_iis env)"
| "invoke_response env Rs_deleteHeader = response_deleteHeader (host_iis env)"
| "invoke_response env Rs_getHeader = response_getHeader (host_iis env)"
| "invoke_response env Rs_read = response_read (host_iis env) (host_memory env)"
| "invoke_response env Rs_write = response_write (host_iis env) (host_slot env)"
| "invoke_response env Rs_setHeader = response_setHeader (host_iis env)"

fun invoke_request :: "('k, 'd, 'z, 'n) host \<Rightarrow> request_fn \<Rightarrow> js_args \<Rightarrow> http \<Rightarrow> (js_return, http) result option" where
  "invoke_request env Rq_read args s = request_read (host_iis env) args s"
| "invoke_request env Rq_setUrl args s = Some (request_setUrl (host_iis env) args s)"
| "invoke_request env Rq_deleteHeader args s = Some (request_deleteHeader (host_iis env) args s)"
| "invoke_request env Rq_setHeader args s = Some (request_setHeader (host_iis env) args s)"
| "invoke_request env Rq_getMethod args s = Some (request_getMethod (host_iis env) args s)"
| "invoke_request env Rq_getAbsPath args s = Some (request_getAbsPath (host_iis env) args s)"
| "invoke_request env Rq_getFullUrl args s = Some (request_getFullUrl (host_iis env) args s)"
| "invoke_request env Rq_getQueryString args s = Some (request_getQueryString (host_iis env) args s)"
| "invoke_request env Rq_getPath args s = Some (request_getPath (host_iis env) args s)"
| "invoke_request env Rq_getHost args s = Some (request_getHost (host_iis env) args s)"
| "invoke_request env Rq_getLocalAddress args s = Some (request_getLocalAddress (host_iis env) args s)"
| "invoke_request env Rq_getRemoteAddress args s = Some (request_getRemoteAddress (host_iis env) args s)"
| "invoke_request env Rq_getHeader args s = Some (request_getHeader (host_iis env) args s)"

text \<open>The asynchronous functions return their promise and leave a worker behind.\<close>

definition start_job ::
    "('j \<Rightarrow> job) \<Rightarrow> (nat \<times> 'j, pool) result \<Rightarrow> ('k, 'd, 'n) world \<Rightarrow> (js_return, ('k, 'd, 'n) world) result" where
  "start_job mk r w =
     (case r of
        (Return (i, j), p) \<Rightarrow>
          (Return (RPromise i), w\<lparr>threads := p, busy := busy w @ [(i, mk j)]\<rparr>)
      | (Throw msg, p) \<Rightarrow> (Throw msg, w\<lparr>threads := p\<rparr>)
      | (Block, p) \<Rightarrow> (Block, w\<lparr>threads := p\<rparr>)
      | (Crash, p) \<Rightarrow> (Crash, w\<lparr>threads := p\<rparr>))"

fun invoke_async :: "('k, 'd, 'z, 'n) host \<Rightarrow> async_fn \<Rightarrow> js_args \<Rightarrow> ('k, 'd, 'n) world \<Rightarrow> (js_return, ('k, 'd, 'n) world) result" where
  "invoke_async env Http_fetch args w = start_job FetchJob (fetch_start (host_objects env) args (threads w)) w"
| "invoke_async env Gzip_compress args w = start_job CompressJob (gzip_compress_start args (threads w)) w"
| "invoke_async env Gzip_decompress args w = start_job DecompressJob (gzip_decompress_start args (threads w)) w"
| "invoke_async env Bcrypt_hash args w = start_job HashJob (bcrypt_hash_start args (threads w)) w"
| "invoke_async env Bcrypt_check args w = start_job CheckJob (bcrypt_check_start args (threads w)) w"

text \<open>Calling a function of the namespace or of an object; \<open>None\<close> is a call that does not return.\<close>

fun invoke ::
    "('k, 'd, 'z, 'n) host \<Rightarrow> api_function \<Rightarrow> receiver \<Rightarrow> js_args \<Rightarrow> ('k, 'd, 'n) world
       \<Rightarrow> (js_return, ('k, 'd, 'n) world) result option" where
  "invoke env (Shell f) this args w =
     map_option (\<lambda>(r, e). (r, w\<lparr>shell_engine := e\<rparr>)) (invoke_shell env f args (shell_engine w))"
| "invoke env (Fs f) this args w = Some (invoke_fs env f args w)"
| "invoke env (Async f) this args w = Some (invoke_async env f args w)"
| "invoke env Ipc_init this args w =
     (case ipc_init (host_kv env) args (stores w) of (r, s) \<Rightarrow> Some (r, w\<lparr>stores := s\<rparr>))"
| "invoke env Db_init this args w =
     (case db_init (host_db env) args (databases w) of (r, h) \<Rightarrow> Some (r, w\<lparr>databases := h\<rparr>))"
| "invoke env (Ipc f) this args w =
     (case this of
        Ipc_Object i \<Rightarrow> (case invoke_ipc env f i args (stores w) of (r, s) \<Rightarrow> Some (r, w\<lparr>stores := s\<rparr>))
      | _ \<Rightarrow> Some (foreign this (fst (invoke_ipc env f 0 args ((stores w)\<lparr>ipc_objects := empty_heap\<rparr>))) w))"
| "invoke env (Db f) this args w =
     (case this of
        Db_Object i \<Rightarrow>
          (case db_async f of
             Some j \<Rightarrow> Some (start_job (DbJob j) (db_start j i (databases w) args (threads w)) w)
           | None \<Rightarrow> (case invoke_db env f i args (databases w) of (r, h) \<Rightarrow> Some (r, w\<lparr>databases := h\<rparr>)))
      | _ \<Rightarrow> Some (foreign this (fst (invoke_db env f 0 args empty_heap)) w))"
| "invoke env (FetchFn f) this args w =
     (case this of
        Fetch_Object i \<Rightarrow> (case invoke_fetch env f i (responses w) of (r, h) \<Rightarrow> Some (r, w\<lparr>responses := h\<rparr>))
      | _ \<Rightarrow> Some (foreign this (fst (invoke_fetch env f 0 empty_heap)) w))"
| "invoke env (Response f) this args w =
     (case this of
        Http_Object c \<Rightarrow>
          (case invoke_response env f args (contexts w c) of
             (r, s) \<Rightarrow> Some (r, w\<lparr>contexts := (contexts w)(c := s)\<rparr>))
      | _ \<Rightarrow> Some (foreign this
               (fst (invoke_response env f args \<lparr>http_context = NullContext, calls = []\<rparr>)) w))"
| "invoke env (Request f) this args w =
     (case this of
        Http_Object c \<Rightarrow>
          map_option (\<lambda>(r, s). (r, w\<lparr>contexts := (contexts w)(c := s)\<rparr>))
            (invoke_request env f args (contexts w c))
      | _ \<Rightarrow> map_option (\<lambda>(r, _). foreign this r w)
               (invoke_request env f args \<lparr>http_context = NullContext, calls = []\<rparr>))"

section \<open>Workers\<close>

text \<open>The work of a thread before it frees its slot; \<open>None\<close> is a thread that does not get there, because
  it never ends or because the process is terminated.\<close>

fun db_work :: "('k, 'd, 'z, 'n) host \<Rightarrow> db_job \<Rightarrow> nat \<Rightarrow> 'd heap \<Rightarrow> (settlement \<times> 'd heap) option" where
  "db_work env Job_exec = exec_outcome (host_db env)"
| "db_work env Job_query = query_outcome (host_db env)"
| "db_work env Job_queryRow = queryRow_outcome (host_db env)"

fun do_work :: "('k, 'd, 'z, 'n) host \<Rightarrow> job \<Rightarrow> ('k, 'd, 'n) world \<Rightarrow> (ending \<times> ('k, 'd, 'n) world) option" where
  "do_work env (FetchJob req) w =
     (case call_client (host_network env) (host_ssl_valid env) (host_max_size env) req (net_state w) of
        Some (Return response, n) \<Rightarrow>
          Some (Answer (map_option (to_response (host_capacities env)) response), w\<lparr>net_state := n\<rparr>)
      | _ \<Rightarrow> None)"
| "do_work env (CompressJob j) w =
     map_option (\<lambda>st. (Settle st, w)) (compress_settlement (host_zlib env) j)"
| "do_work env (DecompressJob j) w =
     map_option (\<lambda>st. (Settle st, w)) (decompress_settlement (host_zlib env) j)"
| "do_work env (HashJob j) w = Some (Settle (hash_settlement (host_bcrypt env) (host_random env) j), w)"
| "do_work env (CheckJob j) w = Some (Settle (check_settlement (host_bcrypt env) j), w)"
| "do_work env (DbJob j this) w =
     map_option (\<lambda>(st, h). (Settle st, w\<lparr>databases := h\<rparr>)) (db_work env j this (databases w))"

definition drop_key :: "nat \<Rightarrow> (nat \<times> 'a) list \<Rightarrow> (nat \<times> 'a) list" where
  "drop_key i xs = filter (\<lambda>x. fst x \<noteq> i) xs"

definition worker_done :: "('k, 'd, 'z, 'n) host \<Rightarrow> nat \<Rightarrow> ('k, 'd, 'n) world \<Rightarrow> ('k, 'd, 'n) world option" where
  "worker_done env i w =
     Option.bind (map_of (busy w) i) (\<lambda>job.
       map_option (\<lambda>(fin, w1).
           w1\<lparr>threads := release_slot (threads w1), busy := drop_key i (busy w1),
              ending := ending w1 @ [(i, fin)]\<rparr>)
         (do_work env job w))"

definition worker_settles :: "nat \<Rightarrow> ('k, 'd, 'n) world \<Rightarrow> ('k, 'd, 'n) world option" where
  "worker_settles i w =
     map_option (\<lambda>fin.
       let w1 = w\<lparr>ending := drop_key i (ending w)\<rparr>
       in case fin of
            Settle st \<Rightarrow> w1\<lparr>threads := settle i st (threads w1)\<rparr>
          | Answer response \<Rightarrow>
              (case fetch_answer response (responses w1) of
                 (st, h) \<Rightarrow> w1\<lparr>responses := h, threads := settle i st (threads w1)\<rparr>))
      (map_of (ending w) i)"

section \<open>The transition system\<close>

datatype rt_event =
    Call api_function receiver js_args
  | Worker_Done nat
  | Worker_Settles nat
  | Collect_Ipc nat
  | Collect_Db nat
  | Collect_Fetch nat
  | Request_Begins nat http
  | Request_Ends nat

text \<open>A call that crashes ends the process.\<close>

fun rt_step :: "('k, 'd, 'z, 'n) host \<Rightarrow> rt_event \<Rightarrow> ('k, 'd, 'n) world \<Rightarrow> ('k, 'd, 'n) world option" where
  "rt_step env (Call f this args) w =
     (case invoke env f this args w of
        None \<Rightarrow> None
      | Some (r, w') \<Rightarrow> if r = Crash then None else Some w')"
| "rt_step env (Worker_Done i) w = worker_done env i w"
| "rt_step env (Worker_Settles i) w = worker_settles i w"
| "rt_step env (Collect_Ipc i) w = Some (w\<lparr>stores := ipc_collected (host_kv env) i (stores w)\<rparr>)"
| "rt_step env (Collect_Db i) w =
     Some (w\<lparr>databases := collect (\<lambda>_. sizeof_DbContext (host_db env)) i (databases w)\<rparr>)"
| "rt_step env (Collect_Fetch i) w = Some (w\<lparr>responses := collect capacity i (responses w)\<rparr>)"
| "rt_step env (Request_Begins c s) w = Some (w\<lparr>contexts := (contexts w)(c := s)\<rparr>)"
| "rt_step env (Request_Ends c) w =
     Some (w\<lparr>contexts := (contexts w)(c := (contexts w c)\<lparr>http_context := Freed\<rparr>)\<rparr>)"

primrec rt_run :: "('k, 'd, 'z, 'n) host \<Rightarrow> rt_event list \<Rightarrow> ('k, 'd, 'n) world \<Rightarrow> ('k, 'd, 'n) world option" where
  "rt_run env [] w = Some w"
| "rt_run env (ev # evs) w = Option.bind (rt_step env ev w) (rt_run env evs)"

text \<open>A module that was just loaded: no objects, no workers.\<close>

definition rt_initial :: "engine \<Rightarrow> 'k \<Rightarrow> 'n \<Rightarrow> ('k, 'd, 'n) world" where
  "rt_initial e k n =
     \<lparr>shell_engine = e, files = empty_fs, stores = \<lparr>kernel = k, ipc_objects = empty_heap\<rparr>,
      databases = empty_heap, responses = empty_heap,
      contexts = (\<lambda>_. \<lparr>http_context = NullContext, calls = []\<rparr>), net_state = n,
      threads = empty_pool, busy = [], ending = []\<rparr>"

inductive rt_reachable :: "('k, 'd, 'z, 'n) host \<Rightarrow> ('k, 'd, 'n) world \<Rightarrow> bool" for env where
  initial: "rt_reachable env (rt_initial e k n)"
| stepped: "rt_reachable env w \<Longrightarrow> rt_step env ev w = Some w' \<Longrightarrow> rt_reachable env w'"

section \<open>The invariant\<close>

text \<open>Workers and promises: one slot per working thread, and one thread per pending promise.\<close>

definition workers_ok :: "('k, 'd, 'n) world \<Rightarrow> bool" where
  "workers_ok w \<longleftrightarrow>
     pool_ok (threads w)
     \<and> thread_count (threads w) = int (length (busy w))
     \<and> distinct (map fst (busy w) @ map fst (ending w))
     \<and> {i. promises (threads w) i = Some Pending} = fst ` set (busy w) \<union> fst ` set (ending w)
     \<and> (\<forall>i. (i, Settle Pending) \<notin> set (ending w))"

definition memory_ok :: "('k, 'd, 'z, 'n) host \<Rightarrow> ('k, 'd, 'n) world \<Rightarrow> bool" where
  "memory_ok env w \<longleftrightarrow>
     heap_ok (\<lambda>_. sizeof_IPC_KV (host_kv env)) (ipc_objects (stores w))
     \<and> heap_ok (\<lambda>_. sizeof_DbContext (host_db env)) (databases w)
     \<and> heap_ok capacity (responses w)"

text \<open>What concerns workers, and what concerns memory, in a state.\<close>

definition same_workers :: "('k, 'd, 'n) world \<Rightarrow> ('k, 'd, 'n) world \<Rightarrow> bool" where
  "same_workers w w' \<longleftrightarrow> threads w' = threads w \<and> busy w' = busy w \<and> ending w' = ending w"

lemma workers_ok_same: "same_workers w w' \<Longrightarrow> workers_ok w \<Longrightarrow> workers_ok w'"
  by (simp add: same_workers_def workers_ok_def)

lemma workers_ok_pending:
  "workers_ok w \<Longrightarrow> promises (threads w) i = Some Pending \<longleftrightarrow> i \<in> fst ` set (busy w) \<union> fst ` set (ending w)"
  by (auto simp: workers_ok_def set_eq_iff)

text \<open>A result that either starts a job in the pool or leaves the pool alone.\<close>

definition starts_in :: "pool \<Rightarrow> (nat \<times> 'j, pool) result \<Rightarrow> bool" where
  "starts_in p r \<longleftrightarrow>
     (case r of (Return (i, _), p') \<Rightarrow> begin_async p = (Return i, p') | (_, p') \<Rightarrow> p' = p)"

context async_callback
begin

lemma start_starts_in: "starts_in p (start args p)"
  using starts [of args p] refuses [of args p] unfolding starts_in_def
  by (cases "start args p"; cases "fst (start args p)") fastforce+

end

lemma start_job_cases:
  assumes "starts_in (threads w) r" and "start_job mk r w = (out, w')"
  obtains (started) i j p where "begin_async (threads w) = (Return i, p)" "out = Return (RPromise i)"
      "w' = w\<lparr>threads := p, busy := busy w @ [(i, mk j)]\<rparr>"
    | (refused) "w' = w"
proof -
  obtain a p where r: "r = (a, p)" by fastforce
  show thesis
  proof (cases a)
    case (Return x)
    with assms r show thesis
      by (cases x) (auto simp: starts_in_def start_job_def intro: started)
  qed (use assms r in \<open>auto simp: starts_in_def start_job_def intro: refused\<close>)
qed

lemma begin_async_promises:
  "begin_async p = (Return i, p') \<Longrightarrow> pool_ok p \<Longrightarrow>
     promises p' = (promises p)(i \<mapsto> Pending) \<and> promises p i = None"
  by (auto simp: begin_async_def pool_ok_def split: if_splits)

lemma start_job_ok:
  assumes "workers_ok w" and "starts_in (threads w) r" and "start_job mk r w = (out, w')"
  shows "workers_ok w'"
  using assms(2,3)
proof (cases rule: start_job_cases)
  case (started i j p)
  have pool: "pool_ok (threads w)" using assms(1) by (simp add: workers_ok_def)
  from begin_async_ok [OF pool started(1)] begin_async_promises [OF started(1) pool]
  have p: "pool_ok p" "thread_count p = thread_count (threads w) + 1" "promises (threads w) i = None"
    "promises p = (promises (threads w))(i \<mapsto> Pending)" by auto
  then have "i \<notin> fst ` set (busy w) \<union> fst ` set (ending w)"
    using workers_ok_pending [OF assms(1), of i] by simp
  moreover have "{k. promises p k = Some Pending} = insert i {k. promises (threads w) k = Some Pending}"
    using p(3,4) by auto
  ultimately show ?thesis using assms(1) p started(3) by (auto simp: workers_ok_def)
qed (simp add: assms(1))

lemma db_start_starts_in: "starts_in p (db_start j this h args p)"
  by (cases j)
     (simp_all add: exec_start_def query_start_def queryRow_start_def db_async.start_starts_in)

lemma invoke_async_ok:
  "workers_ok w \<Longrightarrow> invoke_async env f args w = (out, w') \<Longrightarrow> workers_ok w'"
  by (cases f)
     (auto elim!: start_job_ok [rotated 2]
       intro: fetch.start_starts_in gzip_compress.start_starts_in gzip_decompress.start_starts_in
         bcrypt_hash.start_starts_in bcrypt_check.start_starts_in)

text \<open>Calls that start no job.\<close>

fun starts_job :: "api_function \<Rightarrow> bool" where
  "starts_job (Async _) = True"
| "starts_job (Db f) = (db_async f \<noteq> None)"
| "starts_job _ = False"

lemma invoke_same_workers:
  "\<not> starts_job f \<Longrightarrow> invoke env f this args w = Some (r, w') \<Longrightarrow> same_workers w w'"
proof (cases f)
  case (Fs x)
  then show "invoke env f this args w = Some (r, w') \<Longrightarrow> same_workers w w'"
    by (cases x) (auto simp: same_workers_def split: prod.splits)
qed (auto simp: same_workers_def foreign_def split: prod.splits receiver.splits if_splits)

lemma invoke_ok:
  assumes "workers_ok w" and "invoke env f this args w = Some (r, w')"
  shows "workers_ok w'"
proof (cases "starts_job f")
  case True
  then show ?thesis
  proof (cases f)
    case (Async g)
    with assms show ?thesis by (auto intro: invoke_async_ok)
  next
    case (Db g)
    with True obtain j where j: "db_async g = Some j" by auto
    show ?thesis
    proof (cases this)
      case (Db_Object i)
      with assms(2) Db j have "start_job (DbJob j) (db_start j i (databases w) args (threads w)) w = (r, w')"
        by simp
      with assms(1) db_start_starts_in show ?thesis by (blast intro: start_job_ok)
    qed (use assms Db in \<open>auto simp: foreign_def split: if_splits\<close>)
  qed auto
qed (use assms invoke_same_workers workers_ok_same in blast)

lemma do_work_same_workers: "do_work env job w = Some (fin, w') \<Longrightarrow> same_workers w w'"
  by (cases job) (auto simp: same_workers_def split: option.splits outcome.splits prod.splits)

lemma settlements_not_pending:
  "compress_settlement z j1 = Some st \<Longrightarrow> st \<noteq> Pending"
  "decompress_settlement z j2 = Some st \<Longrightarrow> st \<noteq> Pending"
  "hash_settlement lib rand j3 \<noteq> Pending"
  "check_settlement lib j4 \<noteq> Pending"
  "db_work env j this h = Some (st, h') \<Longrightarrow> st \<noteq> Pending"
  "fetch_answer response hp = (st, hp') \<Longrightarrow> st \<noteq> Pending"
  by (auto simp: compress_settlement_def decompress_settlement_def hash_settlement_def check_settlement_def
      exec_outcome_def query_outcome_def queryRow_outcome_def db_outcome_def fetch_answer_def Let_def
      split: option.splits decompressed.splits if_splits prod.splits)
     (cases j; auto simp: exec_outcome_def query_outcome_def queryRow_outcome_def db_outcome_def Let_def
      split: option.splits if_splits prod.splits)

lemma do_work_not_pending: "do_work env job w = Some (fin, w') \<Longrightarrow> fin \<noteq> Settle Pending"
  by (cases job) (auto simp: settlements_not_pending(3,4) split: option.splits outcome.splits prod.splits
      dest: settlements_not_pending(1,2,5))

lemma drop_key_keys: "fst ` set (drop_key i xs) = fst ` set xs - {i}"
  by (auto simp: drop_key_def)

lemma drop_key_distinct: "distinct (map fst xs) \<Longrightarrow> distinct (map fst (drop_key i xs))"
  by (simp add: drop_key_def distinct_map_filter)

lemma length_drop_key:
  assumes "distinct (map fst xs)" and "i \<in> fst ` set xs"
  shows "length xs = Suc (length (drop_key i xs))"
proof -
  have "length (map fst xs) = card (fst ` set xs)" using assms(1) by (metis distinct_card list.set_map)
  moreover have "length (map fst (drop_key i xs)) = card (fst ` set (drop_key i xs))"
    using drop_key_distinct [OF assms(1)] by (metis distinct_card list.set_map)
  moreover have "card (fst ` set xs) > 0" using assms(2) by (auto simp: card_gt_0_iff)
  ultimately show ?thesis using assms(2) by (simp add: drop_key_keys)
qed

lemma worker_done_ok:
  assumes ok: "workers_ok w" and "worker_done env i w = Some w'"
  shows "workers_ok w'"
proof -
  from assms(2) obtain job fin w1 where job: "map_of (busy w) i = Some job"
    "do_work env job w = Some (fin, w1)"
    "w' = w1\<lparr>threads := release_slot (threads w1), busy := drop_key i (busy w1), ending := ending w1 @ [(i, fin)]\<rparr>"
    by (auto simp: worker_done_def bind_eq_Some_conv)
  have same: "threads w1 = threads w" "busy w1 = busy w" "ending w1 = ending w"
    using do_work_same_workers [OF job(2)] by (auto simp: same_workers_def)
  have i: "i \<in> fst ` set (busy w)" using map_of_SomeD [OF job(1)] by force
  with ok have "i \<notin> fst ` set (ending w)" by (auto simp: workers_ok_def)
  then show ?thesis
    using ok i do_work_not_pending [OF job(2)] length_drop_key [OF _ i]
    by (auto simp: workers_ok_def job(3) same drop_key_keys drop_key_distinct release_slot_def slot_freed_def
        pool_ok_def)
qed

lemma pool_ok_settle: "pool_ok p \<Longrightarrow> pool_ok (settle i st p)"
  by (auto simp: settle_def pool_ok_def)

lemma worker_settles_cases:
  assumes "worker_settles i w = Some w'"
  obtains fin st where "map_of (ending w) i = Some fin" "fin \<noteq> Settle Pending \<longrightarrow> st \<noteq> Pending"
    "threads w' = settle i st (threads w)" "busy w' = busy w" "ending w' = drop_key i (ending w)"
proof -
  from assms obtain fin where fin: "map_of (ending w) i = Some fin"
    by (auto simp: worker_settles_def)
  show thesis
  proof (cases fin)
    case (Settle st)
    with that [OF fin, of st] assms fin show thesis by (auto simp: worker_settles_def)
  next
    case (Answer response)
    obtain st h where "fetch_answer response (responses w) = (st, h)" by fastforce
    with that [OF fin, of st] Answer assms fin settlements_not_pending(6) show thesis
      by (auto simp: worker_settles_def)
  qed
qed

lemma worker_settles_ok:
  assumes ok: "workers_ok w" and "worker_settles i w = Some w'"
  shows "workers_ok w'"
proof -
  from assms(2) obtain fin st where fin: "map_of (ending w) i = Some fin"
    and st': "fin \<noteq> Settle Pending \<longrightarrow> st \<noteq> Pending" "threads w' = settle i st (threads w)"
    "busy w' = busy w" "ending w' = drop_key i (ending w)" by (rule worker_settles_cases)
  from ok fin have "fin \<noteq> Settle Pending" by (auto simp: workers_ok_def dest: map_of_SomeD)
  note st = st'(1) [THEN mp, OF this] st'(2-4)
  have i: "i \<in> fst ` set (ending w)" using map_of_SomeD [OF fin] by force
  with ok have "i \<notin> fst ` set (busy w)" by (auto simp: workers_ok_def)
  moreover have "promises (threads w') = (promises (threads w))(i \<mapsto> st)"
    "thread_count (threads w') = thread_count (threads w)" "next_promise (threads w') = next_promise (threads w)"
    using workers_ok_pending [OF ok, of i] i st(2) by (auto simp: settle_def)
  moreover have "{k. ((promises (threads w))(i \<mapsto> st)) k = Some Pending}
      = {k. promises (threads w) k = Some Pending} - {i}"
    using st(1) by auto
  moreover have "(k, Settle Pending) \<notin> set (drop_key i (ending w))" for k
    using ok by (simp add: workers_ok_def drop_key_def)
  moreover have "pool_ok (threads w')"
    using ok st(2) by (simp add: workers_ok_def pool_ok_settle)
  ultimately show ?thesis
    using ok st by (auto simp: workers_ok_def drop_key_keys drop_key_distinct)
qed

lemma rt_step_workers_ok:
  assumes "workers_ok w" and "rt_step env ev w = Some w'"
  shows "workers_ok w'"
proof (cases ev)
  case (Call f this args)
  with assms(2) obtain r where "invoke env f this args w = Some (r, w')"
    by (auto split: option.splits if_splits)
  with assms(1) show ?thesis by (rule invoke_ok)
next
  case (Worker_Done i)
  with assms show ?thesis by (auto intro: worker_done_ok)
next
  case (Worker_Settles i)
  with assms show ?thesis by (auto intro: worker_settles_ok)
qed (use assms in \<open>auto simp: same_workers_def intro: workers_ok_same [of w]\<close>)

text \<open>Memory.\<close>

definition same_memory :: "('k, 'd, 'n) world \<Rightarrow> ('k, 'd, 'n) world \<Rightarrow> bool" where
  "same_memory w w' \<longleftrightarrow> stores w' = stores w \<and> databases w' = databases w \<and> responses w' = responses w"

lemma memory_ok_same: "same_memory w w' \<Longrightarrow> memory_ok env w \<Longrightarrow> memory_ok env w'"
  by (simp add: same_memory_def memory_ok_def)

lemma start_job_same_memory: "start_job mk r w = (out, w') \<Longrightarrow> same_memory w w'"
  by (auto simp: start_job_def same_memory_def split: prod.splits outcome.splits)

lemma invoke_async_same_memory: "invoke_async env f args w = (out, w') \<Longrightarrow> same_memory w w'"
  by (cases f) (auto elim: start_job_same_memory)

lemma invoke_fs_same_memory: "invoke_fs env f args w = (out, w') \<Longrightarrow> same_memory w w'"
  by (cases f) (auto simp: same_memory_def split: prod.splits)

lemma foreign_same: "foreign this refused w = (out, w') \<Longrightarrow> w' = w"
  by (auto simp: foreign_def split: if_splits)

lemma ipc_init_ok:
  assumes "heap_ok (\<lambda>_. sizeof_IPC_KV api) (ipc_objects s)"
  shows "heap_ok (\<lambda>_. sizeof_IPC_KV api) (ipc_objects (snd (ipc_init api args s)))"
  using assms heap_ok_new [OF assms]
  by (auto simp: ipc_init_def or_throw_def Let_def case_prod_beta split: sum.split)

lemma invoke_ipc_ok:
  assumes "heap_ok c (ipc_objects s)"
  shows "heap_ok c (ipc_objects (snd (invoke_ipc env f this args s)))"
  using assms heap_ok_clear [OF assms]
  by (cases f)
     (auto simp: ipc_set_def ipc_get_def ipc_close_def or_throw_def Let_def case_prod_beta
       split: sum.split option.split)

lemma db_init_ok:
  assumes "heap_ok (\<lambda>_. sizeof_DbContext db) h"
  shows "heap_ok (\<lambda>_. sizeof_DbContext db) (snd (db_init db args h))"
  using assms heap_ok_new [OF assms]
  by (auto simp: db_init_def or_throw_def Let_def case_prod_beta split: sum.split)

lemma invoke_db_same_objects: "same_objects h (snd (invoke_db env f this args h))"
  by (cases f) (simp_all add: db_functions_same_objects)

lemma invoke_fetch_heap: "snd (invoke_fetch env f this h) = h"
  by (cases f) (auto simp: fetch_status_def fetch_text_def fetch_blob_def fetch_headers_def split: option.split)

lemma db_work_same_objects: "db_work env j this h = Some (st, h') \<Longrightarrow> same_objects h h'"
  by (cases j)
     (auto simp: exec_outcome_def query_outcome_def queryRow_outcome_def intro: db_outcome_same_objects)

lemma fetch_answer_ok:
  assumes "heap_ok capacity h"
  shows "heap_ok capacity (snd (fetch_answer response h))"
  using assms heap_ok_new [OF assms] by (auto simp: fetch_answer_def Let_def case_prod_beta split: option.split)

lemma invoke_memory_ok:
  assumes ok: "memory_ok env w" and step: "invoke env f this args w = Some (r, w')"
  shows "memory_ok env w'"
proof (cases f)
  case (Async g)
  with step ok show ?thesis by (auto intro: memory_ok_same [OF invoke_async_same_memory])
next
  case (Fs g)
  with step ok show ?thesis by (auto intro: memory_ok_same [OF invoke_fs_same_memory])
next
  case Ipc_init
  with step ok ipc_init_ok [of "host_kv env" "stores w" args] show ?thesis
    by (auto simp: memory_ok_def split: prod.splits)
next
  case Db_init
  with step ok db_init_ok [of "host_db env" "databases w" args] show ?thesis
    by (auto simp: memory_ok_def split: prod.splits)
next
  case (Ipc g)
  with step ok invoke_ipc_ok [of _ "stores w" env g _ args] show ?thesis
    by (auto simp: memory_ok_def split: prod.splits receiver.splits dest: foreign_same) (metis snd_conv)
next
  case (Db g)
  show ?thesis
  proof (cases this)
    case (Db_Object i)
    show ?thesis
    proof (cases "db_async g")
      case None
      with step Db Db_Object obtain h where
        h: "invoke_db env g i args (databases w) = (r, h)" "w' = w\<lparr>databases := h\<rparr>"
        by (auto split: prod.splits)
      with invoke_db_same_objects [of "databases w" env g i args] ok show ?thesis
        by (auto simp: memory_ok_def intro: heap_ok_same_objects)
    next
      case (Some j)
      with step Db Db_Object show ?thesis by (auto intro: memory_ok_same [OF start_job_same_memory ok])
    qed
  qed (use step Db ok in \<open>auto dest: foreign_same\<close>)
next
  case (FetchFn g)
  with step ok invoke_fetch_heap [of env g _ "responses w"] show ?thesis
    by (auto simp: memory_ok_def split: prod.splits receiver.splits dest: foreign_same) (metis snd_conv)
qed (use step ok in \<open>auto simp: memory_ok_def split: prod.splits receiver.splits dest: foreign_same\<close>)

lemma worker_done_memory_ok:
  assumes ok: "memory_ok env w" and "worker_done env i w = Some w'"
  shows "memory_ok env w'"
proof -
  from assms(2) obtain job fin w1 where job: "do_work env job w = Some (fin, w1)"
    and same: "stores w' = stores w1" "databases w' = databases w1" "responses w' = responses w1"
    by (auto simp: worker_done_def bind_eq_Some_conv)
  have "stores w1 = stores w \<and> responses w1 = responses w \<and> same_objects (databases w) (databases w1)"
    using job by (cases job) (auto split: option.splits outcome.splits prod.splits dest: db_work_same_objects)
  with ok same show ?thesis by (auto simp: memory_ok_def intro: heap_ok_same_objects)
qed

lemma worker_settles_memory_ok:
  assumes ok: "memory_ok env w" and "worker_settles i w = Some w'"
  shows "memory_ok env w'"
proof -
  from assms(2) obtain fin where fin: "map_of (ending w) i = Some fin" by (auto simp: worker_settles_def)
  show ?thesis
  proof (cases fin)
    case (Answer response)
    with assms fin fetch_answer_ok [of "responses w" response] show ?thesis
      by (auto simp: worker_settles_def memory_ok_def split: prod.splits)
  qed (use assms fin in \<open>auto simp: worker_settles_def memory_ok_def\<close>)
qed

lemma rt_step_memory_ok:
  assumes ok: "memory_ok env w" and step: "rt_step env ev w = Some w'"
  shows "memory_ok env w'"
proof (cases ev)
  case (Call f this args)
  with step obtain r where "invoke env f this args w = Some (r, w')"
    by (auto split: option.splits if_splits)
  with ok show ?thesis by (rule invoke_memory_ok)
next
  case (Worker_Done i)
  with ok step show ?thesis by (auto intro: worker_done_memory_ok)
next
  case (Worker_Settles i)
  with ok step show ?thesis by (auto intro: worker_settles_memory_ok)
qed (use ok step in \<open>auto simp: memory_ok_def ipc_collected_def intro: heap_ok_collect\<close>)

lemma rt_initial_ok: "workers_ok (rt_initial e k n)" "memory_ok env (rt_initial e k n)"
  by (simp_all add: rt_initial_def workers_ok_def memory_ok_def heap_ok_empty pool_ok_def empty_pool_def
      MAX_THREADS_def)

lemma rt_reachable_ok: "rt_reachable env w \<Longrightarrow> workers_ok w \<and> memory_ok env w"
  by (induction rule: rt_reachable.induct)
     (auto simp: rt_initial_ok intro: rt_step_workers_ok rt_step_memory_ok)

section \<open>Settled promises\<close>

lemma start_job_promises:
  assumes "pool_ok (threads w)" and "starts_in (threads w) r" and "start_job mk r w = (out, w')"
    and "promises (threads w) i = Some st"
  shows "promises (threads w') i = Some st"
  using assms(2,3)
proof (cases rule: start_job_cases)
  case (started k j p)
  with begin_async_promises [OF started(1) assms(1)] assms(4) show ?thesis by auto
qed (simp add: assms(4))

lemma invoke_promises:
  assumes ok: "pool_ok (threads w)" and step: "invoke env f this args w = Some (r, w')"
    and st: "promises (threads w) i = Some st"
  shows "promises (threads w') i = Some st"
proof (cases "starts_job f")
  case True
  then show ?thesis
  proof (cases f)
    case (Async g)
    with step have "invoke_async env g args w = (r, w')" by simp
    with ok st show ?thesis
      by (cases g)
         (auto elim!: start_job_promises [rotated 2]
           intro: fetch.start_starts_in gzip_compress.start_starts_in gzip_decompress.start_starts_in
             bcrypt_hash.start_starts_in bcrypt_check.start_starts_in)
  next
    case (Db g)
    with True obtain j where j: "db_async g = Some j" by auto
    show ?thesis
    proof (cases this)
      case (Db_Object k)
      with step Db j have "start_job (DbJob j) (db_start j k (databases w) args (threads w)) w = (r, w')"
        by simp
      with ok st db_start_starts_in show ?thesis by (blast intro: start_job_promises)
    qed (use step Db st in \<open>auto dest: foreign_same\<close>)
  qed auto
next
  case False
  with invoke_same_workers [OF False step] st show ?thesis by (simp add: same_workers_def)
qed

lemma settled_step:
  assumes ok: "pool_ok (threads w)" and step: "rt_step env ev w = Some w'"
    and st: "promises (threads w) i = Some st" "st \<noteq> Pending"
  shows "promises (threads w') i = Some st"
proof (cases ev)
  case (Call f this args)
  with step obtain r where "invoke env f this args w = Some (r, w')"
    by (auto split: option.splits if_splits)
  with ok st show ?thesis by (blast intro: invoke_promises)
next
  case (Worker_Done k)
  with step obtain job fin w1 where "do_work env job w = Some (fin, w1)"
    "threads w' = release_slot (threads w1)"
    by (auto simp: worker_done_def bind_eq_Some_conv)
  with st show ?thesis by (auto simp: release_slot_def same_workers_def dest: do_work_same_workers)
next
  case (Worker_Settles k)
  with step obtain st' where "threads w' = settle k st' (threads w)"
    by (auto elim: worker_settles_cases)
  with st show ?thesis by (auto simp: settle_def)
qed (use step st in auto)

lemma settled_run:
  assumes "workers_ok w" and "rt_run env evs w = Some w'"
    and "promises (threads w) i = Some st" and "st \<noteq> Pending"
  shows "promises (threads w') i = Some st"
  using assms
proof (induction evs arbitrary: w)
  case (Cons ev evs)
  from Cons.prems(2) obtain w1 where w1: "rt_step env ev w = Some w1" "rt_run env evs w1 = Some w'"
    by (auto simp: bind_eq_Some_conv)
  have "pool_ok (threads w)" using Cons.prems(1) by (simp add: workers_ok_def)
  with w1 Cons.prems show ?case
    by (intro Cons.IH [of w1]) (auto intro: rt_step_workers_ok settled_step)
qed simp

section \<open>Draining the workers\<close>

text \<open>A worker that ends: for a database job its context is still there, for the others the library
  calls return.\<close>

fun ends :: "('k, 'd, 'z, 'n) host \<Rightarrow> 'd heap \<Rightarrow> job \<Rightarrow> bool" where
  "ends env h (FetchJob req) \<longleftrightarrow>
     (\<forall>n. \<exists>response n'. call_client (host_network env) (host_ssl_valid env) (host_max_size env) req n
                        = Some (Return response, n'))"
| "ends env h (CompressJob j) \<longleftrightarrow> compress_settlement (host_zlib env) j \<noteq> None"
| "ends env h (DecompressJob j) \<longleftrightarrow> decompress_settlement (host_zlib env) j \<noteq> None"
| "ends env h (DbJob j this) \<longleftrightarrow> map_of (handlers h) this \<noteq> None"
| "ends env h _ \<longleftrightarrow> True"

lemma ends_same_objects: "same_objects h h' \<Longrightarrow> ends env h job \<Longrightarrow> ends env h' job"
  by (cases job) (auto simp: same_objects_alive)

lemma ends_do_work:
  assumes "ends env (databases w) job"
  obtains fin w1 where "do_work env job w = Some (fin, w1)" "same_objects (databases w) (databases w1)"
proof (cases job)
  case (FetchJob req)
  with assms obtain response n' where
    "call_client (host_network env) (host_ssl_valid env) (host_max_size env) req (net_state w)
       = Some (Return response, n')" by simp metis
  with FetchJob that show thesis by auto
next
  case (DbJob j this)
  have "\<exists>x. db_work env j this (databases w) = Some x"
    using assms DbJob by (cases j)
      (auto simp: exec_outcome_def query_outcome_def queryRow_outcome_def db_outcome_def Let_def split: prod.splits)
  then obtain st h where "db_work env j this (databases w) = Some (st, h)" by fastforce
  with DbJob that db_work_same_objects [OF this] show thesis by auto
qed (use assms that in auto)

lemma drop_key_head: "distinct (map fst ((i, x) # xs)) \<Longrightarrow> drop_key i ((i, x) # xs) = xs"
  by (auto simp: drop_key_def filter_id_conv)

lemma rt_run_append: "rt_run env (a @ b) w = Option.bind (rt_run env a w) (rt_run env b)"
  by (induction a arbitrary: w) (auto split: bind_split)

lemma drain_working:
  assumes "workers_ok w" and "list_all (\<lambda>x. ends env (databases w) (snd x)) (busy w)"
  shows "\<exists>w'. rt_run env (map (\<lambda>x. Worker_Done (fst x)) (busy w)) w = Some w' \<and> busy w' = []
         \<and> map fst (ending w') = map fst (ending w) @ map fst (busy w) \<and> workers_ok w'"
  using assms
proof (induction "busy w" arbitrary: w)
  case Nil
  then show ?case by auto
next
  case (Cons x xs)
  obtain i job where x: "x = (i, job)" by fastforce
  note busy = Cons.hyps(2) [symmetric]
  from Cons.prems(2) busy x have "ends env (databases w) job" by simp
  then obtain fin w1 where w1: "do_work env job w = Some (fin, w1)"
    "same_objects (databases w) (databases w1)" by (rule ends_do_work)
  have same: "threads w1 = threads w" "busy w1 = busy w" "ending w1 = ending w"
    using do_work_same_workers [OF w1(1)] by (auto simp: same_workers_def)
  have "distinct (map fst (busy w))" using Cons.prems(1) by (simp add: workers_ok_def)
  then have drop: "drop_key i (busy w) = xs" using busy x drop_key_head by metis
  let ?w = "w1\<lparr>threads := release_slot (threads w1), busy := xs, ending := ending w @ [(i, fin)]\<rparr>"
  have step: "worker_done env i w = Some ?w"
    using w1(1) busy x same drop by (simp add: worker_done_def)
  have "\<exists>w'. rt_run env (map (\<lambda>x. Worker_Done (fst x)) (busy ?w)) ?w = Some w' \<and> busy w' = []
         \<and> map fst (ending w') = map fst (ending ?w) @ map fst (busy ?w) \<and> workers_ok w'"
    using Cons.prems busy w1(2) worker_done_ok [OF Cons.prems(1) step]
    by (intro Cons.hyps(1)) (auto simp: list_all_iff intro: ends_same_objects)
  then show ?case using step busy x by auto
qed

lemma drain_ending:
  assumes "workers_ok w"
  shows "\<exists>w'. rt_run env (map (\<lambda>x. Worker_Settles (fst x)) (ending w)) w = Some w' \<and> busy w' = busy w
         \<and> ending w' = [] \<and> workers_ok w'"
  using assms
proof (induction "ending w" arbitrary: w)
  case Nil
  then show ?case by auto
next
  case (Cons x xs)
  obtain i fin where x: "x = (i, fin)" by fastforce
  note ends = Cons.hyps(2) [symmetric]
  have "distinct (map fst (ending w))" using Cons.prems(1) by (simp add: workers_ok_def)
  then have drop: "drop_key i (ending w) = xs" using ends x drop_key_head by metis
  obtain w1 where w1: "worker_settles i w = Some w1"
    using ends x by (auto simp: worker_settles_def)
  then have "ending w1 = xs" "busy w1 = busy w"
    using drop by (auto elim: worker_settles_cases)
  with Cons.hyps(1) [of w1] worker_settles_ok [OF Cons.prems w1] w1 ends x show ?case by auto
qed

section \<open>Receivers of the wrong kind\<close>

fun object_function :: "api_function \<Rightarrow> bool" where
  "object_function (Ipc _) = True"
| "object_function (Db _) = True"
| "object_function (FetchFn _) = True"
| "object_function (Response _) = True"
| "object_function (Request _) = True"
| "object_function _ = False"

fun expects :: "api_function \<Rightarrow> receiver \<Rightarrow> bool" where
  "expects (Ipc _) (Ipc_Object _) = True"
| "expects (Db _) (Db_Object _) = True"
| "expects (FetchFn _) (Fetch_Object _) = True"
| "expects (Response _) (Http_Object _) = True"
| "expects (Request _) (Http_Object _) = True"
| "expects _ _ = False"

lemma points_Null [simp]: "points x = Null_Pointer \<longleftrightarrow> x = None"
  by (cases x) (simp_all add: points_def)

lemma null_ipc: "internal_pointer i (ipc_objects s) = None \<Longrightarrow> \<exists>msg. invoke_ipc env f i args s = (Throw msg, s)"
  by (cases f) (simp_all add: ipc_set_def ipc_get_def ipc_close_def)

lemma null_db: "internal_pointer i h = None \<Longrightarrow> \<exists>msg. invoke_db env f i args h = (Throw msg, h)"
  by (cases f) (simp_all add: prepare_def reset_def execSync_def querySync_def queryRowSync_def close_def
      next_row_def fetch_def bind_def with_db_def)

lemma null_db_start:
  "internal_pointer i (databases w) = None \<Longrightarrow>
   \<exists>msg. start_job mk (db_start j i (databases w) args (threads w)) w = (Throw msg, w)"
  by (cases j) (simp_all add: exec_start_def query_start_def queryRow_start_def db_async_start_def start_job_def)

lemma null_fetch: "internal_pointer i h = None \<Longrightarrow> \<exists>msg. invoke_fetch env f i h = (Throw msg, h)"
  by (cases f) (simp_all add: fetch_status_def fetch_text_def fetch_blob_def fetch_headers_def)

lemma null_response:
  "http_context s = NullContext \<Longrightarrow> \<exists>msg. invoke_response env f args s = (Throw msg, s)"
  by (cases f)
     (simp_all add: response_clear_def response_clearHeaders_def response_closeConnection_def
       response_disableBuffering_def response_setNeedDisconnect_def response_getKernelCacheEnabled_def
       response_resetConnection_def response_getStatus_def response_setStatus_def response_redirect_def
       response_setErrorDescription_def response_disableKernelCache_def response_deleteHeader_def
       response_getHeader_def response_setHeader_def response_read_def response_write_def with_response_def)

lemma null_request:
  "http_context s = NullContext \<Longrightarrow> \<exists>msg. invoke_request env f args s = Some (Throw msg, s)"
  by (cases f)
     (simp_all add: request_read_def request_setUrl_def request_deleteHeader_def request_setHeader_def
       request_getMethod_def request_getAbsPath_def request_getFullUrl_def request_getQueryString_def
       request_getPath_def request_getHost_def request_getLocalAddress_def request_getRemoteAddress_def
       request_getHeader_def with_request_def)

lemma internal_pointer_empty [simp]: "internal_pointer i empty_heap = None"
  by (simp add: internal_pointer_def empty_heap_def)

lemma foreign_null: "pointer_of this w = Null_Pointer \<Longrightarrow> foreign this refused w = (refused, w)"
  by (simp add: foreign_def)

section \<open>Properties\<close>

lemma count_list_distinct: "distinct xs \<Longrightarrow> count_list xs x = (if x \<in> set xs then 1 else 0)"
  by (induction xs) auto

text \<open>C3. The invariant of the running module. In every state that calls of scripts, steps of workers and
  collections of objects can reach: the counter of threads is the number of workers that still
  hold a slot and at most 24, a promise is pending exactly as long as one worker, and only one, will
  settle it, and the external memory reported to V8 is the sum over the live objects of each kind.\<close>

theorem runtime_invariant:
  assumes "rt_reachable env w"
  shows "thread_count (threads w) = int (length (busy w)) \<and> length (busy w) \<le> 24
    \<and> (\<forall>i. count_list (map fst (busy w) @ map fst (ending w)) i
          = (if promises (threads w) i = Some Pending then 1 else 0))
    \<and> external_memory (ipc_objects (stores w))
        = sizeof_IPC_KV (host_kv env) * int (length (handlers (ipc_objects (stores w))))
    \<and> external_memory (databases w) = sizeof_DbContext (host_db env) * int (length (handlers (databases w)))
    \<and> external_memory (responses w) = sum_list (map (\<lambda>x. capacity (snd x)) (handlers (responses w)))"
proof -
  from rt_reachable_ok [OF assms] have ok: "workers_ok w" "memory_ok env w" by auto
  have "count_list (map fst (busy w) @ map fst (ending w)) i
      = (if promises (threads w) i = Some Pending then 1 else 0)" for i
    using ok(1) workers_ok_pending [OF ok(1), of i]
      count_list_distinct [of "map fst (busy w) @ map fst (ending w)" i]
    by (simp add: workers_ok_def del: count_list_append)
  moreover have "length (busy w) \<le> 24"
    using ok(1) by (auto simp: workers_ok_def pool_ok_def MAX_THREADS_def)
  ultimately show ?thesis
    using ok by (auto simp: workers_ok_def memory_ok_def heap_ok_def sum_list_triv)
qed


text \<open>C6. When the workers of a reachable state end, letting each finish its work and then each take
  the lock settles every promise and gives all slots back.\<close>

theorem all_promises_settled:
  assumes "rt_reachable env w" and "list_all (\<lambda>x. ends env (databases w) (snd x)) (busy w)"
  shows "\<exists>w1 w2. rt_run env (map (\<lambda>x. Worker_Done (fst x)) (busy w)) w = Some w1
    \<and> rt_run env (map (\<lambda>x. Worker_Settles (fst x)) (ending w1)) w1 = Some w2
    \<and> busy w2 = [] \<and> ending w2 = [] \<and> thread_count (threads w2) = 0
    \<and> (\<forall>i. promises (threads w2) i \<noteq> Some Pending)"
proof -
  from rt_reachable_ok [OF assms(1)] have "workers_ok w" by simp
  from drain_working [OF this assms(2)] obtain w1 where
    w1: "rt_run env (map (\<lambda>x. Worker_Done (fst x)) (busy w)) w = Some w1" "busy w1 = []" "workers_ok w1"
    by blast
  from drain_ending [OF w1(3)] obtain w2 where
    w2: "rt_run env (map (\<lambda>x. Worker_Settles (fst x)) (ending w1)) w1 = Some w2"
      "busy w2 = busy w1" "ending w2 = []" "workers_ok w2" by blast
  with w1 have "promises (threads w2) i \<noteq> Some Pending" for i
    using workers_ok_pending [OF w2(4), of i] by simp
  with w1 w2 show ?thesis by (auto simp: workers_ok_def)
qed

text \<open>A function of an object that is called on a receiver whose native pointer is null is refused
  with an exception and changes nothing, whatever kind of object the receiver is.\<close>

theorem null_receiver_refused:
  assumes "object_function f" and "pointer_of this w = Null_Pointer"
  shows "\<exists>msg. invoke env f this args w = Some (Throw msg, w)"
proof (cases f)
  case (Ipc g)
  obtain m where "invoke_ipc env g 0 args ((stores w)\<lparr>ipc_objects := empty_heap\<rparr>)
      = (Throw m, (stores w)\<lparr>ipc_objects := empty_heap\<rparr>)"
    using null_ipc [of 0 "(stores w)\<lparr>ipc_objects := empty_heap\<rparr>" env g args] by auto
  with Ipc assms(2) show ?thesis
    by (cases this) (auto simp: foreign_null dest: null_ipc [where env = env and f = g and args = args])
next
  case (Db g)
  obtain m where "invoke_db env g 0 args empty_heap = (Throw m, empty_heap)"
    using null_db [of 0 empty_heap env g args] by auto
  with Db assms(2) show ?thesis
    by (cases this)
       (auto simp: foreign_null split: option.split intro: null_db_start
         dest: null_db [where env = env and f = g and args = args])
next
  case (FetchFn g)
  obtain m where "invoke_fetch env g 0 empty_heap = (Throw m, empty_heap)"
    using null_fetch [of 0 empty_heap env g] by auto
  with FetchFn assms(2) show ?thesis
    by (cases this) (auto simp: foreign_null dest: null_fetch [where env = env and f = g])
next
  case (Response g)
  obtain m where "invoke_response env g args \<lparr>http_context = NullContext, calls = []\<rparr>
      = (Throw m, \<lparr>http_context = NullContext, calls = []\<rparr>)"
    using null_response [of "\<lparr>http_context = NullContext, calls = []\<rparr>" env g args] by auto
  with Response assms(2) show ?thesis
    by (cases this)
       (auto simp: foreign_null split: if_splits dest: null_response [where env = env and f = g and args = args])
next
  case (Request g)
  obtain m where "invoke_request env g args \<lparr>http_context = NullContext, calls = []\<rparr>
      = Some (Throw m, \<lparr>http_context = NullContext, calls = []\<rparr>)"
    using null_request [of "\<lparr>http_context = NullContext, calls = []\<rparr>" env g args] by auto
  with Request assms(2) show ?thesis
    by (cases this)
       (auto simp: foreign_null split: if_splits dest: null_request [where env = env and f = g and args = args])
qed (use assms(1) in auto)


section \<open>Witnesses\<close>

definition sample_host :: "(bytes \<rightharpoonup> bytes, nat, bytes, bytes \<times> bytes \<times> nat) host" where
  "sample_host =
     \<lparr>host_v8 = sample_v8, host_disk = sample_disk, host_runner = run sample_v8 sample_disk 0,
      host_files = sample_files, host_dir = [67], host_memory = (\<lambda>_. CHR ''x''), host_slot = 0,
      host_iis = quiet_iis, host_kv = sample_kv, host_db = sample_db, host_bcrypt = toy_bcrypt,
      host_random = 0, host_zlib = stored_zlib, host_objects = no_objects, host_network = memory_network,
      host_ssl_valid = True, host_max_size = 100, host_capacities = (\<lambda>_. (15, 15))\<rparr>"

abbreviation fresh_world :: "(bytes \<rightharpoonup> bytes, nat, bytes \<times> bytes \<times> nat) world" where
  "fresh_world \<equiv> rt_initial no_engine Map.empty ([], [], 0)"

text \<open>A script has called \<^verbatim>\<open>crypto.bcrypt.hash\<close>, and the worker is at work.\<close>

definition hashing_pool :: pool where
  "hashing_pool = \<lparr>thread_count = 1, next_promise = 1, promises = [0 \<mapsto> Pending]\<rparr>"

definition hashing :: "(bytes \<rightharpoonup> bytes, nat, bytes \<times> bytes \<times> nat) world" where
  "hashing = fresh_world\<lparr>threads := hashing_pool, busy := [(0, HashJob (12, ''pw''))]\<rparr>"

lemma hashing_step: "rt_step sample_host (Call (Async Bcrypt_hash) Plain [Str password]) fresh_world = Some hashing"
  by (simp add: rt_initial_def bcrypt_hash_start_def begin_job_def begin_async_def empty_pool_def may_start_def
      slot_taken_def MAX_THREADS_def start_job_def hashing_def hashing_pool_def workload_def password_def)

lemma hashing_reachable: "rt_reachable sample_host hashing"
  by (rule rt_reachable.stepped [OF rt_reachable.initial hashing_step])

theorem runtime_invariant_witness:
  "rt_reachable sample_host hashing \<and> thread_count (threads hashing) = int (length (busy hashing))
   \<and> length (busy hashing) = 1"
  using runtime_invariant [OF hashing_reachable] hashing_reachable by (simp add: hashing_def)

text \<open>The same state after the worker is through.\<close>

definition hashed :: "(bytes \<rightharpoonup> bytes, nat, bytes \<times> bytes \<times> nat) world" where
  "hashed = fresh_world\<lparr>threads := \<lparr>thread_count = 0, next_promise = 1,
     promises = [0 \<mapsto> ResolvedWith (RUtf8 ''spw'')]\<rparr>\<rparr>"

lemma hashed_steps: "rt_run sample_host [Worker_Done 0, Worker_Settles 0] hashing = Some hashed"
  by (simp add: hashing_def worker_done_def worker_settles_def hash_settlement_def hash_result_def sample_host_def
      toy_bcrypt_def c_str_def drop_key_def release_slot_def slot_freed_def settle_def hashing_pool_def hashed_def
      rt_initial_def)

lemma rt_run_reachable: "rt_reachable env w \<Longrightarrow> rt_run env evs w = Some w' \<Longrightarrow> rt_reachable env w'"
  by (induction evs arbitrary: w) (auto simp: bind_eq_Some_conv intro: rt_reachable.stepped)


theorem all_promises_settled_witness:
  "\<exists>w1 w2. rt_run sample_host (map (\<lambda>x. Worker_Done (fst x)) (busy hashing)) hashing = Some w1
     \<and> rt_run sample_host (map (\<lambda>x. Worker_Settles (fst x)) (ending w1)) w1 = Some w2
     \<and> (\<forall>i. promises (threads w2) i \<noteq> Some Pending)"
  using all_promises_settled [OF hashing_reachable] by (force simp: hashing_def)

theorem null_receiver_refused_witness:
  "\<exists>msg. invoke sample_host (Response Rs_clear) (Http_Object 0) [] fresh_world = Some (Throw msg, fresh_world)"
  by (rule null_receiver_refused) (simp_all add: rt_initial_def)


end
