(* ===== verification/Http_Auth.thy ===== *)
theory Http_Auth
  imports Http_Client
begin

text \<open>
  The parts of \<^verbatim>\<open>httplib::Client\<close> that \<^verbatim>\<open>http.fetch\<close> never switches on: digest authentication
  (\<^verbatim>\<open>parse_www_authenticate\<close>, \<^verbatim>\<open>make_digest_authentication_header\<close> and the retry in \<^verbatim>\<open>Client::send\<close>), proxies
  with \<^verbatim>\<open>CONNECT\<close>, and several requests over one connection. The hash functions of OpenSSL and the
  values of \<^verbatim>\<open>rand\<close> are parameters. The properties: a challenge is parsed as it was printed; the answer to
  a challenge names a fixed user; a server that keeps refusing makes the client send forever; a client
  without these settings behaves as the one of the theory of the client; and requests sent together are
  answered in order.
\<close>

section \<open>Message digests and random strings\<close>

text \<open>The functions of OpenSSL give the bytes of a digest, which are printed in hexadecimal.\<close>

record digests =
  raw_MD5 :: "bytes \<Rightarrow> bytes"
  raw_SHA_256 :: "bytes \<Rightarrow> bytes"
  raw_SHA_512 :: "bytes \<Rightarrow> bytes"

definition hex_pair :: "char \<Rightarrow> bytes" where
  "hex_pair c = [hex_charset ! (of_char c div 16), hex_charset ! (of_char c mod 16)]"

definition message_digest :: "(bytes \<Rightarrow> bytes) \<Rightarrow> bytes \<Rightarrow> bytes" where
  "message_digest raw s = concat (map hex_pair (raw s))"

definition MD5 :: "digests \<Rightarrow> bytes \<Rightarrow> bytes" where "MD5 lib = message_digest (raw_MD5 lib)"
definition SHA_256 :: "digests \<Rightarrow> bytes \<Rightarrow> bytes" where "SHA_256 lib = message_digest (raw_SHA_256 lib)"
definition SHA_512 :: "digests \<Rightarrow> bytes \<Rightarrow> bytes" where "SHA_512 lib = message_digest (raw_SHA_512 lib)"

text \<open>\<open>rand i\<close> is the value of the \<open>i\<close>-th call of \<^verbatim>\<open>rand\<close>.\<close>

definition random_charset :: string where
  "random_charset = ''0123456789ABCDEFGHIJKLMNOPQRSTUVWXYZabcdefghijklmnopqrstuvwxyz''"

definition random_string :: "(nat \<Rightarrow> nat) \<Rightarrow> nat \<Rightarrow> bytes" where
  "random_string rand n = map (\<lambda>i. random_charset ! (rand i mod 62)) [0..<n]"

section \<open>Challenges\<close>

text \<open>The matches of \<^verbatim>\<open>(?:(?:,\s*)?(.+?)=(?:"(.*?)"|([^,]*)))\<close> one after the other. A dot matches no end of line;
  the key is the shortest nonempty text before an equals sign; a value that starts with a quote goes to
  the next quote if there is one, any other value goes to the next comma. The separator is
  optional and is given up, blank by blank, when nothing matches behind it.\<close>

definition eol :: "char \<Rightarrow> bool" where "eol c \<longleftrightarrow> c = LF \<or> c = CR"

fun equals_at :: "bytes \<Rightarrow> nat option" where
  "equals_at [] = None"
| "equals_at (c # s) =
     (if c = CHR ''='' then Some 0 else if eol c then None else map_option Suc (equals_at s))"

fun key_length :: "bytes \<Rightarrow> nat option" where
  "key_length [] = None"
| "key_length (c # s) = (if eol c then None else map_option Suc (equals_at s))"

fun upto_quote :: "bytes \<Rightarrow> bytes option" where
  "upto_quote [] = None"
| "upto_quote (c # s) =
     (if c = CHR 0x22 then Some [] else if eol c then None else map_option (Cons c) (upto_quote s))"

definition plain_value :: "bytes \<Rightarrow> bytes \<times> bytes" where
  "plain_value s = (takeWhile (\<lambda>c. c \<noteq> CHR '','') s, dropWhile (\<lambda>c. c \<noteq> CHR '','') s)"

fun value_at :: "bytes \<Rightarrow> bytes \<times> bytes" where
  "value_at [] = ([], [])"
| "value_at (c # s) =
     (if c = CHR 0x22
      then (case upto_quote s of Some v \<Rightarrow> (v, drop (Suc (length v)) s) | None \<Rightarrow> plain_value (c # s))
      else plain_value (c # s))"

definition param_at :: "nat \<Rightarrow> bytes \<Rightarrow> (bytes \<times> bytes \<times> bytes) option" where
  "param_at off s =
     (case key_length (drop off s) of
        None \<Rightarrow> None
      | Some n \<Rightarrow> Some (take n (drop off s), value_at (drop (off + n + 1) s)))"

fun separator_offsets :: "bytes \<Rightarrow> nat list" where
  "separator_offsets [] = []"
| "separator_offsets (c # s) =
     (if c = CHR '','' then rev [1..<length (takeWhile isspace s) + 2] @ [0] else [0])"

primrec first_some :: "('a \<Rightarrow> 'b option) \<Rightarrow> 'a list \<Rightarrow> 'b option" where
  "first_some f [] = None"
| "first_some f (x # xs) = (case f x of Some y \<Rightarrow> Some y | None \<Rightarrow> first_some f xs)"

definition match_param :: "bytes \<Rightarrow> (bytes \<times> bytes \<times> bytes) option" where
  "match_param s = first_some (\<lambda>off. param_at off s) (separator_offsets s)"

lemma equals_at_length: "equals_at s = Some n \<Longrightarrow> n < length s"
  by (induction s arbitrary: n) (auto split: if_splits)

lemma key_length_length: "key_length s = Some n \<Longrightarrow> 0 < n \<and> n < length s"
  by (cases s) (auto split: if_splits dest: equals_at_length)

lemma value_at_length: "length (snd (value_at s)) \<le> length s"
  by (cases s) (auto simp: plain_value_def length_dropWhile_le split: option.split
      intro: le_SucI order_trans [OF length_dropWhile_le])

lemma param_at_length: "param_at off s = Some (key, val, rest) \<Longrightarrow> length rest < length s"
proof -
  assume "param_at off s = Some (key, val, rest)"
  then obtain n where n: "key_length (drop off s) = Some n" "(val, rest) = value_at (drop (off + n + 1) s)"
    by (auto simp: param_at_def split: option.splits)
  have "length rest \<le> length s - (off + n + 1)"
    using value_at_length [of "drop (off + n + 1) s"] n(2) by (metis length_drop snd_conv)
  moreover have "n < length s - off" using key_length_length [OF n(1)] by simp
  ultimately show ?thesis by linarith
qed

lemma first_some_Some: "first_some f xs = Some y \<Longrightarrow> \<exists>x \<in> set xs. f x = Some y"
  by (induction xs) (auto split: option.splits)

lemma match_param_length: "match_param s = Some (key, val, rest) \<Longrightarrow> length rest < length s"
  by (auto simp: match_param_def dest!: first_some_Some param_at_length)

function auth_params :: "bytes \<Rightarrow> (bytes \<times> bytes) list" where
  "auth_params s =
     (if s = [] then []
      else case match_param s of
        Some (key, val, rest) \<Rightarrow> (key, val) # auth_params rest
      | None \<Rightarrow> auth_params (tl s))"
  by pat_completeness auto
termination
  by (relation "measure length") (auto dest: match_param_length)

declare auth_params.simps [simp del]

text \<open>The map that the loop fills; a later value replaces an earlier one. \<open>None\<close> is the result \<^verbatim>\<open>false\<close>.\<close>

definition parse_www_authenticate :: "Response \<Rightarrow> bool \<Rightarrow> (bytes \<rightharpoonup> bytes) option" where
  "parse_www_authenticate res is_proxy =
     (let key = (if is_proxy then ''Proxy-Authenticate'' else ''WWW-Authenticate'')
      in if \<not> has_header (res_headers res) key then None
         else let s = get_header_value (res_headers res) key []
              in case std_find s '' '' 0 of
                   None \<Rightarrow> None
                 | Some pos \<Rightarrow>
                     if take pos s = ''Basic'' then None
                     else if take pos s = ''Digest'' then Some (map_of (rev (auth_params (drop (pos + 1) s))))
                     else None)"

section \<open>Answers to a challenge\<close>

text \<open>\<^verbatim>\<open>setfill('0') << setw(8) << hex\<close>.\<close>

definition nonce_count :: "nat \<Rightarrow> bytes" where
  "nonce_count n = replicate (8 - length (from_i_to_hex n)) CHR ''0'' @ from_i_to_hex n"

text \<open>\<^verbatim>\<open>std::map::at\<close> throws for an unknown key.\<close>

definition map_at :: "(bytes \<rightharpoonup> bytes) \<Rightarrow> bytes \<Rightarrow> string + bytes" where
  "map_at m key = (case m key of None \<Rightarrow> Inl ''invalid map<K, T> key'' | Some v \<Rightarrow> Inr v)"

definition digest_algorithm :: "digests \<Rightarrow> bytes \<Rightarrow> bytes \<Rightarrow> bytes" where
  "digest_algorithm lib algo =
     (if algo = ''SHA-256'' then SHA_256 lib else if algo = ''SHA-512'' then SHA_512 lib else MD5 lib)"

definition digest_qop :: "bytes \<Rightarrow> bytes" where
  "digest_qop qop = (if std_find qop ''auth-int'' 0 \<noteq> None then ''auth-int'' else ''auth'')"

definition digest_response ::
    "(bytes \<Rightarrow> bytes) \<Rightarrow> bytes \<Rightarrow> bytes \<Rightarrow> bytes \<Rightarrow> bytes \<Rightarrow> bytes \<Rightarrow> bytes \<Rightarrow> bytes \<Rightarrow> Request \<Rightarrow> bytes" where
  "digest_response H username realm password nonce nc cnonce qop req =
     (let A1 = username @ '':'' @ realm @ '':'' @ password;
          A2 = req_method req @ '':'' @ req_path req
               @ (if qop = ''auth-int'' then '':'' @ H (req_body req) else [])
      in H (H A1 @ '':'' @ nonce @ '':'' @ nc @ '':'' @ cnonce @ '':'' @ qop @ '':'' @ H A2))"

definition quote :: "bytes \<Rightarrow> bytes" where "quote s = CHR 0x22 # s @ [CHR 0x22]"

definition make_digest_authentication_header ::
    "digests \<Rightarrow> Request \<Rightarrow> (bytes \<rightharpoonup> bytes) \<Rightarrow> nat \<Rightarrow> bytes \<Rightarrow> bytes \<Rightarrow> bytes \<Rightarrow> bool \<Rightarrow> string + bytes \<times> bytes" where
  "make_digest_authentication_header lib req auth cnonce_count cnonce username password is_proxy =
     (case map_at auth ''qop'' of Inl msg \<Rightarrow> Inl msg | Inr offered \<Rightarrow>
      case map_at auth ''realm'' of Inl msg \<Rightarrow> Inl msg | Inr realm \<Rightarrow>
      case map_at auth ''nonce'' of Inl msg \<Rightarrow> Inl msg | Inr nonce \<Rightarrow>
      let nc = nonce_count cnonce_count;
          qop = digest_qop offered;
          algo = (case auth ''algorithm'' of None \<Rightarrow> ''MD5'' | Some a \<Rightarrow> a);
          response = digest_response (digest_algorithm lib algo) username realm password nonce nc cnonce qop req;
          field = ''Digest username='' @ quote ''hello'' @ '', realm='' @ quote realm
                  @ '', nonce='' @ quote nonce @ '', uri='' @ quote (req_path req)
                  @ '', algorithm='' @ algo @ '', qop='' @ qop @ '', nc='' @ quote nc
                  @ '', cnonce='' @ quote cnonce @ '', response='' @ quote response
      in Inr (if is_proxy then ''Proxy-Authorization'' else ''Authorization'', field))"

section \<open>Clients with a proxy and digest credentials\<close>

record Full_Client = Client +
  proxy_host :: bytes
  proxy_port :: nat
  digest_auth_username :: bytes
  digest_auth_password :: bytes
  proxy_digest_auth_username :: bytes
  proxy_digest_auth_password :: bytes

definition set_basic_auth :: "bytes \<Rightarrow> bytes \<Rightarrow> Full_Client \<Rightarrow> Full_Client" where
  "set_basic_auth username password c = c\<lparr>basic_auth_username := username, basic_auth_password := password\<rparr>"

definition set_digest_auth :: "bytes \<Rightarrow> bytes \<Rightarrow> Full_Client \<Rightarrow> Full_Client" where
  "set_digest_auth username password c = c\<lparr>digest_auth_username := username, digest_auth_password := password\<rparr>"

definition set_follow_location :: "bool \<Rightarrow> Full_Client \<Rightarrow> Full_Client" where
  "set_follow_location on c = c\<lparr>follow_location := on\<rparr>"

definition set_keep_alive_max_count :: "nat \<Rightarrow> Full_Client \<Rightarrow> Full_Client" where
  "set_keep_alive_max_count n c = c\<lparr>keep_alive_max_count := n\<rparr>"

definition set_proxy :: "bytes \<Rightarrow> nat \<Rightarrow> Full_Client \<Rightarrow> Full_Client" where
  "set_proxy host port c = c\<lparr>proxy_host := host, proxy_port := port\<rparr>"

definition set_proxy_basic_auth :: "bytes \<Rightarrow> bytes \<Rightarrow> Full_Client \<Rightarrow> Full_Client" where
  "set_proxy_basic_auth username password c =
     c\<lparr>proxy_basic_auth_username := username, proxy_basic_auth_password := password\<rparr>"

definition set_proxy_digest_auth :: "bytes \<Rightarrow> bytes \<Rightarrow> Full_Client \<Rightarrow> Full_Client" where
  "set_proxy_digest_auth username password c =
     c\<lparr>proxy_digest_auth_username := username, proxy_digest_auth_password := password\<rparr>"

text \<open>A client as the constructors make it, and the settings carried over to the client of another host:
  \<^verbatim>\<open>copy_settings\<close> copies all of the additional ones.\<close>

definition full_client :: "Client \<Rightarrow> Full_Client" where
  "full_client c = Client.extend c (Full_Client.fields [] 0 [] [] [] [])"

definition with_settings :: "Full_Client \<Rightarrow> Client \<Rightarrow> Full_Client" where
  "with_settings rhs c =
     Client.extend c (Full_Client.fields (proxy_host rhs) (proxy_port rhs)
       (digest_auth_username rhs) (digest_auth_password rhs)
       (proxy_digest_auth_username rhs) (proxy_digest_auth_password rhs))"

definition Client_create_client_socket :: "'k network \<Rightarrow> Full_Client \<Rightarrow> 'k \<Rightarrow> bool \<times> 'k" where
  "Client_create_client_socket nw c k =
     (if proxy_host c \<noteq> [] then create_client_socket nw (c_str (proxy_host c)) (proxy_port c) k
      else create_client_socket nw (c_str (client_host c)) (client_port c) k)"

text \<open>\<open>lib\<close> are the hash functions, \<open>rand k\<close> the values \<^verbatim>\<open>rand\<close> gives in a state.\<close>

definition digest_header ::
    "digests \<Rightarrow> ('k \<Rightarrow> nat \<Rightarrow> nat) \<Rightarrow> Full_Client \<Rightarrow> bool \<Rightarrow> (bytes \<rightharpoonup> bytes) \<Rightarrow> Request \<Rightarrow> 'k \<Rightarrow> string + bytes \<times> bytes" where
  "digest_header lib rand c is_proxy auth req k =
     make_digest_authentication_header lib req auth 1 (random_string (rand k) 10)
       (if is_proxy then proxy_digest_auth_username c else digest_auth_username c)
       (if is_proxy then proxy_digest_auth_password c else digest_auth_password c) is_proxy"

definition has_credentials :: "Full_Client \<Rightarrow> bool \<Rightarrow> bool" where
  "has_credentials c is_proxy \<longleftrightarrow>
     (if is_proxy then proxy_digest_auth_username c \<noteq> [] \<and> proxy_digest_auth_password c \<noteq> []
      else digest_auth_username c \<noteq> [] \<and> digest_auth_password c \<noteq> [])"

section \<open>CONNECT\<close>

definition connect_request :: "Full_Client \<Rightarrow> headers \<Rightarrow> Request" where
  "connect_request c hs =
     \<lparr>req_method = ''CONNECT'', req_path = host_and_port (Client.truncate c), req_headers = hs, req_body = [],
      redirect_count = REDIRECT_MAX_COUNT\<rparr>"

text \<open>One \<^verbatim>\<open>CONNECT\<close> over the plain socket.\<close>

definition connect_once ::
    "'k network \<Rightarrow> nat \<Rightarrow> Full_Client \<Rightarrow> headers \<Rightarrow> 'k \<Rightarrow> (bool, Response \<times> 'k) result option" where
  "connect_once nw max_size c hs k =
     process_socket 1
       (\<lambda>_. process_request (Client.truncate c) (SocketStream_read (plain_net nw)) (SocketStream_write (plain_net nw))
          max_size (connect_request c hs) False)
       (empty_response, k)"

text \<open>The block for an SSL client behind a proxy; \<open>False\<close> is \<^verbatim>\<open>return false\<close>. The status of the last response
  is not looked at.\<close>

definition connect_proxy ::
    "'k network \<Rightarrow> digests \<Rightarrow> ('k \<Rightarrow> nat \<Rightarrow> nat) \<Rightarrow> nat \<Rightarrow> Full_Client \<Rightarrow> 'k \<Rightarrow> (bool, 'k) result option" where
  "connect_proxy nw lib rand max_size c k =
     (if \<not> (ssl_client c \<and> proxy_host c \<noteq> []) then Some (Return True, k)
      else case connect_once nw max_size c [] k of
        None \<Rightarrow> None
      | Some (Return ok, res2, k1) \<Rightarrow>
          if \<not> ok then Some (Return False, k1)
          else if \<not> (res_status res2 = 407 \<and> has_credentials c True) then Some (Return True, k1)
          else case parse_www_authenticate res2 True of
            None \<Rightarrow> Some (Return True, k1)
          | Some auth \<Rightarrow>
              (case Client_create_client_socket nw c (close_socket nw k1) of
                 (connected, k2) \<Rightarrow>
                   if \<not> connected then Some (Return False, k2)
                   else case digest_header lib rand c True auth (connect_request c []) k2 of
                     Inl msg \<Rightarrow> Some (Throw msg, k2)
                   | Inr h \<Rightarrow>
                       (case connect_once nw max_size c [h] k2 of
                          None \<Rightarrow> None
                        | Some (Return ok, _, k3) \<Rightarrow> Some (Return ok, k3)
                        | Some (Throw msg, _, k3) \<Rightarrow> Some (Throw msg, k3)
                        | Some (Block, _, k3) \<Rightarrow> Some (Block, k3)
                        | Some (Crash, _, k3) \<Rightarrow> Some (Crash, k3)))
      | Some (Throw msg, _, k1) \<Rightarrow> Some (Throw msg, k1)
      | Some (Block, _, k1) \<Rightarrow> Some (Block, k1)
      | Some (Crash, _, k1) \<Rightarrow> Some (Crash, k1))"

section \<open>Sending with retries\<close>

definition proxied_request :: "Full_Client \<Rightarrow> Request \<Rightarrow> Request" where
  "proxied_request c req =
     (if \<not> ssl_client c \<and> proxy_host c \<noteq> []
      then req\<lparr>req_path := ''http://'' @ host_and_port (Client.truncate c) @ req_path req\<rparr> else req)"

definition full_redirect_target ::
    "bool \<Rightarrow> Full_Client \<Rightarrow> Request \<Rightarrow> Response \<Rightarrow> (Full_Client \<times> Request) option" where
  "full_redirect_target valid c req res =
     map_option (\<lambda>(b, req'). (with_settings c b, req')) (redirect_target valid (Client.truncate c) req res)"

text \<open>\<^verbatim>\<open>headers.erase(key)\<close> and \<^verbatim>\<open>headers.insert\<close>. The key that is erased for a server's challenge is not the
  one that is inserted.\<close>

definition erase_header :: "bytes \<Rightarrow> headers \<Rightarrow> headers" where
  "erase_header key hs = filter (\<lambda>h. ci (fst h) \<noteq> ci key) hs"

definition authorized_request :: "bool \<Rightarrow> bytes \<times> bytes \<Rightarrow> Request \<Rightarrow> Request" where
  "authorized_request is_proxy h req =
     req\<lparr>req_headers := emplace (fst h) (snd h)
        (erase_header (if is_proxy then ''Proxy-Authorization'' else ''WWW-Authorization'') (req_headers req))\<rparr>"

text \<open>\<^verbatim>\<open>Client::send\<close>. The fuel counts redirects and retries; the retries are not bounded by the code.\<close>

primrec full_send ::
    "nat \<Rightarrow> 'k network \<Rightarrow> digests \<Rightarrow> ('k \<Rightarrow> nat \<Rightarrow> nat) \<Rightarrow> bool \<Rightarrow> nat \<Rightarrow> Full_Client \<Rightarrow> Request \<Rightarrow> 'k
       \<Rightarrow> (Response option, 'k) result option" where
  "full_send 0 nw lib rand valid max_size c req k = None"
| "full_send (Suc n) nw lib rand valid max_size c req k =
     (if req_path req = [] then Some (Return None, k)
      else case Client_create_client_socket nw c k of
        (connected, k1) \<Rightarrow>
          if \<not> connected then Some (Return None, k1)
          else case connect_proxy nw lib rand max_size c k1 of
            None \<Rightarrow> None
          | Some (Return through, k2) \<Rightarrow>
              if \<not> through then Some (Return None, k2)
              else (case exchange nw max_size (Client.truncate c) (proxied_request c req) k2 of
                None \<Rightarrow> None
              | Some (Return ok, res, k3) \<Rightarrow>
                  if \<not> ok then Some (Return None, k3)
                  else if 300 < res_status res \<and> res_status res < 400 \<and> follow_location c
                  then (case full_redirect_target valid c req res of
                          None \<Rightarrow> Some (Return None, k3)
                        | Some (c', req') \<Rightarrow> full_send n nw lib rand valid max_size c' req' k3)
                  else if (res_status res = 401 \<or> res_status res = 407) \<and> has_credentials c (res_status res = 407)
                  then (case parse_www_authenticate res (res_status res = 407) of
                          None \<Rightarrow> Some (Return (Some res), k3)
                        | Some auth \<Rightarrow>
                            (case digest_header lib rand c (res_status res = 407) auth req k3 of
                               Inl msg \<Rightarrow> Some (Throw msg, k3)
                             | Inr h \<Rightarrow>
                                 full_send n nw lib rand valid max_size c
                                   (authorized_request (res_status res = 407) h req) k3))
                  else Some (Return (Some res), k3)
              | Some (Throw msg, _, k3) \<Rightarrow> Some (Throw msg, k3)
              | Some (Block, _, k3) \<Rightarrow> Some (Block, k3)
              | Some (Crash, _, k3) \<Rightarrow> Some (Crash, k3))
          | Some (Throw msg, k2) \<Rightarrow> Some (Throw msg, k2)
          | Some (Block, k2) \<Rightarrow> Some (Block, k2)
          | Some (Crash, k2) \<Rightarrow> Some (Crash, k2))"

section \<open>Several requests over one connection\<close>

text \<open>The callback of \<^verbatim>\<open>Client::send(requests, responses)\<close>: the state holds the index of the next request and the
  responses so far. An index past the end would be undefined behaviour.\<close>

definition batch_callback ::
    "nat \<Rightarrow> 'k network \<Rightarrow> digests \<Rightarrow> ('k \<Rightarrow> nat \<Rightarrow> nat) \<Rightarrow> bool \<Rightarrow> nat \<Rightarrow> Full_Client \<Rightarrow> Request list \<Rightarrow> bool
       \<Rightarrow> (nat \<times> Response list) \<times> 'k \<Rightarrow> (bool \<times> bool, (nat \<times> Response list) \<times> 'k) result option" where
  "batch_callback fuel nw lib rand valid max_size c requests last_connection s =
     (case s of ((i, responses), k) \<Rightarrow>
        if length requests \<le> i then Some (Crash, s)
        else let req = requests ! i; b = Client.truncate c
        in if req_path req = [] then Some (Return (False, False), (Suc i, responses), k)
        else case process_request b (client_read nw b) (client_write nw b) max_size req last_connection (empty_response, k) of
          None \<Rightarrow> None
        | Some (Return (ret, closing), res, k1) \<Rightarrow>
            if \<not> ret then Some (Return (False, closing), (Suc i, responses), k1)
            else if follow_location c \<and> 300 < res_status res \<and> res_status res < 400
            then (case full_redirect_target valid c req res of
                    None \<Rightarrow> Some (Return (False, closing), (Suc i, responses), k1)
                  | Some (c', req') \<Rightarrow>
                      (case full_send fuel nw lib rand valid max_size c' req' k1 of
                         None \<Rightarrow> None
                       | Some (Return (Some res'), k2) \<Rightarrow>
                           Some (Return (True, closing), (Suc i, responses @ [res']), k2)
                       | Some (Return None, k2) \<Rightarrow> Some (Return (False, closing), (Suc i, responses), k2)
                       | Some (Throw msg, k2) \<Rightarrow> Some (Throw msg, (Suc i, responses), k2)
                       | Some (Block, k2) \<Rightarrow> Some (Block, (Suc i, responses), k2)
                       | Some (Crash, k2) \<Rightarrow> Some (Crash, (Suc i, responses), k2)))
            else Some (Return (True, closing), (Suc i, responses @ [res]), k1)
        | Some (Throw msg, res, k1) \<Rightarrow> Some (Throw msg, (Suc i, responses), k1)
        | Some (Block, res, k1) \<Rightarrow> Some (Block, (Suc i, responses), k1)
        | Some (Crash, res, k1) \<Rightarrow> Some (Crash, (Suc i, responses), k1))"

text \<open>The outer loop makes a connection for the requests that are left; its fuel counts connections.\<close>

primrec send_batches ::
    "nat \<Rightarrow> nat \<Rightarrow> 'k network \<Rightarrow> digests \<Rightarrow> ('k \<Rightarrow> nat \<Rightarrow> nat) \<Rightarrow> bool \<Rightarrow> nat \<Rightarrow> Full_Client \<Rightarrow> Request list
       \<Rightarrow> (nat \<times> Response list) \<times> 'k \<Rightarrow> (bool, (nat \<times> Response list) \<times> 'k) result option" where
  "send_batches 0 fuel nw lib rand valid max_size c requests s = None"
| "send_batches (Suc n) fuel nw lib rand valid max_size c requests s =
     (if length requests \<le> fst (fst s) then Some (Return True, s)
      else case Client_create_client_socket nw c (snd s) of
        (connected, k1) \<Rightarrow>
          if \<not> connected then Some (Return False, fst s, k1)
          else then_do
            (process_and_close_socket nw (Client.truncate c) (length requests - fst (fst s))
               (batch_callback fuel nw lib rand valid max_size c requests) (fst s, k1))
            (\<lambda>ok s'. if \<not> ok then Some (Return False, s')
                     else send_batches n fuel nw lib rand valid max_size c requests s'))"

definition send_requests ::
    "nat \<Rightarrow> 'k network \<Rightarrow> digests \<Rightarrow> ('k \<Rightarrow> nat \<Rightarrow> nat) \<Rightarrow> bool \<Rightarrow> nat \<Rightarrow> Full_Client \<Rightarrow> Request list \<Rightarrow> 'k
       \<Rightarrow> (bool, (nat \<times> Response list) \<times> 'k) result option" where
  "send_requests fuel nw lib rand valid max_size c requests k =
     send_batches (Suc (length requests)) fuel nw lib rand valid max_size c requests ((0, []), k)"

section \<open>Challenges as they are printed\<close>

text \<open>A parameter with its value in quotes or plain, and a list of parameters with the usual separator.\<close>

datatype param = Quoted bytes bytes | Bare bytes bytes

fun param_pair :: "param \<Rightarrow> bytes \<times> bytes" where
  "param_pair (Quoted key val) = (key, val)"
| "param_pair (Bare key val) = (key, val)"

fun print_param :: "param \<Rightarrow> bytes" where
  "print_param (Quoted key val) = key @ ''='' @ quote val"
| "print_param (Bare key val) = key @ ''='' @ val"

fun print_params :: "param list \<Rightarrow> bytes" where
  "print_params [] = []"
| "print_params [p] = print_param p"
| "print_params (p # ps) = print_param p @ '', '' @ print_params ps"

definition key_ok :: "bytes \<Rightarrow> bool" where
  "key_ok key \<longleftrightarrow> key \<noteq> [] \<and> list_all (\<lambda>c. c \<noteq> CHR ''='' \<and> c \<noteq> CHR '','' \<and> \<not> eol c \<and> \<not> isspace c) key"

fun param_ok :: "param \<Rightarrow> bool" where
  "param_ok (Quoted key val) = (key_ok key \<and> list_all (\<lambda>c. c \<noteq> CHR 0x22 \<and> \<not> eol c) val)"
| "param_ok (Bare key val) = (key_ok key \<and> CHR '','' \<notin> set val \<and> take 1 val \<noteq> [CHR 0x22])"

lemma equals_at_append:
  "list_all (\<lambda>c. c \<noteq> CHR ''='' \<and> \<not> eol c) key \<Longrightarrow> equals_at (key @ CHR ''='' # s) = Some (length key)"
  by (induction key) auto

lemma key_length_append:
  assumes "key_ok key"
  shows "key_length (key @ CHR ''='' # s) = Some (length key)"
proof -
  obtain c cs where key: "key = c # cs" using assms by (cases key) (auto simp: key_ok_def)
  with assms have "\<not> eol c" "list_all (\<lambda>c. c \<noteq> CHR ''='' \<and> \<not> eol c) cs"
    by (auto simp: key_ok_def list_all_iff)
  with key equals_at_append [of cs s] show ?thesis by simp
qed

lemma upto_quote_append:
  "list_all (\<lambda>c. c \<noteq> CHR 0x22 \<and> \<not> eol c) val \<Longrightarrow> upto_quote (val @ CHR 0x22 # s) = Some val"
  by (induction val) auto

lemma value_at_quoted:
  "list_all (\<lambda>c. c \<noteq> CHR 0x22 \<and> \<not> eol c) val \<Longrightarrow> value_at (quote val @ s) = (val, s)"
  by (simp add: quote_def upto_quote_append)

lemma value_at_bare:
  assumes "CHR '','' \<notin> set val" and "take 1 val \<noteq> [CHR 0x22]" and "s = [] \<or> hd s = CHR '',''"
  shows "value_at (val @ s) = (val, s)"
proof -
  have "takeWhile (\<lambda>c. c \<noteq> CHR '','') (val @ s) = val" "dropWhile (\<lambda>c. c \<noteq> CHR '','') (val @ s) = s"
    using assms(1,3) by (cases s; auto simp: takeWhile_append dropWhile_append)+
  with assms(2,3) show ?thesis by (cases val; cases s) (auto simp: plain_value_def)
qed

lemma value_at_param:
  assumes "param_ok p" and "s = [] \<or> hd s = CHR '',''"
  shows "\<exists>v. print_param p = fst (param_pair p) @ CHR ''='' # v \<and> value_at (v @ s) = (snd (param_pair p), s)
         \<and> key_ok (fst (param_pair p))"
  using assms by (cases p) (auto simp: value_at_quoted intro: value_at_bare)

lemma param_at_param:
  assumes "param_ok p" and "s = [] \<or> hd s = CHR '',''" and "off = length pre"
  shows "param_at off (pre @ print_param p @ s) = Some (fst (param_pair p), snd (param_pair p), s)"
proof -
  from value_at_param [OF assms(1,2)] obtain v where
    v: "print_param p = fst (param_pair p) @ CHR ''='' # v" "value_at (v @ s) = (snd (param_pair p), s)"
      "key_ok (fst (param_pair p))" by blast
  then show ?thesis using assms(3) key_length_append [OF v(3), of "v @ s"] by (simp add: param_at_def)
qed

lemma print_param_Cons:
  assumes "param_ok p"
  obtains c cs where "print_param p = c # cs" "c \<noteq> CHR '',''" "\<not> isspace c"
  using assms that by (cases p; cases "fst (param_pair p)") (auto simp: key_ok_def)

lemma match_first:
  assumes "param_ok p" and "s = [] \<or> hd s = CHR '',''"
  shows "match_param (print_param p @ s) = Some (fst (param_pair p), snd (param_pair p), s)"
proof -
  obtain c cs where "print_param p = c # cs" "c \<noteq> CHR '',''" using print_param_Cons [OF assms(1)] by metis
  with param_at_param [OF assms, of 0 "[]"] show ?thesis by (simp add: match_param_def)
qed

lemma match_next:
  assumes "param_ok p" and "s = [] \<or> hd s = CHR '',''"
  shows "match_param ('', '' @ print_param p @ s) = Some (fst (param_pair p), snd (param_pair p), s)"
proof -
  obtain c cs where c: "print_param p = c # cs" "\<not> isspace c" using print_param_Cons [OF assms(1)] by metis
  have "isspace CHR '' ''" by (simp add: isspace_def)
  with c have "separator_offsets ('', '' @ print_param p @ s) = [2, 1, 0]"
    by (simp add: upt_rec [of 1] upt_rec [of 2] numeral_2_eq_2)
  then have "match_param ('', '' @ print_param p @ s) =
      first_some (\<lambda>off. param_at off ('', '' @ print_param p @ s)) [2, 1, 0]"
    by (simp only: match_param_def)
  also have "\<dots> = Some (fst (param_pair p), snd (param_pair p), s)"
    using param_at_param [OF assms, of 2 "'', ''"] by (simp add: numeral_2_eq_2)
  finally show ?thesis .
qed

text \<open>The parameters behind a separator, and the whole list.\<close>

definition more_params :: "param list \<Rightarrow> bytes" where
  "more_params ps = concat (map (\<lambda>p. '', '' @ print_param p) ps)"

lemma print_params_Cons: "print_params (p # ps) = print_param p @ more_params ps"
  by (induction ps arbitrary: p) (auto simp: more_params_def)

lemma more_params_start: "more_params ps = [] \<or> hd (more_params ps) = CHR '',''"
  by (cases ps) (simp_all add: more_params_def)

lemma auth_params_more: "list_all param_ok ps \<Longrightarrow> auth_params (more_params ps) = map param_pair ps"
proof (induction ps)
  case Nil
  then show ?case by (simp add: more_params_def auth_params.simps)
next
  case (Cons p ps)
  have "more_params (p # ps) = '', '' @ print_param p @ more_params ps" by (simp add: more_params_def)
  with Cons match_next [OF _ more_params_start, of p ps] show ?case
    by (subst auth_params.simps) simp
qed

lemma auth_params_print:
  assumes "list_all param_ok ps"
  shows "auth_params (print_params ps) = map param_pair ps"
proof (cases ps)
  case (Cons p qs)
  obtain c cs where "print_param p = c # cs" using assms print_param_Cons unfolding Cons by (metis list.pred_inject(2))
  with assms Cons match_first [OF _ more_params_start, of p qs] auth_params_more [of qs] show ?thesis
    unfolding Cons print_params_Cons by (subst auth_params.simps) simp
qed (simp add: auth_params.simps)

section \<open>Lemmas\<close>

lemma truncate_with_settings [simp]: "Client.truncate (with_settings rhs c) = c"
  by (simp add: with_settings_def Client.defs Full_Client.defs)

lemma with_settings_same: "with_settings c (Client.truncate c) = c"
  by (simp add: with_settings_def Client.defs Full_Client.defs)

lemma settings_kept [simp]:
  "proxy_host (with_settings rhs c) = proxy_host rhs"
  "has_credentials (with_settings rhs c) b = has_credentials rhs b"
  by (simp_all add: with_settings_def has_credentials_def Client.defs Full_Client.defs)

lemma truncate_fields [simp]:
  "ssl_client (Client.truncate c) = ssl_client c" "client_host (Client.truncate c) = client_host c"
  "client_port (Client.truncate c) = client_port c" "follow_location (Client.truncate c) = follow_location c"
  by (simp_all add: Client.defs)

text \<open>Without a proxy and without credentials the additional branches are never taken.\<close>

definition plain_settings :: "Full_Client \<Rightarrow> bool" where
  "plain_settings c \<longleftrightarrow> proxy_host c = [] \<and> \<not> has_credentials c True \<and> \<not> has_credentials c False"

lemma plain_settings_full_client: "plain_settings (full_client c)"
  by (simp add: plain_settings_def full_client_def has_credentials_def Client.defs Full_Client.defs)

lemma full_send_eq:
  assumes "plain_settings c" and "redirect_count req < n"
  shows "full_send n nw lib rand valid max_size c req k = send nw valid max_size (Client.truncate c) req k"
  using assms
proof (induction n arbitrary: c req k)
  case (Suc n)
  have plain: "Client_create_client_socket nw c k = create_client_socket nw (c_str (client_host c)) (client_port c) k"
    "connect_proxy nw lib rand max_size c k' = Some (Return True, k')" "proxied_request c req = req" for k'
    using Suc.prems(1)
    by (auto simp: plain_settings_def Client_create_client_socket_def connect_proxy_def proxied_request_def)
  have none: "\<not> has_credentials c b" for b
    using Suc.prems(1) by (cases b) (simp_all add: plain_settings_def)
  have onward: "full_send n nw lib rand valid max_size (with_settings c b) req' k3 = send nw valid max_size b req' k3"
    if "redirect_target valid (Client.truncate c) req res = Some (b, req')" for b req' res k3
    using Suc redirect_target_count [OF that] by (subst Suc.IH) (simp_all add: plain_settings_def)
  show ?case
    by (subst send.simps)
       (auto simp: plain none full_redirect_target_def onward split: prod.splits option.splits outcome.splits)
qed simp

text \<open>A server that answers every request for a path with a challenge.\<close>

definition keeps_challenging :: "'k network \<Rightarrow> nat \<Rightarrow> Full_Client \<Rightarrow> bytes \<Rightarrow> bytes \<Rightarrow> ('k \<Rightarrow> bool) \<Rightarrow> bool" where
  "keeps_challenging nw max_size c meth p serving \<longleftrightarrow>
     (\<forall>req k. req_method req = meth \<longrightarrow> req_path req = p \<longrightarrow> serving k \<longrightarrow>
        (\<exists>k1 k2 res auth. Client_create_client_socket nw c k = (True, k1)
           \<and> exchange nw max_size (Client.truncate c) req k1 = Some (Return True, res, k2)
           \<and> res_status res = 401 \<and> parse_www_authenticate res False = Some auth
           \<and> {''qop'', ''realm'', ''nonce''} \<subseteq> dom auth \<and> serving k2))"

lemma digest_header_made:
  "{''qop'', ''realm'', ''nonce''} \<subseteq> dom auth \<Longrightarrow> \<exists>h. digest_header lib rand c is_proxy auth req k = Inr h"
  by (auto simp: digest_header_def make_digest_authentication_header_def map_at_def dom_def Let_def)

lemma full_send_endless:
  assumes "keeps_challenging nw max_size c meth p serving" and "proxy_host c = []" and "has_credentials c False"
    and "p \<noteq> []" and "req_method req = meth" and "req_path req = p" and "serving k"
  shows "full_send n nw lib rand valid max_size c req k = None"
  using assms(5-)
proof (induction n arbitrary: req k)
  case (Suc n)
  from assms(1) Suc.prems obtain k1 k2 res auth where
    step: "Client_create_client_socket nw c k = (True, k1)"
      "exchange nw max_size (Client.truncate c) req k1 = Some (Return True, res, k2)"
      "res_status res = 401" "parse_www_authenticate res False = Some auth"
      "{''qop'', ''realm'', ''nonce''} \<subseteq> dom auth" "serving k2"
    unfolding keeps_challenging_def by blast
  obtain h where h: "digest_header lib rand c False auth req k2 = Inr h"
    using digest_header_made [OF step(5), where lib = lib and rand = rand and c = c and is_proxy = False
        and req = req and k = k2] by blast
  have "full_send n nw lib rand valid max_size c (authorized_request False h req) k2 = None"
    using Suc step(6) by (intro Suc.IH) (simp_all add: authorized_request_def)
  with Suc.prems step h assms(2-4) show ?case
    by (simp add: connect_proxy_def proxied_request_def)
qed simp

section \<open>Progress of a batch\<close>

text \<open>What a step of the batch may do to the index and the responses: a success takes one request and adds one
  response, a failure takes at most one request and adds none.\<close>

definition batch_ok :: "Request list \<Rightarrow> (nat \<times> Response list) \<times> 'k \<Rightarrow> bool" where
  "batch_ok requests s \<longleftrightarrow> fst (fst s) \<le> length requests \<and> length (snd (fst s)) = fst (fst s)"

lemma batch_callback_step:
  assumes "batch_ok requests s" and "fst (fst s) < length requests"
    and "batch_callback fuel nw lib rand valid max_size c requests l s = Some (Return (ret, closing), s')"
  shows "fst (fst s') = Suc (fst (fst s)) \<and> (if ret then batch_ok requests s' else length (snd (fst s')) = fst (fst s))"
proof -
  obtain i rs k where s: "s = ((i, rs), k)" by (metis surj_pair)
  show ?thesis
    using assms unfolding s batch_callback_def batch_ok_def Let_def
    by (auto split: option.splits outcome.splits prod.splits if_splits)
qed

lemma process_loop_batch:
  assumes "batch_ok requests s" and "n \<le> length requests - fst (fst s)" and "n > 0 \<or> ret"
    and "process_loop n (batch_callback fuel nw lib rand valid max_size c requests) ret s = Some (Return ok, s')"
  shows "if ok then batch_ok requests s' \<and> fst (fst s) + (if n > 0 then 1 else 0) \<le> fst (fst s')
         else length (snd (fst s')) < fst (fst s') \<and> fst (fst s') \<le> length requests"
  using assms
proof (induction n arbitrary: s ret)
  case (Suc n)
  from Suc.prems(4) obtain r s1 where
    r: "batch_callback fuel nw lib rand valid max_size c requests (n = 0) s = Some (Return r, s1)"
    by (auto simp: then_do_def split: option.splits prod.splits outcome.splits)
  obtain ret1 closing where "r = (ret1, closing)" by fastforce
  note step = r [unfolded this]
  have i: "fst (fst s) < length requests" using Suc.prems(2) by simp
  note after = batch_callback_step [OF Suc.prems(1) i step]
  show ?case
  proof (cases "\<not> ret1 \<or> closing")
    case True
    with Suc.prems(4) step have "s' = s1" "ok = ret1" by auto
    with after i show ?thesis by auto
  next
    case False
    with Suc.prems(4) step have rest: "process_loop n (batch_callback fuel nw lib rand valid max_size c requests) True s1
        = Some (Return ok, s')" by simp
    from False after have "batch_ok requests s1" by simp
    moreover have "n \<le> length requests - fst (fst s1)" using Suc.prems(2) after by simp
    ultimately have "if ok then batch_ok requests s' \<and> fst (fst s1) + (if n > 0 then 1 else 0) \<le> fst (fst s')
        else length (snd (fst s')) < fst (fst s') \<and> fst (fst s') \<le> length requests"
      using rest by (intro Suc.IH) simp_all
    with after show ?thesis by (cases ok) (simp_all split: if_splits)
  qed
qed (auto simp: batch_ok_def)

lemma process_socket_batch:
  assumes "batch_ok requests s" and "fst (fst s) < length requests" and "n \<le> length requests - fst (fst s)"
    and "process_socket n (batch_callback fuel nw lib rand valid max_size c requests) s = Some (Return ok, s')"
  shows "if ok then batch_ok requests s' \<and> fst (fst s) < fst (fst s')
         else length (snd (fst s')) < fst (fst s') \<and> fst (fst s') \<le> length requests"
proof (cases "n > 1")
  case True
  with process_loop_batch [OF assms(1,3)] assms(4) show ?thesis by (fastforce simp: process_socket_def)
next
  case False
  with assms(4) obtain r where
    r: "batch_callback fuel nw lib rand valid max_size c requests True s = Some (Return r, s')" "ok = fst r"
    by (auto simp: process_socket_def then_do_def split: option.splits prod.splits outcome.splits)
  then show ?thesis
    using batch_callback_step [OF assms(1,2), of fuel nw lib rand valid max_size c True "fst r" "snd r" s'] assms(2)
    by auto
qed

lemma then_do_Return:
  "then_do r f = Some (Return b, s) \<longleftrightarrow> (\<exists>a s1. r = Some (Return a, s1) \<and> f a s1 = Some (Return b, s))"
  by (auto simp: then_do_def split: option.splits prod.splits outcome.splits)

lemma connection_batch:
  assumes "batch_ok requests s" and "fst (fst s) < length requests"
    and "process_and_close_socket nw b (length requests - fst (fst s))
           (batch_callback fuel nw lib rand valid max_size c requests) s = Some (Return ok, s')"
  shows "if ok then batch_ok requests s' \<and> fst (fst s) < fst (fst s')
         else length (snd (fst s')) \<le> fst (fst s') \<and> length (snd (fst s')) < length requests
              \<and> fst (fst s') \<le> length requests"
proof -
  let ?n = "min (length requests - fst (fst s)) (keep_alive_max_count b)"
  have "(\<exists>s1 s2. fst s1 = fst s \<and> fst s' = fst s2
           \<and> process_socket ?n (batch_callback fuel nw lib rand valid max_size c requests) s1 = Some (Return ok, s2))
        \<or> (\<not> ok \<and> fst s' = fst s)"
    using assms(3)
    by (cases s) (auto simp: close_socket_defs then_do_Return split: if_splits prod.splits; metis fst_conv)
  then show ?thesis
  proof (elim disjE exE conjE)
    fix s1 s2
    assume s1: "fst s1 = fst s" and s2: "fst s' = fst s2"
      and run: "process_socket ?n (batch_callback fuel nw lib rand valid max_size c requests) s1 = Some (Return ok, s2)"
    from assms(1) s1 have "batch_ok requests s1" by (simp add: batch_ok_def)
    from process_socket_batch [OF this _ _ run] assms(2) s1 s2 show ?thesis by (auto simp: batch_ok_def split: if_splits)
  next
    assume "\<not> ok" "fst s' = fst s"
    with assms(1,2) show ?thesis by (simp add: batch_ok_def)
  qed
qed

lemma new_connection_batch:
  assumes "batch_ok requests s" and "fst (fst s) < length requests"
    and "process_and_close_socket nw b (length requests - fst (fst s))
           (batch_callback fuel nw lib rand valid max_size c requests) (fst s, k1) = Some (Return ok, s')"
  shows "if ok then batch_ok requests s' \<and> fst (fst s) < fst (fst s')
         else length (snd (fst s')) < length requests"
proof -
  have "batch_ok requests (fst s, k1)" using assms(1) by (simp add: batch_ok_def)
  moreover have "fst (fst (fst s, k1)) < length requests" using assms(2) by simp
  moreover have "process_and_close_socket nw b (length requests - fst (fst (fst s, k1)))
           (batch_callback fuel nw lib rand valid max_size c requests) (fst s, k1) = Some (Return ok, s')"
    using assms(3) by simp
  ultimately have "if ok then batch_ok requests s' \<and> fst (fst (fst s, k1)) < fst (fst s')
         else length (snd (fst s')) \<le> fst (fst s') \<and> length (snd (fst s')) < length requests
              \<and> fst (fst s') \<le> length requests" by (rule connection_batch)
  then show ?thesis by (cases ok) simp_all
qed

text \<open>One connection per request is enough fuel.\<close>

lemma send_batches_fuel:
  assumes "batch_ok requests s" and "length requests - fst (fst s) < n" and "n \<le> m"
  shows "send_batches m fuel nw lib rand valid max_size c requests s
       = send_batches n fuel nw lib rand valid max_size c requests s"
  using assms
proof (induction n arbitrary: m s)
  case (Suc n)
  then obtain m' where m: "m = Suc m'" "n \<le> m'" by (cases m) auto
  have "send_batches m' fuel nw lib rand valid max_size c requests s'
      = send_batches n fuel nw lib rand valid max_size c requests s'"
    if "fst (fst s) < length requests"
      "process_and_close_socket nw (Client.truncate c) (length requests - fst (fst s))
         (batch_callback fuel nw lib rand valid max_size c requests) (fst s, k1) = Some (Return True, s')" for k1 s'
  proof -
    from new_connection_batch [OF Suc.prems(1) that]
    have "batch_ok requests s'" "fst (fst s) < fst (fst s')" by simp_all
    with Suc.prems m show ?thesis by (intro Suc.IH) (auto simp: batch_ok_def)
  qed
  then show ?case
    by (auto simp: m(1) then_do_def split: prod.splits option.splits outcome.splits)
qed simp

lemma send_batches_result:
  assumes "batch_ok requests s"
    and "send_batches n fuel nw lib rand valid max_size c requests s = Some (Return ok, s')"
  shows "if ok then fst (fst s') = length requests \<and> length (snd (fst s')) = length requests
         else length (snd (fst s')) < length requests"
  using assms
proof (induction n arbitrary: s)
  case (Suc n)
  show ?case
  proof (cases "length requests \<le> fst (fst s)")
    case True
    with Suc.prems show ?thesis by (auto simp: batch_ok_def)
  next
    case False
    obtain connected k1 where k1: "Client_create_client_socket nw c (snd s) = (connected, k1)" by fastforce
    show ?thesis
    proof (cases connected)
      case True
      with Suc.prems(2) False k1 obtain ok1 s1 where
        run: "process_and_close_socket nw (Client.truncate c) (length requests - fst (fst s))
           (batch_callback fuel nw lib rand valid max_size c requests) (fst s, k1) = Some (Return ok1, s1)"
        and rest: "if ok1 then send_batches n fuel nw lib rand valid max_size c requests s1 = Some (Return ok, s')
                   else s' = s1 \<and> \<not> ok"
        by (auto simp: then_do_Return split: if_splits)
      from new_connection_batch [OF Suc.prems(1) _ run] False show ?thesis
        using rest Suc.IH [of s1] by (cases ok1) simp_all
    next
      case disconnected: False
      with Suc.prems False k1 show ?thesis by (auto simp: batch_ok_def)
    qed
  qed
qed simp

section \<open>Answers in order\<close>

text \<open>An answer that keeps the connection open and says how long it is.\<close>

record answer =
  answer_status :: nat
  answer_reason :: bytes
  answer_headers :: headers
  answer_body :: bytes

definition answer_ok :: "nat \<Rightarrow> answer \<Rightarrow> bool" where
  "answer_ok max_size a \<longleftrightarrow>
     (let hs = emplace_all (answer_headers a) []
      in response_ok ''HTTP/1.1'' (answer_status a) (answer_reason a) (answer_headers a)
         \<and> \<not> is_chunked_transfer_encoding hs \<and> has_header hs ''Content-Length''
         \<and> get_header_value_uint64 hs ''Content-Length'' 0 = length (answer_body a)
         \<and> get_header_value hs ''Connection'' [] \<noteq> ''close'' \<and> length (answer_body a) \<le> max_size)"

definition answer_bytes :: "answer \<Rightarrow> bytes" where
  "answer_bytes a = response_bytes ''HTTP/1.1'' (answer_status a) (answer_reason a) (answer_headers a) (answer_body a)"

definition answer_response :: "answer \<Rightarrow> Response" where
  "answer_response a = response_of ''HTTP/1.1'' (answer_status a) (answer_headers a) (answer_body a)"

lemma read_response_body_sized:
  assumes "source_laws read incoming" and "answer_ok max_size a" and "max_size < 2 ^ 64"
    and "incoming k = answer_body a @ r"
  shows "\<exists>k'. read_response_body read max_size
             (response_of ''HTTP/1.1'' (answer_status a) (answer_headers a) [], k)
           = Some (Return True, answer_response a, k') \<and> incoming k' = r"
proof -
  let ?hs = "emplace_all (answer_headers a) []"
  have ok: "\<not> is_chunked_transfer_encoding ?hs" "has_header ?hs ''Content-Length''"
    "get_header_value_uint64 ?hs ''Content-Length'' 0 = length (answer_body a)"
    "get_header_value ?hs ''Content-Encoding'' [] \<noteq> ''gzip''" "length (answer_body a) \<le> max_size"
    using assms(2) by (auto simp: answer_ok_def Let_def response_ok_def)
  show ?thesis
  proof (cases "answer_body a = []")
    case True
    with ok assms(4) show ?thesis
      by (simp add: read_response_body_def read_content_def response_of_def answer_response_def)
  next
    case False
    from read_with_length_source [OF assms(1), of "[]" "answer_body a" max_size k r "length (answer_body a)" 0] ok assms(4)
    obtain k' where "read_content_with_length read (body_receiver max_size) (length (answer_body a)) 0 [] k
        = (True, answer_body a, k')" "incoming k' = r" by auto
    with False ok assms(3) show ?thesis
      by (simp add: read_response_body_def read_content_def response_of_def answer_response_def Let_def)
  qed
qed

lemma process_request_answered:
  assumes "source_laws read incoming" and "answer_ok max_size a" and "max_size < 2 ^ 64" and "has_body req"
    and "write_request c emit req l k = (True, k1)" and "incoming k1 = answer_bytes a @ r"
  shows "\<exists>k'. process_request c read emit max_size req l (empty_response, k)
           = Some (Return (True, False), answer_response a, k') \<and> incoming k' = r"
proof -
  let ?v = "''HTTP/1.1''" and ?n = "answer_status a" and ?hs = "answer_headers a"
  let ?res = "\<lparr>res_version = ?v, res_status = int ?n, res_headers = [], res_body = []\<rparr>"
  have ok: "response_ok ?v ?n (answer_reason a) ?hs" using assms(2) by (simp add: answer_ok_def Let_def)
  have inc: "incoming k1 = status_line ?v ?n (answer_reason a)
      @ concat (map header_line ?hs) @ crlf @ answer_body a @ r"
    using assms(6) by (simp add: answer_bytes_def response_bytes_def)
  from read_response_line_plain [OF assms(1) _ inc, of empty_response] ok obtain k2 where
    k2: "read_response_line read (empty_response, k1) = Some (Return True, ?res, k2)"
      "incoming k2 = concat (map header_line ?hs) @ crlf @ answer_body a @ r"
    by (auto simp: response_ok_def empty_response_def)
  have "list_all header_ok ?hs" using ok by (simp add: response_ok_def)
  from read_headers_lines [OF assms(1) this k2(2), of "[]"] obtain k3 where
    k3: "read_response_headers read (?res, k2) = Some (Return True, response_of ?v ?n ?hs [], k3)"
      "incoming k3 = answer_body a @ r"
    by (auto simp: read_response_headers_def response_of_def)
  from read_response_body_sized [OF assms(1,2,3) k3(2)] obtain k4 where
    k4: "read_response_body read max_size (response_of ?v ?n ?hs [], k3) = Some (Return True, answer_response a, k4)"
      "incoming k4 = r" by blast
  have "get_header_value (emplace_all ?hs []) ''Connection'' [] \<noteq> ''close''"
    using assms(2) by (simp add: answer_ok_def Let_def)
  with assms(4,5) k2(1) k3(1) k4 show ?thesis
    by (simp add: process_request_def has_body_def Let_def response_of_def)
qed

text \<open>Requests the client can write, and a connection that leaves what is to be received alone.\<close>

definition sendable :: "Request \<Rightarrow> bool" where
  "sendable req \<longleftrightarrow> req_path req \<noteq> [] \<and> split_path (req_path req) \<noteq> None \<and> has_body req"

lemma write_request_sendable: "sendable req \<Longrightarrow> fst (write_request c emit req l k)"
  by (auto simp: sendable_def write_request_def Let_def)

lemma batch_callback_answered:
  fixes c :: Full_Client
  defines "b \<equiv> Client.truncate c"
  assumes "source_laws (client_read nw b) incoming"
    and "\<And>d k. incoming (snd (client_write nw b d k)) = incoming k"
    and "i < length requests" and "sendable (requests ! i)" and "answer_ok max_size a" and "max_size < 2 ^ 64"
    and "\<not> follow_location c" and "incoming k = answer_bytes a @ r"
  shows "\<exists>k'. batch_callback fuel nw lib rand valid max_size c requests l ((i, rs), k)
           = Some (Return (True, False), (Suc i, rs @ [answer_response a]), k') \<and> incoming k' = r"
proof -
  obtain k1 where k1: "write_request b (client_write nw b) (requests ! i) l k = (True, k1)"
    using write_request_sendable [OF assms(5)] by (metis (full_types) prod.collapse)
  have "incoming k1 = incoming k"
    using write_request_quiet [where part = incoming and emit = "client_write nw b", OF assms(3)] k1
    by (metis snd_conv)
  with assms(9) have "incoming k1 = answer_bytes a @ r" by simp
  from process_request_answered [OF assms(2,6,7) _ k1 this] assms(5) obtain k' where
    "process_request b (client_read nw b) (client_write nw b) max_size (requests ! i) l (empty_response, k)
       = Some (Return (True, False), answer_response a, k')" "incoming k' = r" by (auto simp: sendable_def)
  with assms(4,5,8) show ?thesis by (simp add: batch_callback_def Let_def sendable_def b_def [symmetric])
qed

lemma process_loop_answered:
  fixes c :: Full_Client
  defines "b \<equiv> Client.truncate c"
  assumes "source_laws (client_read nw b) incoming"
    and "\<And>d k. incoming (snd (client_write nw b d k)) = incoming k"
    and "list_all sendable requests" and "max_size < 2 ^ 64" and "\<not> follow_location c"
    and "list_all (answer_ok max_size) as" and "i + length as \<le> length requests"
    and "incoming k = concat (map answer_bytes as) @ r"
  shows "\<exists>k'. process_loop (length as) (batch_callback fuel nw lib rand valid max_size c requests) ret ((i, rs), k)
           = Some (Return (if as = [] then ret else True), (i + length as, rs @ map answer_response as), k')
         \<and> incoming k' = r"
  using assms(7-)
proof (induction as arbitrary: i rs k ret)
  case (Cons a as)
  have "i < length requests" "sendable (requests ! i)" "answer_ok max_size a"
    "incoming k = answer_bytes a @ concat (map answer_bytes as) @ r"
    using Cons.prems assms(4) by (auto simp: list_all_length)
  from batch_callback_answered [OF assms(2,3) [unfolded b_def] this(1-3) assms(5,6) this(4)] obtain k1 where
    k1: "batch_callback fuel nw lib rand valid max_size c requests (as = []) ((i, rs), k)
         = Some (Return (True, False), (Suc i, rs @ [answer_response a]), k1)"
      "incoming k1 = concat (map answer_bytes as) @ r" by blast
  from Cons.IH [of "Suc i" k1 True "rs @ [answer_response a]"] Cons.prems k1(2) obtain k' where
    "process_loop (length as) (batch_callback fuel nw lib rand valid max_size c requests) True
         ((Suc i, rs @ [answer_response a]), k1)
       = Some (Return True, (Suc i + length as, (rs @ [answer_response a]) @ map answer_response as), k')"
    "incoming k' = r" by (auto split: if_splits)
  with k1(1) show ?case by simp
qed simp

lemma process_socket_answered:
  fixes c :: Full_Client
  defines "b \<equiv> Client.truncate c"
  assumes "source_laws (client_read nw b) incoming"
    and "\<And>d k. incoming (snd (client_write nw b d k)) = incoming k"
    and "list_all sendable requests" and "max_size < 2 ^ 64" and "\<not> follow_location c"
    and "list_all (answer_ok max_size) as" and "length as = length requests" and "requests \<noteq> []"
    and "incoming k = concat (map answer_bytes as)"
  shows "\<exists>k'. process_socket (length requests) (batch_callback fuel nw lib rand valid max_size c requests) ((0, []), k)
           = Some (Return True, (length requests, map answer_response as), k')"
proof (cases "length requests > 1")
  case True
  with process_loop_answered [OF assms(2-7) [unfolded b_def], of 0 k "[]" fuel lib rand valid False "[]"] assms(8,10)
  show ?thesis by (auto simp: process_socket_def split: if_splits)
next
  case False
  with assms(8,9) obtain a where "as = [a]" "length requests = 1" by (cases as; cases requests) auto
  moreover from this assms(4,7,10) have "sendable (requests ! 0)" "answer_ok max_size a" "incoming k = answer_bytes a @ []"
    by (auto simp: list_all_length)
  ultimately show ?thesis
    using batch_callback_answered [OF assms(2,3) [unfolded b_def] _ _ _ assms(5,6), where i = 0 and requests = requests
        and a = a and k = k and r = "[]" and fuel = fuel and lib = lib and rand = rand and valid = valid
        and l = True and rs = "[]"]
    by (auto simp: process_socket_def)
qed

section \<open>Properties\<close>

text \<open>A challenge is parsed as it was printed: from a header \<^verbatim>\<open>Digest key="value", key=value, ...\<close> the client gets
  the map of the keys to their values.\<close>

theorem challenge_parsed:
  assumes "list_all param_ok ps" and "has_header (res_headers res) ''WWW-Authenticate''"
    and "get_header_value (res_headers res) ''WWW-Authenticate'' [] = ''Digest '' @ print_params ps"
  shows "parse_www_authenticate res False = Some (map_of (rev (map param_pair ps)))"
proof -
  have "std_find (''Digest '' @ print_params ps) '' '' 0 = Some 6"
    by (simp add: std_find_def numeral_eq_Suc)
  with assms show ?thesis by (simp add: parse_www_authenticate_def auth_params_print Let_def)
qed

text \<open>The answer to a challenge does not name the user: whatever credentials the client was given, the
  parameter \<^verbatim>\<open>username\<close> of the header it sends is \<^verbatim>\<open>hello\<close>.\<close>

theorem digest_names_fixed_user:
  assumes "make_digest_authentication_header lib req auth n cnonce username password is_proxy = Inr (key, field)"
  shows "take 7 field = ''Digest '' \<and> map_of (auth_params (drop 7 field)) ''username'' = Some ''hello''"
proof -
  let ?p = "Quoted ''username'' ''hello''"
  from assms obtain rest where field: "field = ''Digest '' @ print_param ?p @ '','' @ rest"
    by (auto simp: make_digest_authentication_header_def Let_def quote_def split: sum.splits)
  have "param_ok ?p" by (simp add: key_ok_def eol_def isspace_def)
  from match_first [OF this, of "'','' @ rest"]
  have "auth_params (print_param ?p @ '','' @ rest) = (''username'', ''hello'') # auth_params ('','' @ rest)"
    by (subst auth_params.simps) simp
  with field show ?thesis by simp
qed

text \<open>C27. A server that answers every request with a challenge keeps the client sending: no number of
  retries is enough, so the call does not return.\<close>

theorem endless_authentication:
  assumes "keeps_challenging nw max_size c (req_method req) (req_path req) serving"
    and "proxy_host c = []" and "has_credentials c False" and "req_path req \<noteq> []" and "serving k"
  shows "full_send n nw lib rand valid max_size c req k = None"
  using full_send_endless [OF assms(1-4) refl refl assms(5)] .

text \<open>C24. A client as \<^verbatim>\<open>http.fetch\<close> makes it never takes the branches for proxies and authentication: the whole
  of \<^verbatim>\<open>Client::send\<close> agrees with the function the properties of the client are about, with fuel for the
  redirects the request allows.\<close>

theorem full_send_refines:
  assumes "redirect_count req < n"
  shows "full_send n nw lib rand valid max_size (full_client c) req k = send nw valid max_size c req k"
proof -
  have "Client.truncate (full_client c) = c" by (simp add: full_client_def Client.defs Full_Client.defs)
  with full_send_eq [OF plain_settings_full_client assms, of nw lib rand valid max_size c k] show ?thesis by simp
qed

text \<open>Requests sent together: the loop over connections ends after at most one connection per request; when
  the call succeeds there is exactly one response per request, when it fails there are fewer.\<close>

theorem send_requests_complete:
  assumes "send_batches (Suc n) fuel nw lib rand valid max_size c requests ((0, []), k) = Some (Return ok, (i, responses), k')"
    and "length requests \<le> n"
  shows "send_requests fuel nw lib rand valid max_size c requests k = Some (Return ok, (i, responses), k')
    \<and> (if ok then i = length requests \<and> length responses = length requests
       else length responses < length requests)"
proof -
  have start: "batch_ok requests ((0, []), k)" by (simp add: batch_ok_def)
  from send_batches_fuel [OF start, of "Suc (length requests)" "Suc n"] assms
  have "send_requests fuel nw lib rand valid max_size c requests k = Some (Return ok, (i, responses), k')"
    by (simp add: send_requests_def del: send_batches.simps)
  with send_batches_result [OF start assms(1)] show ?thesis by (cases ok) simp_all
qed

text \<open>C23. Answers come back in order. When a server answers the requests of one connection one after the other,
  keeping it open and giving each body its length, the client returns exactly those responses, the
  first for the first request and so on.\<close>

theorem answers_in_order:
  fixes c :: Full_Client
  defines "b \<equiv> Client.truncate c"
  assumes "source_laws (client_read nw b) incoming"
    and "\<forall>d k. incoming (snd (client_write nw b d k)) = incoming k"
    and "list_all sendable requests" and "requests \<noteq> []" and "length requests \<le> keep_alive_max_count c"
    and "\<not> ssl_client c" and "\<not> follow_location c"
    and "Client_create_client_socket nw c k = (True, k1)"
    and "length as = length requests" and "list_all (answer_ok max_size) as" and "max_size < 2 ^ 64"
    and "incoming k1 = concat (map answer_bytes as)"
  shows "\<exists>k'. send_requests fuel nw lib rand valid max_size c requests k
           = Some (Return True, (length requests, map answer_response as), k')"
proof -
  obtain k2 where "process_socket (length requests) (batch_callback fuel nw lib rand valid max_size c requests) ((0, []), k1)
      = Some (Return True, (length requests, map answer_response as), k2)"
    using process_socket_answered [OF assms(2) [unfolded b_def] _ assms(4,12,8,11,10,5,13),
        where fuel = fuel and lib = lib and rand = rand and valid = valid] assms(3) by (auto simp: b_def)
  moreover have "min (length requests) (keep_alive_max_count b) = length requests" "\<not> ssl_client b"
    using assms(6,7) by (simp_all add: b_def Client.defs)
  ultimately have "process_and_close_socket nw b (length requests)
      (batch_callback fuel nw lib rand valid max_size c requests) ((0, []), k1)
    = Some (Return True, (length requests, map answer_response as), close_socket nw k2)"
    by (simp add: close_socket_defs)
  then show ?thesis using assms(5,9)
    by (cases requests) (auto simp: send_requests_def b_def)
qed

section \<open>Witnesses\<close>

definition sample_challenge :: "param list" where
  "sample_challenge = [Quoted ''realm'' ''r'', Quoted ''nonce'' ''n'', Bare ''qop'' ''auth'']"

definition challenge_headers :: headers where
  "challenge_headers = [(''Content-Length'', ''0''), (''WWW-Authenticate'', ''Digest '' @ print_params sample_challenge)]"

definition challenge_answer :: answer where
  "challenge_answer = \<lparr>answer_status = 401, answer_reason = ''No'', answer_headers = challenge_headers, answer_body = []\<rparr>"

lemma sample_challenge_ok: "list_all param_ok sample_challenge"
  by (simp add: sample_challenge_def key_ok_def eol_def isspace_def)

lemma challenge_named:
  "named ''WWW-Authenticate'' (emplace_all challenge_headers []) = [(''WWW-Authenticate'', ''Digest '' @ print_params sample_challenge)]"
  "named ''Content-Length'' (emplace_all challenge_headers []) = [(''Content-Length'', ''0'')]"
  "named ''Transfer-Encoding'' (emplace_all challenge_headers []) = []"
  "named ''Connection'' (emplace_all challenge_headers []) = []"
  "named ''Content-Encoding'' (emplace_all challenge_headers []) = []"
proof -
  have "ci ''WWW-Authenticate'' \<noteq> ci ''Content-Encoding''" by (simp add: ci_def) code_simp
  then show "named ''WWW-Authenticate'' (emplace_all challenge_headers []) = [(''WWW-Authenticate'', ''Digest '' @ print_params sample_challenge)]"
  "named ''Content-Length'' (emplace_all challenge_headers []) = [(''Content-Length'', ''0'')]"
  "named ''Transfer-Encoding'' (emplace_all challenge_headers []) = []"
  "named ''Connection'' (emplace_all challenge_headers []) = []"
  "named ''Content-Encoding'' (emplace_all challenge_headers []) = []"
    by (simp_all add: named_emplace_all empty_sorted challenge_headers_def ci_length del: emplace_all_simps)
qed

lemma challenge_text: "c_str (''Digest '' @ print_params sample_challenge) = ''Digest '' @ print_params sample_challenge"
  by (simp add: c_str_def sample_challenge_def quote_def)

lemma challenge_headers_facts:
  "has_header (emplace_all challenge_headers []) ''WWW-Authenticate''"
  "get_header_value (emplace_all challenge_headers []) ''WWW-Authenticate'' [] = ''Digest '' @ print_params sample_challenge"
  "\<not> is_chunked_transfer_encoding (emplace_all challenge_headers [])"
  "has_header (emplace_all challenge_headers []) ''Content-Length''"
  "get_header_value_uint64 (emplace_all challenge_headers []) ''Content-Length'' 0 = 0"
  "get_header_value (emplace_all challenge_headers []) ''Connection'' [] = []"
  "get_header_value (emplace_all challenge_headers []) ''Content-Encoding'' [] = []"
proof -
  note sorted = emplace_all_sorted [OF empty_sorted]
  have "std_to_string 0 = ''0''" by code_simp
  with strtoull_decimal [of 0] have zero: "strtoull ''0'' = 0" by simp
  show "has_header (emplace_all challenge_headers []) ''WWW-Authenticate''"
    "has_header (emplace_all challenge_headers []) ''Content-Length''"
    "get_header_value (emplace_all challenge_headers []) ''Connection'' [] = []"
    "get_header_value (emplace_all challenge_headers []) ''Content-Encoding'' [] = []"
    "get_header_value_uint64 (emplace_all challenge_headers []) ''Content-Length'' 0 = 0"
    by (simp_all only: has_header_named [OF sorted] get_header_value_named [OF sorted] zero
        get_header_value_uint64_named [OF sorted] challenge_named list.case snd_conv) simp_all
  show "get_header_value (emplace_all challenge_headers []) ''WWW-Authenticate'' [] = ''Digest '' @ print_params sample_challenge"
    by (simp only: get_header_value_named [OF sorted] challenge_named list.case snd_conv challenge_text)
  show "\<not> is_chunked_transfer_encoding (emplace_all challenge_headers [])"
    unfolding is_chunked_transfer_encoding_def get_header_value_named [OF sorted] challenge_named
    by (simp add: same_ignoring_case_def c_str_def)
qed

lemma challenge_parses:
  "parse_www_authenticate (answer_response challenge_answer) False = Some (map_of (rev (map param_pair sample_challenge)))"
proof -
  have "std_find (''Digest '' @ print_params sample_challenge) '' '' 0 = Some 6"
    by (simp add: std_find_def numeral_eq_Suc)
  then show ?thesis
    by (simp add: parse_www_authenticate_def answer_response_def response_of_def challenge_answer_def Let_def
        challenge_headers_facts auth_params_print sample_challenge_ok)
qed

theorem challenge_parsed_witness:
  "parse_www_authenticate (answer_response challenge_answer) False
     = Some (map_of [(''qop'', ''auth''), (''nonce'', ''n''), (''realm'', ''r'')])"
  using challenge_parsed [OF sample_challenge_ok, of "answer_response challenge_answer"]
  by (simp add: answer_response_def response_of_def challenge_answer_def challenge_headers_facts sample_challenge_def)

definition no_digests :: digests where
  "no_digests = \<lparr>raw_MD5 = (\<lambda>_. []), raw_SHA_256 = (\<lambda>_. []), raw_SHA_512 = (\<lambda>_. [])\<rparr>"

theorem digest_names_fixed_user_witness:
  "\<exists>key field. make_digest_authentication_header no_digests (sample_request ''/'')
       (map_of [(''qop'', ''auth''), (''nonce'', ''n''), (''realm'', ''r'')]) 1 ''abc'' ''root'' ''secret'' False = Inr (key, field)
     \<and> map_of (auth_params (drop 7 field)) ''username'' = Some ''hello''"
proof -
  obtain key field where "make_digest_authentication_header no_digests (sample_request ''/'')
       (map_of [(''qop'', ''auth''), (''nonce'', ''n''), (''realm'', ''r'')]) 1 ''abc'' ''root'' ''secret'' False = Inr (key, field)"
    by (simp add: make_digest_authentication_header_def map_at_def Let_def)
  with digest_names_fixed_user [OF this] show ?thesis by blast
qed

text \<open>A network in memory whose connections start with a given answer.\<close>

definition serving_network :: "bytes \<Rightarrow> (bytes \<times> bytes \<times> nat) network" where
  "serving_network wire =
     memory_network\<lparr>create_client_socket := (\<lambda>h p (sent, inp, m). (True, ([], wire, Suc m)))\<rparr>"

lemma serving_network_streams [simp]:
  "client_read (serving_network wire) c = client_read memory_network c"
  "client_write (serving_network wire) c = client_write memory_network c"
  "close_socket (serving_network wire) k = k"
  by (simp_all add: fun_eq_iff serving_network_def client_read_def client_write_def SSLSocketStream_read_def
      SSLSocketStream_write_def memory_network_def split: prod.splits bool.splits)

definition digest_client :: Full_Client where
  "digest_client = set_digest_auth ''u'' ''p'' (full_client (new_client ''h''))"

lemma digest_client_facts:
  "Client.truncate digest_client = new_client ''h''" "proxy_host digest_client = []" "has_credentials digest_client False"
  "client_host digest_client = ''h''" "client_port digest_client = 80"
  by (simp_all add: digest_client_def set_digest_auth_def full_client_def has_credentials_def new_client_def
      Client.defs Full_Client.defs)

lemma exchange_answered:
  assumes "answer_ok max_size a" and "max_size < 2 ^ 64" and "sendable req" and "\<not> ssl_client c" and "fst (snd k) = answer_bytes a"
  shows "\<exists>k'. exchange (serving_network wire) max_size c req k = Some (Return True, answer_response a, k')"
proof -
  obtain k1 where k1: "write_request c (client_write memory_network c) req True k = (True, k1)"
    using write_request_sendable [OF assms(3)] by (metis (full_types) prod.collapse)
  have "fst (snd k1) = answer_bytes a @ []"
    using write_request_quiet [where part = "\<lambda>k. fst (snd k)" and emit = "client_write memory_network c",
        OF memory_write_keeps_input, of c req True k] k1 assms(5) by simp
  from process_request_answered [OF memory_source [of c] assms(1,2) _ k1 this] assms(3) obtain k' where
    "process_request c (client_read memory_network c) (client_write memory_network c) max_size req True (empty_response, k)
       = Some (Return (True, False), answer_response a, k')" by (auto simp: sendable_def)
  with assms(4) show ?thesis
    by (cases k') (simp add: exchange_def close_socket_defs process_socket_once then_do_Return)
qed

lemma sample_sendable: "req_method req = ''GET'' \<Longrightarrow> req_path req = ''/'' \<Longrightarrow> sendable req"
  by (simp add: sendable_def has_body_def split_path_slash [of "[]"] fragment_ok_def)

lemma challenge_answer_ok: "answer_ok 100 challenge_answer"
proof -
  have "list_all header_ok challenge_headers"
    by (simp add: challenge_headers_def header_ok_def header_line_def c_str_def crlf_def blank_def sample_challenge_def
        quote_def)
  then show ?thesis
    by (simp add: answer_ok_def challenge_answer_def challenge_headers_facts response_ok_def status_ok_def)
qed

lemma always_challenging:
  "keeps_challenging (serving_network (answer_bytes challenge_answer)) 100 digest_client ''GET'' ''/'' (\<lambda>k. True)"
proof -
  let ?nw = "serving_network (answer_bytes challenge_answer)"
  have "\<exists>k1 k2 res auth. Client_create_client_socket ?nw digest_client k = (True, k1)
           \<and> exchange ?nw 100 (new_client ''h'') req k1 = Some (Return True, res, k2)
           \<and> res_status res = 401 \<and> parse_www_authenticate res False = Some auth
           \<and> {''qop'', ''realm'', ''nonce''} \<subseteq> dom auth"
    if "req_method req = ''GET''" "req_path req = ''/''" for req k
  proof -
    note sendable = sample_sendable [OF that]
    let ?k1 = "([], answer_bytes challenge_answer, Suc (snd (snd k)))"
    have "Client_create_client_socket ?nw digest_client k = (True, ?k1)"
      by (simp add: Client_create_client_socket_def digest_client_facts serving_network_def split: prod.split)
    moreover obtain k2 where "exchange ?nw 100 (new_client ''h'') req ?k1 = Some (Return True, answer_response challenge_answer, k2)"
      using exchange_answered [OF challenge_answer_ok _ sendable, where c = "new_client ''h''" and k = ?k1
          and wire = "answer_bytes challenge_answer"]
      by (auto simp: new_client_def)
    moreover have "res_status (answer_response challenge_answer) = 401"
      by (simp add: answer_response_def response_of_def challenge_answer_def)
    moreover have "{''qop'', ''realm'', ''nonce''} \<subseteq> dom (map_of (rev (map param_pair sample_challenge)))"
      by (simp add: sample_challenge_def)
    ultimately show ?thesis using challenge_parses by blast
  qed
  then show ?thesis by (simp add: keeps_challenging_def digest_client_facts)
qed

theorem endless_authentication_witness:
  "full_send 1000 (serving_network (answer_bytes challenge_answer)) no_digests (\<lambda>_ _. 0) True 100 digest_client
     (sample_request ''/'') ([], [], 0) = None"
  using endless_authentication [of "serving_network (answer_bytes challenge_answer)" 100 digest_client "sample_request ''/''"
      "\<lambda>k. True" "([], [], 0)" 1000 no_digests "\<lambda>_ _. 0" True]
  by (simp add: always_challenging sample_simps digest_client_facts del: full_send.simps)

theorem full_send_refines_witness:
  "full_send 21 memory_network no_digests (\<lambda>_ _. 0) True 100 (full_client (new_client ''h'')) (sample_request ''/'') ([], sample_response, 0)
     = send memory_network True 100 (new_client ''h'') (sample_request ''/'') ([], sample_response, 0)"
  by (rule full_send_refines) (simp add: sample_simps)

theorem send_requests_complete_witness:
  "send_requests 5 memory_network no_digests (\<lambda>_ _. 0) True 100 (full_client (new_client ''h'')) [sample_request []] ([], [], 0)
     = Some (Return False, (1, []), ([], [], 1))"
proof -
  have "send_batches (Suc 1) 5 memory_network no_digests (\<lambda>_ _. 0) True 100 (full_client (new_client ''h''))
      [sample_request []] ((0, []), ([], [], 0)) = Some (Return False, (1, []), ([], [], 1))"
    by (simp add: Client_create_client_socket_def close_socket_defs process_socket_def batch_callback_def sample_simps
        then_do_Return memory_network_def full_client_def new_client_def KEEPALIVE_MAX_COUNT_def Client.defs
        Full_Client.defs)
  from send_requests_complete [OF this] show ?thesis by simp
qed

definition sample_answer :: answer where
  "sample_answer = \<lparr>answer_status = 200, answer_reason = ''OK'', answer_headers = [(''Content-Length'', ''2'')], answer_body = ''hi''\<rparr>"

lemma sample_answer_ok: "answer_ok 100 sample_answer"
proof -
  have "std_to_string 2 = ''2''" by code_simp
  with strtoull_decimal [of 2] have "strtoull ''2'' = 2" by simp
  then show ?thesis
    using sample_response_ok
    by (simp add: answer_ok_def sample_answer_def is_chunked_transfer_encoding_def same_ignoring_case_def has_header_named
        get_header_value_named get_header_value_uint64_named ci_length c_str_def)
qed

theorem answers_in_order_witness:
  "\<exists>k'. send_requests 5 (serving_network (answer_bytes sample_answer @ answer_bytes challenge_answer)) no_digests (\<lambda>_ _. 0) True 100
          (full_client (new_client ''h'')) [sample_request ''/'', sample_request ''/''] ([], [], 0)
     = Some (Return True, (Suc 1, [answer_response sample_answer, answer_response challenge_answer]), k')"
proof -
  let ?c = "full_client (new_client ''h'')"
  have c: "Client.truncate ?c = new_client ''h''" "keep_alive_max_count ?c = 5" "\<not> ssl_client ?c" "\<not> follow_location ?c"
    by (simp_all add: full_client_def new_client_def KEEPALIVE_MAX_COUNT_def Client.defs Full_Client.defs)
  have "Client_create_client_socket (serving_network w) ?c ([], [], 0) = (True, ([], w, 1))" for w
    by (simp add: Client_create_client_socket_def serving_network_def full_client_def Client.defs Full_Client.defs)
  with answers_in_order [of "serving_network (answer_bytes sample_answer @ answer_bytes challenge_answer)" ?c "\<lambda>k. fst (snd k)"
      "[sample_request ''/'', sample_request ''/'']" "([], [], 0)" _ "[sample_answer, challenge_answer]" 100 5 no_digests "\<lambda>_ _. 0" True]
  show ?thesis
    by (simp add: c memory_source memory_write_keeps_input sample_sendable sample_simps sample_answer_ok challenge_answer_ok)
qed

end
