(* ===== verification/Msgpack_Pack.thy ===== *)
theory Msgpack_Pack
  imports Wrapper_Prelude
begin

text \<open>
  The packer of the MessagePack library (\<^verbatim>\<open>rpc/msgpack/v1/pack.hpp\<close>, \<^verbatim>\<open>sysdep.h\<close>), which the RPC server of
  debug builds uses for its answers: big-endian stores, the packers of integers of every width, of
  floating point numbers, strings, arrays and maps, and \<^verbatim>\<open>pack<object>\<close> (\<^verbatim>\<open>object.hpp\<close>). A stream is
  the list of the bytes written; the target is a little-endian machine with the integer widths of
  64-bit Windows. Every integer packer is shown equal to one reference encoding, whatever the width
  of its argument.
\<close>

type_synonym u8 = "8 word"
type_synonym octets = "u8 list"

section \<open>Big-endian bytes\<close>

primrec be_bytes :: "nat \<Rightarrow> nat \<Rightarrow> octets" where
  "be_bytes 0 n = []"
| "be_bytes (Suc k) n = be_bytes k (n div 256) @ [word_of_nat n]"

definition be_nat :: "octets \<Rightarrow> nat" where
  "be_nat bs = foldl (\<lambda>n b. 256 * n + unat b) 0 bs"

lemma be_nat_simps [simp]: "be_nat [] = 0" "be_nat (bs @ [b]) = 256 * be_nat bs + unat b"
  by (simp_all add: be_nat_def)

lemma length_be_bytes [simp]: "length (be_bytes k n) = k"
  by (induction k arbitrary: n) simp_all

lemma be_nat_be_bytes: "be_nat (be_bytes k n) = n mod 256 ^ k"
proof (induction k arbitrary: n)
  case (Suc k)
  have "n mod 256 ^ Suc k = 256 * (n div 256 mod 256 ^ k) + n mod 256"
    by (simp add: mod_mult2_eq)
  with Suc show ?case by (simp add: unat_of_nat)
qed simp

lemma be_nat_less: "be_nat bs < 256 ^ length bs"
proof (induction bs rule: rev_induct)
  case (snoc b bs)
  have "unat b < 256" using unsigned_less [of b] by simp
  with snoc show ?case by simp
qed simp

text \<open>\<^verbatim>\<open>_msgpack_store16\<close> and its variants swap the bytes of the number and copy it.\<close>

definition msgpack_store16 :: "16 word \<Rightarrow> octets" where "msgpack_store16 w = be_bytes 2 (unat w)"
definition msgpack_store32 :: "u32 \<Rightarrow> octets" where "msgpack_store32 w = be_bytes 4 (unat w)"
definition msgpack_store64 :: "u64 \<Rightarrow> octets" where "msgpack_store64 w = be_bytes 8 (unat w)"

text \<open>\<^verbatim>\<open>take8_8\<close> to \<^verbatim>\<open>take8_64\<close>: the first byte of the number in memory.\<close>

definition take8 :: "'a::len word \<Rightarrow> u8" where "take8 d = ucast d"

section \<open>Integers\<close>

definition pack_imp_uint8 :: "'a::len word \<Rightarrow> octets" where
  "pack_imp_uint8 d = (if uint d < 2 ^ 7 then [take8 d] else [0xcc, take8 d])"

definition pack_imp_uint16 :: "'a::len word \<Rightarrow> octets" where
  "pack_imp_uint16 d =
     (if uint d < 2 ^ 7 then [take8 d]
      else if uint d < 2 ^ 8 then [0xcc, take8 d]
      else 0xcd # msgpack_store16 (ucast d))"

definition pack_imp_uint32 :: "'a::len word \<Rightarrow> octets" where
  "pack_imp_uint32 d =
     (if uint d < 2 ^ 8
      then if uint d < 2 ^ 7 then [take8 d] else [0xcc, take8 d]
      else if uint d < 2 ^ 16 then 0xcd # msgpack_store16 (ucast d)
      else 0xce # msgpack_store32 (ucast d))"

definition pack_imp_uint64 :: "'a::len word \<Rightarrow> octets" where
  "pack_imp_uint64 d =
     (if uint d < 2 ^ 8
      then if uint d < 2 ^ 7 then [take8 d] else [0xcc, take8 d]
      else if uint d < 2 ^ 16 then 0xcd # msgpack_store16 (ucast d)
      else if uint d < 2 ^ 32 then 0xce # msgpack_store32 (ucast d)
      else 0xcf # msgpack_store64 (ucast d))"

definition pack_imp_int8 :: "'a::len word \<Rightarrow> octets" where
  "pack_imp_int8 d = (if sint d < - (2 ^ 5) then [0xd0, take8 d] else [take8 d])"

definition pack_imp_int16 :: "'a::len word \<Rightarrow> octets" where
  "pack_imp_int16 d =
     (if sint d < - (2 ^ 5)
      then if sint d < - (2 ^ 7) then 0xd1 # msgpack_store16 (scast d) else [0xd0, take8 d]
      else if sint d < 2 ^ 7 then [take8 d]
      else if sint d < 2 ^ 8 then [0xcc, take8 d]
      else 0xcd # msgpack_store16 (scast d))"

definition pack_imp_int32 :: "'a::len word \<Rightarrow> octets" where
  "pack_imp_int32 d =
     (if sint d < - (2 ^ 5)
      then if sint d < - (2 ^ 15) then 0xd2 # msgpack_store32 (scast d)
           else if sint d < - (2 ^ 7) then 0xd1 # msgpack_store16 (scast d)
           else [0xd0, take8 d]
      else if sint d < 2 ^ 7 then [take8 d]
      else if sint d < 2 ^ 8 then [0xcc, take8 d]
      else if sint d < 2 ^ 16 then 0xcd # msgpack_store16 (scast d)
      else 0xce # msgpack_store32 (scast d))"

definition pack_imp_int64 :: "'a::len word \<Rightarrow> octets" where
  "pack_imp_int64 d =
     (if sint d < - (2 ^ 5)
      then if sint d < - (2 ^ 15)
           then if sint d < - (2 ^ 31) then 0xd3 # msgpack_store64 (scast d)
                else 0xd2 # msgpack_store32 (scast d)
           else if sint d < - (2 ^ 7) then 0xd1 # msgpack_store16 (scast d)
                else [0xd0, take8 d]
      else if sint d < 2 ^ 7 then [take8 d]
      else if sint d < 2 ^ 16
           then if sint d < 2 ^ 8 then [0xcc, take8 d] else 0xcd # msgpack_store16 (scast d)
           else if sint d < 2 ^ 32 then 0xce # msgpack_store32 (scast d)
                else 0xcf # msgpack_store64 (scast d))"

text \<open>The public functions choose the width of their argument; \<^verbatim>\<open>char\<close> is signed, \<^verbatim>\<open>long\<close> has 32 bits.\<close>

definition pack_uint8 :: "u8 \<Rightarrow> octets" where "pack_uint8 d = pack_imp_uint8 d"
definition pack_uint16 :: "16 word \<Rightarrow> octets" where "pack_uint16 d = pack_imp_uint16 d"
definition pack_uint32 :: "u32 \<Rightarrow> octets" where "pack_uint32 d = pack_imp_uint32 d"
definition pack_uint64 :: "u64 \<Rightarrow> octets" where "pack_uint64 d = pack_imp_uint64 d"
definition pack_int8 :: "u8 \<Rightarrow> octets" where "pack_int8 d = pack_imp_int8 d"
definition pack_int16 :: "16 word \<Rightarrow> octets" where "pack_int16 d = pack_imp_int16 d"
definition pack_int32 :: "u32 \<Rightarrow> octets" where "pack_int32 d = pack_imp_int32 d"
definition pack_int64 :: "u64 \<Rightarrow> octets" where "pack_int64 d = pack_imp_int64 d"

definition pack_fix_uint8 :: "u8 \<Rightarrow> octets" where "pack_fix_uint8 d = [0xcc, take8 d]"
definition pack_fix_uint16 :: "16 word \<Rightarrow> octets" where "pack_fix_uint16 d = 0xcd # msgpack_store16 d"
definition pack_fix_uint32 :: "u32 \<Rightarrow> octets" where "pack_fix_uint32 d = 0xce # msgpack_store32 d"
definition pack_fix_uint64 :: "u64 \<Rightarrow> octets" where "pack_fix_uint64 d = 0xcf # msgpack_store64 d"
definition pack_fix_int8 :: "u8 \<Rightarrow> octets" where "pack_fix_int8 d = [0xd0, take8 d]"
definition pack_fix_int16 :: "16 word \<Rightarrow> octets" where "pack_fix_int16 d = 0xd1 # msgpack_store16 d"
definition pack_fix_int32 :: "u32 \<Rightarrow> octets" where "pack_fix_int32 d = 0xd2 # msgpack_store32 d"
definition pack_fix_int64 :: "u64 \<Rightarrow> octets" where "pack_fix_int64 d = 0xd3 # msgpack_store64 d"

definition pack_char :: "u8 \<Rightarrow> octets" where "pack_char d = pack_imp_int8 d"
definition pack_short :: "16 word \<Rightarrow> octets" where "pack_short d = pack_imp_int16 d"
definition pack_int :: "u32 \<Rightarrow> octets" where "pack_int d = pack_imp_int32 d"
definition pack_long :: "u32 \<Rightarrow> octets" where "pack_long d = pack_imp_int32 d"
definition pack_long_long :: "u64 \<Rightarrow> octets" where "pack_long_long d = pack_imp_int64 d"
definition pack_unsigned_char :: "u8 \<Rightarrow> octets" where "pack_unsigned_char d = pack_imp_uint8 d"
definition pack_unsigned_short :: "16 word \<Rightarrow> octets" where "pack_unsigned_short d = pack_imp_uint16 d"
definition pack_unsigned_int :: "u32 \<Rightarrow> octets" where "pack_unsigned_int d = pack_imp_uint32 d"
definition pack_unsigned_long :: "u32 \<Rightarrow> octets" where "pack_unsigned_long d = pack_imp_uint32 d"
definition pack_unsigned_long_long :: "u64 \<Rightarrow> octets" where "pack_unsigned_long_long d = pack_imp_uint64 d"

section \<open>Other values\<close>

text \<open>Floating point numbers are given by their bits.\<close>

definition pack_float :: "u32 \<Rightarrow> octets" where "pack_float d = 0xca # msgpack_store32 d"
definition pack_double :: "u64 \<Rightarrow> octets" where "pack_double d = 0xcb # msgpack_store64 d"
definition pack_nil :: octets where "pack_nil = [0xc0]"
definition pack_true :: octets where "pack_true = [0xc3]"
definition pack_false :: octets where "pack_false = [0xc2]"

unbundle bit_operations_syntax

definition pack_array :: "u32 \<Rightarrow> octets" where
  "pack_array n =
     (if n < 16 then [ucast (0x90 OR n)]
      else if n < 65536 then 0xdc # msgpack_store16 (ucast n)
      else 0xdd # msgpack_store32 n)"

definition pack_map :: "u32 \<Rightarrow> octets" where
  "pack_map n =
     (if n < 16 then [ucast (0x80 OR n)]
      else if n < 65536 then 0xde # msgpack_store16 (ucast n)
      else 0xdf # msgpack_store32 n)"

definition pack_str :: "u32 \<Rightarrow> octets" where
  "pack_str l =
     (if l < 32 then [ucast (0xa0 OR l)]
      else if l < 256 then [0xd9, ucast l]
      else if l < 65536 then 0xda # msgpack_store16 (ucast l)
      else 0xdb # msgpack_store32 l)"

text \<open>The format before version 5 of the specification has no strings with a length of one byte.\<close>

definition pack_v4raw :: "u32 \<Rightarrow> octets" where
  "pack_v4raw l =
     (if l < 32 then [ucast (0xa0 OR l)]
      else if l < 65536 then 0xda # msgpack_store16 (ucast l)
      else 0xdb # msgpack_store32 l)"

definition pack_bin :: "u32 \<Rightarrow> octets" where
  "pack_bin l =
     (if l < 256 then [0xc4, ucast l]
      else if l < 65536 then 0xc5 # msgpack_store16 (ucast l)
      else 0xc6 # msgpack_store32 l)"

text \<open>The length of \<^verbatim>\<open>pack_ext\<close> is a \<^verbatim>\<open>size_t\<close>.\<close>

definition pack_ext :: "u64 \<Rightarrow> u8 \<Rightarrow> octets" where
  "pack_ext l type =
     (if l = 1 then [0xd4, type]
      else if l = 2 then [0xd5, type]
      else if l = 4 then [0xd6, type]
      else if l = 8 then [0xd7, type]
      else if l = 16 then [0xd8, type]
      else if l < 256 then [0xc7, ucast l, type]
      else if l < 65536 then 0xc8 # msgpack_store16 (ucast l) @ [type]
      else 0xc9 # msgpack_store32 (ucast l) @ [type])"

section \<open>Objects\<close>

text \<open>\<^verbatim>\<open>msgpack::object\<close>. The number of a \<^verbatim>\<open>NEGATIVE_INTEGER\<close> is kept as the 64 bits of the \<^verbatim>\<open>int64_t\<close>; the
  \<^verbatim>\<open>double\<close> in a \<^verbatim>\<open>FLOAT32\<close> came from a \<^verbatim>\<open>float\<close> and is kept as its bits.\<close>

datatype mp_object =
    NIL
  | BOOLEAN bool
  | POSITIVE_INTEGER u64
  | NEGATIVE_INTEGER u64
  | FLOAT32 u32
  | FLOAT64 u64
  | STR_VALUE octets
  | BIN octets
  | EXT u8 octets
  | ARRAY "mp_object list"
  | MAP "(mp_object \<times> mp_object) list"

text \<open>The counts in an object are 32-bit numbers.\<close>

definition count32 :: "'a list \<Rightarrow> u32" where "count32 xs = word_of_nat (length xs)"

fun pack_object :: "mp_object \<Rightarrow> octets" where
  "pack_object NIL = pack_nil"
| "pack_object (BOOLEAN b) = (if b then pack_true else pack_false)"
| "pack_object (POSITIVE_INTEGER n) = pack_uint64 n"
| "pack_object (NEGATIVE_INTEGER n) = pack_int64 n"
| "pack_object (FLOAT32 f) = pack_float f"
| "pack_object (FLOAT64 f) = pack_double f"
| "pack_object (STR_VALUE s) = pack_str (count32 s) @ s"
| "pack_object (BIN s) = pack_bin (count32 s) @ s"
| "pack_object (EXT t s) = pack_ext (ucast (count32 s)) t @ s"
| "pack_object (ARRAY xs) = pack_array (count32 xs) @ concat (map pack_object xs)"
| "pack_object (MAP kvs) =
     pack_map (count32 kvs) @ concat (map (\<lambda>kv. pack_object (fst kv) @ pack_object (snd kv)) kvs)"

text \<open>Objects that fit their counts and whose negative numbers are negative.\<close>

fun object_ok :: "mp_object \<Rightarrow> bool" where
  "object_ok (NEGATIVE_INTEGER n) \<longleftrightarrow> sint n < 0"
| "object_ok (STR_VALUE s) \<longleftrightarrow> length s < 2 ^ 32"
| "object_ok (BIN s) \<longleftrightarrow> length s < 2 ^ 32"
| "object_ok (EXT t s) \<longleftrightarrow> length s < 2 ^ 32 - 1"
| "object_ok (ARRAY xs) \<longleftrightarrow> length xs < 2 ^ 32 \<and> list_all object_ok xs"
| "object_ok (MAP kvs) \<longleftrightarrow> length kvs < 2 ^ 32 \<and> list_all (\<lambda>kv. object_ok (fst kv) \<and> object_ok (snd kv)) kvs"
| "object_ok _ \<longleftrightarrow> True"

text \<open>\<^verbatim>\<open>operator==\<close> on objects. \<^verbatim>\<open>ext.ptr\<close> points at the type byte and \<^verbatim>\<open>ext.size\<close> counts the data only, so the
  comparison of extensions stops before the last byte. \<open>same64\<close> is the comparison of doubles, \<open>widen\<close>
  the conversion of a float.\<close>

primrec equal_object :: "(u64 \<Rightarrow> u64 \<Rightarrow> bool) \<Rightarrow> (u32 \<Rightarrow> u64) \<Rightarrow> mp_object \<Rightarrow> mp_object \<Rightarrow> bool" where
  "equal_object same64 widen NIL y \<longleftrightarrow> y = NIL"
| "equal_object same64 widen (BOOLEAN a) y \<longleftrightarrow> y = BOOLEAN a"
| "equal_object same64 widen (POSITIVE_INTEGER a) y \<longleftrightarrow> y = POSITIVE_INTEGER a"
| "equal_object same64 widen (NEGATIVE_INTEGER a) y \<longleftrightarrow> y = NEGATIVE_INTEGER a"
| "equal_object same64 widen (FLOAT32 a) y \<longleftrightarrow> (case y of FLOAT32 b \<Rightarrow> same64 (widen a) (widen b) | _ \<Rightarrow> False)"
| "equal_object same64 widen (FLOAT64 a) y \<longleftrightarrow> (case y of FLOAT64 b \<Rightarrow> same64 a b | _ \<Rightarrow> False)"
| "equal_object same64 widen (STR_VALUE a) y \<longleftrightarrow> y = STR_VALUE a"
| "equal_object same64 widen (BIN a) y \<longleftrightarrow> y = BIN a"
| "equal_object same64 widen (EXT s a) y \<longleftrightarrow>
     (case y of EXT t b \<Rightarrow> length a = length b \<and> take (length a) (s # a) = take (length b) (t # b) | _ \<Rightarrow> False)"
| "equal_object same64 widen (ARRAY xs) y \<longleftrightarrow>
     (case y of
        ARRAY ys \<Rightarrow> length xs = length ys
          \<and> list_all (\<lambda>(eq, b). eq b) (zip (map (equal_object same64 widen) xs) ys)
      | _ \<Rightarrow> False)"
| "equal_object same64 widen (MAP xs) y \<longleftrightarrow>
     (case y of
        MAP ys \<Rightarrow> length xs = length ys
          \<and> list_all (\<lambda>((eq_key, eq_val), (k, v)). eq_key k \<and> eq_val v)
              (zip (map (map_prod (equal_object same64 widen) (equal_object same64 widen)) xs) ys)
      | _ \<Rightarrow> False)"

section \<open>The reference encoding of integers\<close>

definition low_bytes :: "nat \<Rightarrow> int \<Rightarrow> octets" where
  "low_bytes k i = be_bytes k (nat (i mod 256 ^ k))"

text \<open>The first of the formats that can hold the number.\<close>

definition encode_int :: "int \<Rightarrow> octets" where
  "encode_int i =
     (if i < - (2 ^ 31) then 0xd3 # low_bytes 8 i
      else if i < - (2 ^ 15) then 0xd2 # low_bytes 4 i
      else if i < - (2 ^ 7) then 0xd1 # low_bytes 2 i
      else if i < - (2 ^ 5) then 0xd0 # low_bytes 1 i
      else if i < 2 ^ 7 then low_bytes 1 i
      else if i < 2 ^ 8 then 0xcc # low_bytes 1 i
      else if i < 2 ^ 16 then 0xcd # low_bytes 2 i
      else if i < 2 ^ 32 then 0xce # low_bytes 4 i
      else 0xcf # low_bytes 8 i)"

lemma unat_word_of_int: "unat (word_of_int i :: 'a::len word) = nat (i mod 2 ^ LENGTH('a))"
  by (simp add: uint_word_of_int flip: nat_uint_eq)

lemma stores_of_int:
  "msgpack_store16 (word_of_int i) = low_bytes 2 i"
  "msgpack_store32 (word_of_int i) = low_bytes 4 i"
  "msgpack_store64 (word_of_int i) = low_bytes 8 i"
  by (simp_all add: msgpack_store16_def msgpack_store32_def msgpack_store64_def low_bytes_def unat_word_of_int)

lemma low_byte: "low_bytes 1 i = [word_of_int i]"
  by (simp add: low_bytes_def word_uint_eq_iff uint_word_of_int)

lemma take8_unsigned: "[take8 d] = low_bytes 1 (uint d)"
  unfolding take8_def low_byte by (subst ucast_eq, rule refl)

lemma take8_signed:
  fixes d :: "'a::len word"
  assumes "8 \<le> LENGTH('a)"
  shows "[take8 d] = low_bytes 1 (sint d)"
proof -
  have "take_bit 8 (sint d) = take_bit 8 (uint d)"
    using assms by (simp add: signed_take_bit_eq sint_uint take_bit_signed_take_bit)
  then have "(word_of_int (uint d) :: u8) = word_of_int (sint d)"
    by (simp only: word_of_int_eq_iff) simp
  then show ?thesis unfolding take8_def low_byte by (subst ucast_eq) (simp only:)
qed

lemma stores_unsigned:
  "msgpack_store16 (ucast d) = low_bytes 2 (uint d)"
  "msgpack_store32 (ucast d) = low_bytes 4 (uint d)"
  "msgpack_store64 (ucast d) = low_bytes 8 (uint d)"
  by (subst ucast_eq, rule stores_of_int)+

lemma stores_signed:
  "msgpack_store16 (scast d) = low_bytes 2 (sint d)"
  "msgpack_store32 (scast d) = low_bytes 4 (sint d)"
  "msgpack_store64 (scast d) = low_bytes 8 (sint d)"
  by (subst scast_eq, rule stores_of_int)+

text \<open>The case distinctions of the packers, on integers.\<close>

lemma encode_int_cases:
  "i < - (2 ^ 31) \<Longrightarrow> encode_int i = 0xd3 # low_bytes 8 i"
  "- (2 ^ 31) \<le> i \<Longrightarrow> i < - (2 ^ 15) \<Longrightarrow> encode_int i = 0xd2 # low_bytes 4 i"
  "- (2 ^ 15) \<le> i \<Longrightarrow> i < - (2 ^ 7) \<Longrightarrow> encode_int i = 0xd1 # low_bytes 2 i"
  "- (2 ^ 7) \<le> i \<Longrightarrow> i < - (2 ^ 5) \<Longrightarrow> encode_int i = 0xd0 # low_bytes 1 i"
  "- (2 ^ 5) \<le> i \<Longrightarrow> i < 2 ^ 7 \<Longrightarrow> encode_int i = low_bytes 1 i"
  "2 ^ 7 \<le> i \<Longrightarrow> i < 2 ^ 8 \<Longrightarrow> encode_int i = 0xcc # low_bytes 1 i"
  "2 ^ 8 \<le> i \<Longrightarrow> i < 2 ^ 16 \<Longrightarrow> encode_int i = 0xcd # low_bytes 2 i"
  "2 ^ 16 \<le> i \<Longrightarrow> i < 2 ^ 32 \<Longrightarrow> encode_int i = 0xce # low_bytes 4 i"
  "2 ^ 32 \<le> i \<Longrightarrow> encode_int i = 0xcf # low_bytes 8 i"
  by (simp_all add: encode_int_def)

lemma unsigned_choices:
  "0 \<le> i \<Longrightarrow> i < 2 ^ 8 \<Longrightarrow> (if i < 2 ^ 7 then low_bytes 1 i else 0xcc # low_bytes 1 i) = encode_int i"
  "0 \<le> i \<Longrightarrow> i < 2 ^ 16 \<Longrightarrow>
     (if i < 2 ^ 7 then low_bytes 1 i else if i < 2 ^ 8 then 0xcc # low_bytes 1 i else 0xcd # low_bytes 2 i) = encode_int i"
  "0 \<le> i \<Longrightarrow> i < 2 ^ 32 \<Longrightarrow>
     (if i < 2 ^ 8 then if i < 2 ^ 7 then low_bytes 1 i else 0xcc # low_bytes 1 i
      else if i < 2 ^ 16 then 0xcd # low_bytes 2 i else 0xce # low_bytes 4 i) = encode_int i"
  "0 \<le> i \<Longrightarrow>
     (if i < 2 ^ 8 then if i < 2 ^ 7 then low_bytes 1 i else 0xcc # low_bytes 1 i
      else if i < 2 ^ 16 then 0xcd # low_bytes 2 i
      else if i < 2 ^ 32 then 0xce # low_bytes 4 i else 0xcf # low_bytes 8 i) = encode_int i"
  by (simp_all add: encode_int_def del: One_nat_def)

lemma pack_imp_unsigned:
  "pack_imp_uint8 (a :: u8) = encode_int (uint a)"
  "pack_imp_uint16 (b :: 16 word) = encode_int (uint b)"
  "pack_imp_uint32 (c :: u32) = encode_int (uint c)"
  "pack_imp_uint64 (d :: u64) = encode_int (uint d)"
  using unsigned_choices(1) [OF uint_ge_0, of a] unsigned_choices(2) [OF uint_ge_0, of b]
    unsigned_choices(3) [OF uint_ge_0, of c] unsigned_choices(4) [OF uint_ge_0, of d]
    uint_lt2p [of a] uint_lt2p [of b] uint_lt2p [of c]
  unfolding pack_imp_uint8_def pack_imp_uint16_def pack_imp_uint32_def pack_imp_uint64_def take8_unsigned stores_unsigned
  by simp_all

lemma signed_choices:
  "- (2 ^ 7) \<le> i \<Longrightarrow> i < 2 ^ 7 \<Longrightarrow> (if i < - (2 ^ 5) then 0xd0 # low_bytes 1 i else low_bytes 1 i) = encode_int i"
  "- (2 ^ 15) \<le> i \<Longrightarrow> i < 2 ^ 15 \<Longrightarrow>
     (if i < - (2 ^ 5) then if i < - (2 ^ 7) then 0xd1 # low_bytes 2 i else 0xd0 # low_bytes 1 i
      else if i < 2 ^ 7 then low_bytes 1 i
      else if i < 2 ^ 8 then 0xcc # low_bytes 1 i else 0xcd # low_bytes 2 i) = encode_int i"
  "- (2 ^ 31) \<le> i \<Longrightarrow> i < 2 ^ 31 \<Longrightarrow>
     (if i < - (2 ^ 5)
      then if i < - (2 ^ 15) then 0xd2 # low_bytes 4 i
           else if i < - (2 ^ 7) then 0xd1 # low_bytes 2 i else 0xd0 # low_bytes 1 i
      else if i < 2 ^ 7 then low_bytes 1 i
      else if i < 2 ^ 8 then 0xcc # low_bytes 1 i
      else if i < 2 ^ 16 then 0xcd # low_bytes 2 i else 0xce # low_bytes 4 i) = encode_int i"
  "(if i < - (2 ^ 5)
      then if i < - (2 ^ 15)
           then if i < - (2 ^ 31) then 0xd3 # low_bytes 8 i else 0xd2 # low_bytes 4 i
           else if i < - (2 ^ 7) then 0xd1 # low_bytes 2 i else 0xd0 # low_bytes 1 i
      else if i < 2 ^ 7 then low_bytes 1 i
      else if i < 2 ^ 16
           then if i < 2 ^ 8 then 0xcc # low_bytes 1 i else 0xcd # low_bytes 2 i
           else if i < 2 ^ 32 then 0xce # low_bytes 4 i else 0xcf # low_bytes 8 i) = encode_int i"
  by (simp_all add: encode_int_def del: One_nat_def)

lemma pack_imp_signed:
  "pack_imp_int8 (a :: u8) = encode_int (sint a)"
  "pack_imp_int16 (b :: 16 word) = encode_int (sint b)"
  "pack_imp_int32 (c :: u32) = encode_int (sint c)"
  "pack_imp_int64 (d :: u64) = encode_int (sint d)"
proof -
  have low: "[take8 a] = low_bytes 1 (sint a)" "[take8 b] = low_bytes 1 (sint b)"
    "[take8 c] = low_bytes 1 (sint c)" "[take8 d] = low_bytes 1 (sint d)"
    by (rule take8_signed, simp)+
  show "pack_imp_int8 a = encode_int (sint a)"
    using signed_choices(1) [of "sint a"] sint_less [of a] sint_greater_eq [of a]
    unfolding pack_imp_int8_def low by simp
  show "pack_imp_int16 b = encode_int (sint b)"
    using signed_choices(2) [of "sint b"] sint_less [of b] sint_greater_eq [of b]
    unfolding pack_imp_int16_def low stores_signed by simp
  show "pack_imp_int32 c = encode_int (sint c)"
    using signed_choices(3) [of "sint c"] sint_less [of c] sint_greater_eq [of c]
    unfolding pack_imp_int32_def low stores_signed by simp
  show "pack_imp_int64 d = encode_int (sint d)"
    using signed_choices(4) [of "sint d"]
    unfolding pack_imp_int64_def low stores_signed by simp
qed

end
