(* ===== verification/Msgpack_Parse.thy ===== *)
theory Msgpack_Parse
  imports Msgpack_Pack
begin

text \<open>
  The streaming parser of the MessagePack library (\<^verbatim>\<open>rpc/msgpack/v2/parse.hpp\<close>): the state machine
  \<^verbatim>\<open>context::execute\<close>, its stack of open containers, and \<^verbatim>\<open>parse_imp\<close>. The parser tells a visitor what it finds;
  a visitor is a function on the calls, which may stop the parser or throw. The position \<^verbatim>\<open>m_current\<close> is the
  list of the bytes from there to the end of the buffer. The theory shows that a buffer that
  arrives in pieces is parsed as if it had arrived at once.
\<close>

section \<open>Visitors\<close>

datatype visit =
    Visit_nil
  | Visit_boolean bool
  | Visit_positive_integer u64
  | Visit_negative_integer u64
  | Visit_float32 u32
  | Visit_float64 u64
  | Visit_str octets
  | Visit_bin octets
  | Visit_ext octets
  | Start_array u32
  | Start_array_item
  | End_array_item
  | End_array
  | Start_map u32
  | Start_map_key
  | End_map_key
  | Start_map_value
  | End_map_value
  | End_map
  | Parse_error
  | Insufficient_bytes

type_synonym 'v visitor = "visit \<Rightarrow> 'v \<Rightarrow> (bool, 'v) result"

datatype parse_return =
  PARSE_SUCCESS | PARSE_EXTRA_BYTES | PARSE_CONTINUE | PARSE_PARSE_ERROR | PARSE_STOP_VISITOR

text \<open>A call of the visitor; \<^verbatim>\<open>false\<close> stops the parser.\<close>

definition ask ::
    "'v visitor \<Rightarrow> visit \<Rightarrow> ('v \<Rightarrow> 's) \<Rightarrow> 'v \<Rightarrow> ('v \<Rightarrow> (parse_return, 's) result) \<Rightarrow> (parse_return, 's) result" where
  "ask vis c state v k =
     (case vis c v of
        (Return True, v') \<Rightarrow> k v'
      | (Return False, v') \<Rightarrow> (Return PARSE_STOP_VISITOR, state v')
      | (Throw msg, v') \<Rightarrow> (Throw msg, state v')
      | (Block, v') \<Rightarrow> (Block, state v')
      | (Crash, v') \<Rightarrow> (Crash, state v'))"

section \<open>The stack of open containers\<close>

datatype msgpack_container_type = CT_ARRAY_ITEM | CT_MAP_KEY | CT_MAP_VALUE

type_synonym stack_elem = "msgpack_container_type \<times> u32"

text \<open>The head of the list is \<^verbatim>\<open>m_stack.back()\<close>.\<close>

definition stack_push ::
    "'v visitor \<Rightarrow> msgpack_container_type \<Rightarrow> u32 \<Rightarrow> stack_elem list \<Rightarrow> 'v \<Rightarrow> (parse_return, stack_elem list \<times> 'v) result" where
  "stack_push vis type rest st v =
     (let st' = (type, rest) # st
      in case type of
           CT_ARRAY_ITEM \<Rightarrow> ask vis Start_array_item (Pair st') v (\<lambda>v'. (Return PARSE_CONTINUE, st', v'))
         | CT_MAP_KEY \<Rightarrow> ask vis Start_map_key (Pair st') v (\<lambda>v'. (Return PARSE_CONTINUE, st', v'))
         | CT_MAP_VALUE \<Rightarrow> (Return PARSE_STOP_VISITOR, st', v))"

fun consume :: "'v visitor \<Rightarrow> stack_elem list \<Rightarrow> 'v \<Rightarrow> (parse_return, stack_elem list \<times> 'v) result" where
  "consume vis [] v = (Return PARSE_SUCCESS, [], v)"
| "consume vis ((CT_ARRAY_ITEM, rest) # st) v =
     ask vis End_array_item (Pair ((CT_ARRAY_ITEM, rest) # st)) v (\<lambda>v1.
       if rest - 1 = 0 then ask vis End_array (Pair st) v1 (\<lambda>v2. consume vis st v2)
       else ask vis Start_array_item (Pair ((CT_ARRAY_ITEM, rest - 1) # st)) v1 (\<lambda>v2.
              (Return PARSE_CONTINUE, (CT_ARRAY_ITEM, rest - 1) # st, v2)))"
| "consume vis ((CT_MAP_KEY, rest) # st) v =
     ask vis End_map_key (Pair ((CT_MAP_KEY, rest) # st)) v (\<lambda>v1.
       ask vis Start_map_value (Pair ((CT_MAP_KEY, rest) # st)) v1 (\<lambda>v2.
         (Return PARSE_CONTINUE, (CT_MAP_VALUE, rest) # st, v2)))"
| "consume vis ((CT_MAP_VALUE, rest) # st) v =
     ask vis End_map_value (Pair ((CT_MAP_VALUE, rest) # st)) v (\<lambda>v1.
       if rest - 1 = 0 then ask vis End_map (Pair st) v1 (\<lambda>v2. consume vis st v2)
       else ask vis Start_map_key (Pair ((CT_MAP_KEY, rest - 1) # st)) v1 (\<lambda>v2.
              (Return PARSE_CONTINUE, (CT_MAP_KEY, rest - 1) # st, v2)))"

section \<open>The state machine\<close>

datatype unpack_state =
    CS_HEADER
  | CS_BIN_8 | CS_BIN_16 | CS_BIN_32
  | CS_EXT_8 | CS_EXT_16 | CS_EXT_32
  | CS_FLOAT | CS_DOUBLE
  | CS_UINT_8 | CS_UINT_16 | CS_UINT_32 | CS_UINT_64
  | CS_INT_8 | CS_INT_16 | CS_INT_32 | CS_INT_64
  | CS_FIXEXT_1 | CS_FIXEXT_2 | CS_FIXEXT_4 | CS_FIXEXT_8 | CS_FIXEXT_16
  | CS_STR_8 | CS_STR_16 | CS_STR_32
  | CS_ARRAY_16 | CS_ARRAY_32 | CS_MAP_16 | CS_MAP_32
  | ACS_STR_VALUE | ACS_BIN_VALUE | ACS_EXT_VALUE

text \<open>The table of trailing bytes together with \<^verbatim>\<open>next_cs\<close>, for the header bytes from 0xc4 to 0xdf in order.\<close>

definition trail_table :: "(nat \<times> unpack_state) list" where
  "trail_table =
     [(1, CS_BIN_8), (2, CS_BIN_16), (4, CS_BIN_32), (1, CS_EXT_8), (2, CS_EXT_16), (4, CS_EXT_32),
      (4, CS_FLOAT), (8, CS_DOUBLE), (1, CS_UINT_8), (2, CS_UINT_16), (4, CS_UINT_32), (8, CS_UINT_64),
      (1, CS_INT_8), (2, CS_INT_16), (4, CS_INT_32), (8, CS_INT_64),
      (2, CS_FIXEXT_1), (3, CS_FIXEXT_2), (5, CS_FIXEXT_4), (9, CS_FIXEXT_8), (17, CS_FIXEXT_16),
      (1, CS_STR_8), (2, CS_STR_16), (4, CS_STR_32), (2, CS_ARRAY_16), (4, CS_ARRAY_32), (2, CS_MAP_16), (4, CS_MAP_32)]"

record 'v parse_context =
  m_trail :: nat
  m_cs :: unpack_state
  m_stack :: "stack_elem list"
  m_visitor :: 'v

definition new_context :: "'v \<Rightarrow> 'v parse_context" where
  "new_context v = \<lparr>m_trail = 0, m_cs = CS_HEADER, m_stack = [], m_visitor = v\<rparr>"

text \<open>What a round of the loop does: go on at a position, or leave \<^verbatim>\<open>execute\<close>.\<close>

datatype 'v round = Again "'v parse_context" octets | Leave "parse_return outcome" "'v parse_context" octets

text \<open>\<^verbatim>\<open>after_visit_proc\<close>, with the call of the visitor before it: the value ends at \<open>rest\<close>.\<close>

definition after_visit :: "'v visitor \<Rightarrow> visit \<Rightarrow> 'v parse_context \<Rightarrow> octets \<Rightarrow> 'v round" where
  "after_visit vis call c rest =
     (case vis call (m_visitor c) of
        (Return True, v) \<Rightarrow>
          (case consume vis (m_stack c) v of
             (Return PARSE_CONTINUE, st, v') \<Rightarrow> Again (c\<lparr>m_cs := CS_HEADER, m_stack := st, m_visitor := v'\<rparr>) rest
           | (Return ret, st, v') \<Rightarrow> Leave (Return ret) (c\<lparr>m_cs := CS_HEADER, m_stack := st, m_visitor := v'\<rparr>) rest
           | (ex, st, v') \<Rightarrow> Leave ex (c\<lparr>m_stack := st, m_visitor := v'\<rparr>) rest)
      | (Return False, v) \<Rightarrow> Leave (Return PARSE_STOP_VISITOR) (c\<lparr>m_visitor := v\<rparr>) rest
      | (Throw msg, v) \<Rightarrow> Leave (Throw msg) (c\<lparr>m_visitor := v\<rparr>) rest
      | (Block, v) \<Rightarrow> Leave Block (c\<lparr>m_visitor := v\<rparr>) rest
      | (Crash, v) \<Rightarrow> Leave Crash (c\<lparr>m_visitor := v\<rparr>) rest)"

text \<open>\<^verbatim>\<open>start_aggregate\<close> for an array or a map of a given size.\<close>

definition start_aggregate ::
    "'v visitor \<Rightarrow> (u32 \<Rightarrow> visit) \<Rightarrow> visit \<Rightarrow> msgpack_container_type \<Rightarrow> u32 \<Rightarrow> 'v parse_context \<Rightarrow> octets \<Rightarrow> 'v round" where
  "start_aggregate vis sv ev type n c rest =
     (let r = ask vis (sv n) (Pair (m_stack c)) (m_visitor c) (\<lambda>v.
                if n = 0 then ask vis ev (Pair (m_stack c)) v (\<lambda>v'. consume vis (m_stack c) v')
                else stack_push vis type n (m_stack c) v)
      in case r of
           (Return PARSE_CONTINUE, st, v) \<Rightarrow> Again (c\<lparr>m_cs := CS_HEADER, m_stack := st, m_visitor := v\<rparr>) rest
         | (ret, st, v) \<Rightarrow> Leave ret (c\<lparr>m_stack := st, m_visitor := v\<rparr>) rest)"

definition start_array :: "'v visitor \<Rightarrow> u32 \<Rightarrow> 'v parse_context \<Rightarrow> octets \<Rightarrow> 'v round" where
  "start_array vis = start_aggregate vis Start_array End_array CT_ARRAY_ITEM"

definition start_map :: "'v visitor \<Rightarrow> u32 \<Rightarrow> 'v parse_context \<Rightarrow> octets \<Rightarrow> 'v round" where
  "start_map vis = start_aggregate vis Start_map End_map CT_MAP_KEY"

text \<open>The visitor is told of the error; unless it throws, \<^verbatim>\<open>execute\<close> returns \<^verbatim>\<open>PARSE_PARSE_ERROR\<close>.\<close>

definition report_error :: "'v visitor \<Rightarrow> 'v parse_context \<Rightarrow> octets \<Rightarrow> 'v round" where
  "report_error vis c bs =
     (case vis Parse_error (m_visitor c) of
        (Return _, v) \<Rightarrow> Leave (Return PARSE_PARSE_ERROR) (c\<lparr>m_visitor := v\<rparr>) bs
      | (Throw msg, v) \<Rightarrow> Leave (Throw msg) (c\<lparr>m_visitor := v\<rparr>) bs
      | (Block, v) \<Rightarrow> Leave Block (c\<lparr>m_visitor := v\<rparr>) bs
      | (Crash, v) \<Rightarrow> Leave Crash (c\<lparr>m_visitor := v\<rparr>) bs)"

text \<open>A header byte. After a byte that announces more bytes \<^verbatim>\<open>m_current\<close> stays on it until the flag
  \<^verbatim>\<open>fixed_trail_again\<close> moves it on; the list \<open>bs\<close> is already behind it.\<close>

definition header_round :: "'v visitor \<Rightarrow> 'v parse_context \<Rightarrow> u8 \<Rightarrow> octets \<Rightarrow> 'v round" where
  "header_round vis c b bs =
     (let selector = unat b
      in if selector \<le> 0x7f then after_visit vis (Visit_positive_integer (ucast b)) c bs
         else if 0xe0 \<le> selector then after_visit vis (Visit_negative_integer (scast b)) c bs
         else if 0xc4 \<le> selector then
           (case trail_table ! (selector - 0xc4) of
              (n, cs) \<Rightarrow> Again (c\<lparr>m_trail := n, m_cs := cs\<rparr>) bs)
         else if 0xa0 \<le> selector \<and> selector \<le> 0xbf then
           (let n = selector mod 32
            in if n = 0 then after_visit vis (Visit_str []) (c\<lparr>m_trail := n\<rparr>) bs
               else Again (c\<lparr>m_trail := n, m_cs := ACS_STR_VALUE\<rparr>) bs)
         else if 0x90 \<le> selector \<and> selector \<le> 0x9f then start_array vis (word_of_nat (selector mod 16)) c bs
         else if 0x80 \<le> selector \<and> selector \<le> 0x8f then start_map vis (word_of_nat (selector mod 16)) c bs
         else if selector = 0xc2 then after_visit vis (Visit_boolean False) c bs
         else if selector = 0xc3 then after_visit vis (Visit_boolean True) c bs
         else if selector = 0xc0 then after_visit vis Visit_nil c bs
         else report_error vis c (b # bs))"

text \<open>A length, and the bytes it announces. \<^verbatim>\<open>uint32_t\<close> cuts the length that is passed for a value.\<close>

definition sized :: "'v visitor \<Rightarrow> (octets \<Rightarrow> visit) \<Rightarrow> unpack_state \<Rightarrow> nat \<Rightarrow> 'v parse_context \<Rightarrow> octets \<Rightarrow> 'v round" where
  "sized vis call cs n c rest =
     (if n = 0 then after_visit vis (call []) (c\<lparr>m_trail := n\<rparr>) rest
      else Again (c\<lparr>m_trail := n, m_cs := cs\<rparr>) rest)"

definition whole :: "'v visitor \<Rightarrow> (octets \<Rightarrow> visit) \<Rightarrow> octets \<Rightarrow> 'v parse_context \<Rightarrow> octets \<Rightarrow> 'v round" where
  "whole vis call payload c rest =
     after_visit vis (call (take (unat (word_of_nat (length payload) :: u32)) payload)) c rest"

definition trail_round :: "'v visitor \<Rightarrow> 'v parse_context \<Rightarrow> octets \<Rightarrow> octets \<Rightarrow> 'v round" where
  "trail_round vis c payload rest =
     (case m_cs c of
        CS_FLOAT \<Rightarrow> after_visit vis (Visit_float32 (word_of_nat (be_nat payload))) c rest
      | CS_DOUBLE \<Rightarrow> after_visit vis (Visit_float64 (word_of_nat (be_nat payload))) c rest
      | CS_UINT_8 \<Rightarrow> after_visit vis (Visit_positive_integer (word_of_nat (be_nat payload))) c rest
      | CS_UINT_16 \<Rightarrow> after_visit vis (Visit_positive_integer (word_of_nat (be_nat payload))) c rest
      | CS_UINT_32 \<Rightarrow> after_visit vis (Visit_positive_integer (word_of_nat (be_nat payload))) c rest
      | CS_UINT_64 \<Rightarrow> after_visit vis (Visit_positive_integer (word_of_nat (be_nat payload))) c rest
      | CS_INT_8 \<Rightarrow> after_visit vis (Visit_negative_integer (scast (word_of_nat (be_nat payload) :: u8))) c rest
      | CS_INT_16 \<Rightarrow> after_visit vis (Visit_negative_integer (scast (word_of_nat (be_nat payload) :: 16 word))) c rest
      | CS_INT_32 \<Rightarrow> after_visit vis (Visit_negative_integer (scast (word_of_nat (be_nat payload) :: u32))) c rest
      | CS_INT_64 \<Rightarrow> after_visit vis (Visit_negative_integer (word_of_nat (be_nat payload))) c rest
      | CS_FIXEXT_1 \<Rightarrow> after_visit vis (Visit_ext (take 2 payload)) c rest
      | CS_FIXEXT_2 \<Rightarrow> after_visit vis (Visit_ext (take 3 payload)) c rest
      | CS_FIXEXT_4 \<Rightarrow> after_visit vis (Visit_ext (take 5 payload)) c rest
      | CS_FIXEXT_8 \<Rightarrow> after_visit vis (Visit_ext (take 9 payload)) c rest
      | CS_FIXEXT_16 \<Rightarrow> after_visit vis (Visit_ext (take 17 payload)) c rest
      | CS_STR_8 \<Rightarrow> sized vis Visit_str ACS_STR_VALUE (be_nat payload) c rest
      | CS_STR_16 \<Rightarrow> sized vis Visit_str ACS_STR_VALUE (be_nat payload) c rest
      | CS_STR_32 \<Rightarrow> sized vis Visit_str ACS_STR_VALUE (be_nat payload) c rest
      | CS_BIN_8 \<Rightarrow> sized vis Visit_bin ACS_BIN_VALUE (be_nat payload) c rest
      | CS_BIN_16 \<Rightarrow> sized vis Visit_bin ACS_BIN_VALUE (be_nat payload) c rest
      | CS_BIN_32 \<Rightarrow> sized vis Visit_bin ACS_BIN_VALUE (be_nat payload) c rest
      | CS_EXT_8 \<Rightarrow> sized vis Visit_ext ACS_EXT_VALUE (be_nat payload + 1) c rest
      | CS_EXT_16 \<Rightarrow> sized vis Visit_ext ACS_EXT_VALUE (be_nat payload + 1) c rest
      | CS_EXT_32 \<Rightarrow> sized vis Visit_ext ACS_EXT_VALUE (be_nat payload + 1) c rest
      | ACS_STR_VALUE \<Rightarrow> whole vis Visit_str payload c rest
      | ACS_BIN_VALUE \<Rightarrow> whole vis Visit_bin payload c rest
      | ACS_EXT_VALUE \<Rightarrow> whole vis Visit_ext payload c rest
      | CS_ARRAY_16 \<Rightarrow> start_array vis (word_of_nat (be_nat payload)) c rest
      | CS_ARRAY_32 \<Rightarrow> start_array vis (word_of_nat (be_nat payload)) c rest
      | CS_MAP_16 \<Rightarrow> start_map vis (word_of_nat (be_nat payload)) c rest
      | CS_MAP_32 \<Rightarrow> start_map vis (word_of_nat (be_nat payload)) c rest
      | CS_HEADER \<Rightarrow> report_error vis c rest)"

text \<open>One round of the loop of \<^verbatim>\<open>execute\<close> on the bytes that are left.\<close>

definition parse_round :: "'v visitor \<Rightarrow> 'v parse_context \<Rightarrow> octets \<Rightarrow> 'v round" where
  "parse_round vis c bs =
     (case bs of
        [] \<Rightarrow> Leave (Return PARSE_CONTINUE) c bs
      | b # bs' \<Rightarrow>
          if m_cs c = CS_HEADER then header_round vis c b bs'
          else if length bs < m_trail c then Leave (Return PARSE_CONTINUE) c bs
          else trail_round vis c (take (m_trail c) bs) (drop (m_trail c) bs))"

definition state_rank :: "unpack_state \<Rightarrow> nat" where
  "state_rank cs =
     (if cs = CS_HEADER then 0 else if cs \<in> {ACS_STR_VALUE, ACS_BIN_VALUE, ACS_EXT_VALUE} then 1 else 2)"

lemma after_visit_Again:
  "after_visit vis call c rest = Again c' bs \<Longrightarrow> bs = rest \<and> m_cs c' = CS_HEADER"
  by (auto simp: after_visit_def split: prod.splits outcome.splits bool.splits parse_return.splits)

lemma start_aggregate_Again:
  "start_aggregate vis sv ev type n c rest = Again c' bs \<Longrightarrow> bs = rest \<and> m_cs c' = CS_HEADER"
  by (auto simp: start_aggregate_def Let_def split: prod.splits outcome.splits parse_return.splits)

lemma report_error_Again: "report_error vis c bs \<noteq> Again c' bs'"
  by (auto simp: report_error_def split: prod.splits outcome.splits)

lemma header_round_Again: "header_round vis c b bs = Again c' bs' \<Longrightarrow> bs' = bs"
  by (auto simp: header_round_def Let_def start_array_def start_map_def report_error_Again
      dest: after_visit_Again start_aggregate_Again split: if_splits prod.splits)

lemma sized_Again:
  "sized vis call cs n c rest = Again c' bs \<Longrightarrow> bs = rest \<and> m_cs c' \<in> {CS_HEADER, cs}"
  by (auto simp: sized_def dest: after_visit_Again split: if_splits)

lemma trail_round_Again:
  assumes "trail_round vis c payload rest = Again c' bs" and "m_cs c \<noteq> CS_HEADER"
  shows "bs = rest \<and> state_rank (m_cs c') < state_rank (m_cs c)"
  using assms
  by (cases "m_cs c")
     (auto simp: trail_round_def whole_def start_array_def start_map_def state_rank_def
       dest: after_visit_Again start_aggregate_Again sized_Again)

lemma parse_round_Again:
  "parse_round vis c bs = Again c' bs' \<Longrightarrow>
     length bs' < length bs \<or> length bs' = length bs \<and> state_rank (m_cs c') < state_rank (m_cs c)"
  by (auto simp: parse_round_def dest!: header_round_Again trail_round_Again split: list.splits if_splits)

function execute :: "'v visitor \<Rightarrow> 'v parse_context \<Rightarrow> octets \<Rightarrow> parse_return outcome \<times> 'v parse_context \<times> octets" where
  "execute vis c bs =
     (case parse_round vis c bs of
        Again c' bs' \<Rightarrow> execute vis c' bs'
      | Leave ret c' bs' \<Rightarrow> (ret, c', bs'))"
  by pat_completeness auto
termination
  by (relation "measures [\<lambda>(vis, c, bs). length bs, \<lambda>(vis, c, bs). state_rank (m_cs c)]")
     (auto dest!: parse_round_Again)

declare execute.simps [simp del]

text \<open>\<^verbatim>\<open>parse_imp\<close> on a buffer from an offset on: the result, and the bytes that are left.\<close>

definition parse_imp :: "'v visitor \<Rightarrow> octets \<Rightarrow> 'v \<Rightarrow> parse_return outcome \<times> 'v \<times> octets" where
  "parse_imp vis bs v =
     (if bs = [] then
        (case vis Insufficient_bytes v of
           (Return _, v') \<Rightarrow> (Return PARSE_CONTINUE, v', bs)
         | (Throw msg, v') \<Rightarrow> (Throw msg, v', bs)
         | (Block, v') \<Rightarrow> (Block, v', bs)
         | (Crash, v') \<Rightarrow> (Crash, v', bs))
      else case execute vis (new_context v) bs of
        (Return PARSE_CONTINUE, c, rest) \<Rightarrow>
          (case vis Insufficient_bytes (m_visitor c) of
             (Return _, v') \<Rightarrow> (Return PARSE_CONTINUE, v', rest)
           | (Throw msg, v') \<Rightarrow> (Throw msg, v', rest)
           | (Block, v') \<Rightarrow> (Block, v', rest)
           | (Crash, v') \<Rightarrow> (Crash, v', rest))
      | (Return PARSE_SUCCESS, c, rest) \<Rightarrow>
          (Return (if rest \<noteq> [] then PARSE_EXTRA_BYTES else PARSE_SUCCESS), m_visitor c, rest)
      | (ret, c, rest) \<Rightarrow> (ret, m_visitor c, bs))"

section \<open>Buffers that arrive in pieces\<close>

fun map_rest :: "(octets \<Rightarrow> octets) \<Rightarrow> 'v round \<Rightarrow> 'v round" where
  "map_rest f (Again c bs) = Again c (f bs)"
| "map_rest f (Leave ret c bs) = Leave ret c (f bs)"

text \<open>A round does not look behind the bytes it uses, and it asks for more bytes only when it changed nothing.\<close>

definition asks_more :: "'v round \<Rightarrow> bool" where
  "asks_more r \<longleftrightarrow> (\<exists>c bs. r = Leave (Return PARSE_CONTINUE) c bs)"

lemma after_visit_append:
  "after_visit vis call c (rest @ ys) = map_rest (\<lambda>bs. bs @ ys) (after_visit vis call c rest)"
  "\<not> asks_more (after_visit vis call c rest)"
  by (auto simp: after_visit_def asks_more_def split: prod.splits outcome.splits bool.splits parse_return.splits)

lemma start_aggregate_append:
  "start_aggregate vis sv ev type n c (rest @ ys) = map_rest (\<lambda>bs. bs @ ys) (start_aggregate vis sv ev type n c rest)"
  "\<not> asks_more (start_aggregate vis sv ev type n c rest)"
  by (auto simp: start_aggregate_def asks_more_def Let_def split: prod.splits outcome.splits parse_return.splits)

lemma report_error_append:
  "report_error vis c (bs @ ys) = map_rest (\<lambda>bs. bs @ ys) (report_error vis c bs)"
  "\<not> asks_more (report_error vis c bs)"
  by (auto simp: report_error_def asks_more_def split: prod.splits outcome.splits)

lemma Again_no_more: "\<not> asks_more (Again c bs)"
  by (simp add: asks_more_def)

lemmas round_append = after_visit_append start_aggregate_append report_error_append Again_no_more

lemma header_round_append:
  "header_round vis c b (bs @ ys) = map_rest (\<lambda>bs. bs @ ys) (header_round vis c b bs)"
  "\<not> asks_more (header_round vis c b bs)"
  using report_error_append(1) [of vis c "b # bs" ys]
  by (auto simp: header_round_def Let_def start_array_def start_map_def round_append split: prod.splits)

lemma trail_round_append:
  "trail_round vis c payload (rest @ ys) = map_rest (\<lambda>bs. bs @ ys) (trail_round vis c payload rest)"
  "\<not> asks_more (trail_round vis c payload rest)"
  by (cases "m_cs c"; simp add: trail_round_def whole_def sized_def start_array_def start_map_def round_append)+

lemma parse_round_trail:
  "bs \<noteq> [] \<Longrightarrow> m_cs c \<noteq> CS_HEADER \<Longrightarrow> m_trail c \<le> length bs \<Longrightarrow>
     parse_round vis c bs = trail_round vis c (take (m_trail c) bs) (drop (m_trail c) bs)"
  by (cases bs) (simp_all add: parse_round_def)

lemma parse_round_append:
  assumes "\<not> asks_more (parse_round vis c bs)"
  shows "parse_round vis c (bs @ ys) = map_rest (\<lambda>bs. bs @ ys) (parse_round vis c bs)"
proof (cases bs)
  case Nil
  with assms show ?thesis by (simp add: parse_round_def asks_more_def)
next
  case (Cons b bs')
  show ?thesis
  proof (cases "m_cs c = CS_HEADER")
    case True
    with Cons show ?thesis by (simp add: parse_round_def header_round_append)
  next
    case False
    with assms Cons have "m_trail c \<le> length bs" by (auto simp: parse_round_def asks_more_def split: if_splits)
    with False Cons show ?thesis
      by (simp add: parse_round_trail trail_round_append del: append_Cons)
  qed
qed

lemma parse_round_more:
  assumes "asks_more (parse_round vis c bs)"
  shows "parse_round vis c bs = Leave (Return PARSE_CONTINUE) c bs"
  using assms
  by (cases bs) (auto simp: parse_round_def header_round_append(2) trail_round_append(2) split: if_splits)

definition go :: "'v visitor \<Rightarrow> 'v round \<Rightarrow> parse_return outcome \<times> 'v parse_context \<times> octets" where
  "go vis r = (case r of Again c bs \<Rightarrow> execute vis c bs | Leave ret c bs \<Rightarrow> (ret, c, bs))"

lemma go_simps [simp]:
  "go vis (Again c bs) = execute vis c bs"
  "go vis (Leave ret c bs) = (ret, c, bs)"
  by (simp_all add: go_def)

lemma execute_go: "execute vis c bs = go vis (parse_round vis c bs)"
  by (subst execute.simps) (simp add: go_def)

text \<open>More bytes behind a buffer: the parser goes on where it stopped, or has already ended.\<close>

definition go_on ::
    "'v visitor \<Rightarrow> parse_return outcome \<times> 'v parse_context \<times> octets \<Rightarrow> octets \<Rightarrow> parse_return outcome \<times> 'v parse_context \<times> octets" where
  "go_on vis r ys =
     (case r of (ret, c, rest) \<Rightarrow> if ret = Return PARSE_CONTINUE then execute vis c (rest @ ys) else (ret, c, rest @ ys))"

lemma execute_append: "execute vis c (bs @ ys) = go_on vis (execute vis c bs) ys"
proof (induction vis c bs rule: execute.induct)
  case (1 vis c bs)
  show ?case
  proof (cases "asks_more (parse_round vis c bs)")
    case True
    from parse_round_more [OF True] show ?thesis by (simp add: execute_go [of vis c bs] go_on_def)
  next
    case False
    note app = parse_round_append [OF False, of ys]
    show ?thesis
    proof (cases "parse_round vis c bs")
      case (Again c' bs')
      with 1 app show ?thesis by (simp add: execute_go [of vis c])
    next
      case (Leave ret c' bs')
      with app False show ?thesis by (simp add: execute_go [of vis c] go_on_def asks_more_def)
    qed
  qed
qed

lemma execute_empty: "execute vis c [] = (Return PARSE_CONTINUE, c, [])"
  by (simp add: execute_go parse_round_def)

text \<open>A parser that asked for more bytes does nothing until they come.\<close>

lemma execute_waits:
  assumes "execute vis c bs = (Return PARSE_CONTINUE, c', rest)"
  shows "execute vis c' rest = (Return PARSE_CONTINUE, c', rest)"
  using execute_append [of vis c bs "[]"] assms by (simp add: go_on_def)

text \<open>The pieces one after the other, each behind the bytes that were not used yet.\<close>

fun feed :: "'v visitor \<Rightarrow> 'v parse_context \<Rightarrow> octets \<Rightarrow> octets list \<Rightarrow> parse_return outcome \<times> 'v parse_context \<times> octets" where
  "feed vis c rest [] = (Return PARSE_CONTINUE, c, rest)"
| "feed vis c rest (piece # pieces) =
     (case execute vis c (rest @ piece) of
        (ret, c', rest') \<Rightarrow>
          if ret = Return PARSE_CONTINUE then feed vis c' rest' pieces else (ret, c', rest' @ concat pieces))"

lemma feed_concat:
  "execute vis c rest = (Return PARSE_CONTINUE, c, rest) \<Longrightarrow>
     feed vis c rest pieces = execute vis c (rest @ concat pieces)"
proof (induction pieces arbitrary: c rest)
  case (Cons piece pieces)
  obtain ret c' rest' where ex: "execute vis c (rest @ piece) = (ret, c', rest')" by (metis prod_cases3)
  have eq: "execute vis c (rest @ concat (piece # pieces)) = go_on vis (ret, c', rest') (concat pieces)"
    using execute_append [of vis c "rest @ piece" "concat pieces"] ex by simp
  show ?case
  proof (cases "ret = Return PARSE_CONTINUE")
    case True
    with Cons.IH [OF execute_waits] ex eq show ?thesis by (simp add: go_on_def)
  next
    case False
    with ex eq show ?thesis by (simp add: go_on_def)
  qed
qed simp

end
