(* ===== verification/Msgpack_Read.thy ===== *)
theory Msgpack_Read
  imports Msgpack_Parse
begin

text \<open>
  What the parser makes of packed objects: for every visitor that takes the calls which describe an object,
  the bytes \<^verbatim>\<open>pack<object>\<close> writes make the parser do exactly these calls and stop behind the last byte. The
  proof goes through the formats one by one (integers, strings, extensions, arrays, maps) and then over
  the structure of the object.
\<close>

section \<open>The calls that describe an object\<close>

fun object_calls :: "mp_object \<Rightarrow> visit list" where
  "object_calls NIL = [Visit_nil]"
| "object_calls (BOOLEAN b) = [Visit_boolean b]"
| "object_calls (POSITIVE_INTEGER n) = [Visit_positive_integer n]"
| "object_calls (NEGATIVE_INTEGER n) = [Visit_negative_integer n]"
| "object_calls (FLOAT32 f) = [Visit_float32 f]"
| "object_calls (FLOAT64 f) = [Visit_float64 f]"
| "object_calls (STR_VALUE s) = [Visit_str s]"
| "object_calls (BIN s) = [Visit_bin s]"
| "object_calls (EXT t s) = [Visit_ext (t # s)]"
| "object_calls (ARRAY xs) =
     Start_array (count32 xs) # concat (map (\<lambda>x. Start_array_item # object_calls x @ [End_array_item]) xs) @ [End_array]"
| "object_calls (MAP kvs) =
     Start_map (count32 kvs)
     # concat (map (\<lambda>kv. Start_map_key # object_calls (fst kv) @ [End_map_key, Start_map_value]
                          @ object_calls (snd kv) @ [End_map_value]) kvs)
     @ [End_map]"

text \<open>A visitor that takes a list of calls.\<close>

fun runs :: "'v visitor \<Rightarrow> visit list \<Rightarrow> 'v \<Rightarrow> 'v option" where
  "runs vis [] v = Some v"
| "runs vis (call # calls) v =
     (case vis call v of (Return True, v') \<Rightarrow> runs vis calls v' | _ \<Rightarrow> None)"

lemma runs_append: "runs vis (xs @ ys) v = Option.bind (runs vis xs v) (runs vis ys)"
  by (induction xs arbitrary: v) (auto split: prod.splits outcome.splits bool.splits)

lemma runs_Cons_Some:
  "runs vis (call # calls) v = Some v' \<longleftrightarrow> (\<exists>v1. vis call v = (Return True, v1) \<and> runs vis calls v1 = Some v')"
  by (auto split: prod.splits outcome.splits bool.splits)

lemma runs_append_Some:
  "runs vis (xs @ ys) v = Some v' \<longleftrightarrow> (\<exists>v1. runs vis xs v = Some v1 \<and> runs vis ys v1 = Some v')"
  by (simp add: runs_append bind_eq_Some_conv)

declare runs.simps(2) [simp del]

lemmas runs_Some = runs_Cons_Some runs_append_Some

lemma ask_True [simp]: "vis call v = (Return True, v') \<Longrightarrow> ask vis call state v k = k v'"
  by (simp add: ask_def)

text \<open>What follows a complete object: the stack is consumed.\<close>

definition settle_stack :: "'v visitor \<Rightarrow> 'v parse_context \<Rightarrow> octets \<Rightarrow> 'v round" where
  "settle_stack vis c rest =
     (case consume vis (m_stack c) (m_visitor c) of
        (Return PARSE_CONTINUE, st, v') \<Rightarrow> Again (c\<lparr>m_cs := CS_HEADER, m_stack := st, m_visitor := v'\<rparr>) rest
      | (Return ret, st, v') \<Rightarrow> Leave (Return ret) (c\<lparr>m_cs := CS_HEADER, m_stack := st, m_visitor := v'\<rparr>) rest
      | (ex, st, v') \<Rightarrow> Leave ex (c\<lparr>m_stack := st, m_visitor := v'\<rparr>) rest)"

abbreviation at_header :: "nat \<Rightarrow> stack_elem list \<Rightarrow> 'v \<Rightarrow> 'v parse_context" where
  "at_header t st v \<equiv> \<lparr>m_trail = t, m_cs = CS_HEADER, m_stack = st, m_visitor = v\<rparr>"

text \<open>The parser reads the bytes \<open>bs\<close> as a complete object that changes the visitor from \<open>v\<close> to \<open>v'\<close>.\<close>

definition reads :: "'v visitor \<Rightarrow> octets \<Rightarrow> 'v \<Rightarrow> 'v \<Rightarrow> bool" where
  "reads vis bs v v' \<longleftrightarrow>
     (\<forall>t st ys. \<exists>t' cs. execute vis (at_header t st v) (bs @ ys)
        = go vis (settle_stack vis \<lparr>m_trail = t', m_cs = cs, m_stack = st, m_visitor = v'\<rparr> ys))"

lemma after_visit_settle:
  assumes "vis call (m_visitor c) = (Return True, v)"
  shows "after_visit vis call c rest = settle_stack vis (c\<lparr>m_visitor := v\<rparr>) rest"
  using assms by (simp add: after_visit_def settle_stack_def split: prod.splits outcome.splits parse_return.splits)

lemma reads_header:
  assumes "vis call v = (Return True, v')"
    and "\<And>t st ys. \<exists>t' cs. header_round vis (at_header t st v) b ys
           = after_visit vis call \<lparr>m_trail = t', m_cs = cs, m_stack = st, m_visitor = v\<rparr> ys"
  shows "reads vis [b] v v'"
  unfolding reads_def
proof (intro allI)
  fix t st ys
  obtain t' cs where "header_round vis (at_header t st v) b ys
           = after_visit vis call \<lparr>m_trail = t', m_cs = cs, m_stack = st, m_visitor = v\<rparr> ys"
    using assms(2) [of t st ys] by blast
  then have "execute vis (at_header t st v) ([b] @ ys)
      = go vis (settle_stack vis \<lparr>m_trail = t', m_cs = cs, m_stack = st, m_visitor = v'\<rparr> ys)"
    using assms(1) by (simp add: execute_go parse_round_def after_visit_settle)
  then show "\<exists>t' cs. execute vis (at_header t st v) ([b] @ ys)
      = go vis (settle_stack vis \<lparr>m_trail = t', m_cs = cs, m_stack = st, m_visitor = v'\<rparr> ys)" by blast
qed

lemma reads_header_only:
  assumes "vis call v = (Return True, v')"
    and "\<And>t st ys. header_round vis (at_header t st v) b ys = after_visit vis call (at_header t st v) ys"
  shows "reads vis [b] v v'"
  by (rule reads_header [of vis call v v' b, OF assms(1)]) (use assms(2) in blast)

text \<open>A header byte with trailing bytes.\<close>

definition announces :: "u8 \<Rightarrow> nat \<Rightarrow> unpack_state \<Rightarrow> bool" where
  "announces b n cs \<longleftrightarrow>
     0xc4 \<le> unat b \<and> unat b \<le> 0xdf \<and> trail_table ! (unat b - 0xc4) = (n, cs) \<and> 0 < n \<and> cs \<noteq> CS_HEADER"

lemma execute_announced:
  assumes "announces b n cs" and "length payload = n"
  shows "execute vis (at_header t st v) (b # payload @ ys)
       = go vis (trail_round vis \<lparr>m_trail = n, m_cs = cs, m_stack = st, m_visitor = v\<rparr> payload ys)"
proof -
  have "header_round vis (at_header t st v) b (payload @ ys)
      = Again \<lparr>m_trail = n, m_cs = cs, m_stack = st, m_visitor = v\<rparr> (payload @ ys)"
    using assms(1) by (simp add: header_round_def announces_def)
  then have "execute vis (at_header t st v) (b # payload @ ys)
      = execute vis \<lparr>m_trail = n, m_cs = cs, m_stack = st, m_visitor = v\<rparr> (payload @ ys)"
    by (subst execute_go) (simp add: parse_round_def)
  also have "\<dots> = go vis (trail_round vis \<lparr>m_trail = n, m_cs = cs, m_stack = st, m_visitor = v\<rparr> payload ys)"
    using assms by (subst execute_go) (auto simp: parse_round_trail announces_def)
  finally show ?thesis .
qed

lemma reads_announced:
  assumes "announces b n cs" and "length payload = n" and "vis call v = (Return True, v')"
    and "\<And>st ys. trail_round vis \<lparr>m_trail = n, m_cs = cs, m_stack = st, m_visitor = v\<rparr> payload ys
           = after_visit vis call \<lparr>m_trail = n, m_cs = cs, m_stack = st, m_visitor = v\<rparr> ys"
  shows "reads vis (b # payload) v v'"
  unfolding reads_def
  using execute_announced [OF assms(1,2)] assms(3,4)
  by (metis append_Cons after_visit_settle parse_context.select_convs(4) parse_context.update_convs(4))

lemma announced_formats:
  "announces 0xc4 1 CS_BIN_8" "announces 0xc5 2 CS_BIN_16" "announces 0xc6 4 CS_BIN_32"
  "announces 0xc7 1 CS_EXT_8" "announces 0xc8 2 CS_EXT_16" "announces 0xc9 4 CS_EXT_32"
  "announces 0xca 4 CS_FLOAT" "announces 0xcb 8 CS_DOUBLE"
  "announces 0xcc 1 CS_UINT_8" "announces 0xcd 2 CS_UINT_16" "announces 0xce 4 CS_UINT_32" "announces 0xcf 8 CS_UINT_64"
  "announces 0xd0 1 CS_INT_8" "announces 0xd1 2 CS_INT_16" "announces 0xd2 4 CS_INT_32" "announces 0xd3 8 CS_INT_64"
  "announces 0xd4 2 CS_FIXEXT_1" "announces 0xd5 3 CS_FIXEXT_2" "announces 0xd6 5 CS_FIXEXT_4"
  "announces 0xd7 9 CS_FIXEXT_8" "announces 0xd8 17 CS_FIXEXT_16"
  "announces 0xd9 1 CS_STR_8" "announces 0xda 2 CS_STR_16" "announces 0xdb 4 CS_STR_32"
  "announces 0xdc 2 CS_ARRAY_16" "announces 0xdd 4 CS_ARRAY_32" "announces 0xde 2 CS_MAP_16" "announces 0xdf 4 CS_MAP_32"
  by (simp_all add: announces_def trail_table_def)

section \<open>Reading integers\<close>

lemma low_bytes_length [simp]: "length (low_bytes k i) = k"
  by (simp add: low_bytes_def)

lemma be_nat_low_bytes: "be_nat (low_bytes k i) = nat (i mod 256 ^ k)"
proof -
  have "0 \<le> i mod 256 ^ k" "i mod 256 ^ k < 256 ^ k" by simp_all
  then have "nat (i mod 256 ^ k) < 256 ^ k" by (simp add: nat_less_iff)
  then show ?thesis by (simp add: low_bytes_def be_nat_be_bytes)
qed

definition int_visit :: "int \<Rightarrow> visit" where
  "int_visit i = (if i < 0 then Visit_negative_integer (word_of_int i) else Visit_positive_integer (word_of_int i))"

text \<open>A number that was cut to \<open>k\<close> bytes is the same number again when it fits.\<close>

lemma word_of_low_unsigned:
  "0 \<le> i \<Longrightarrow> i < 256 ^ k \<Longrightarrow> word_of_nat (be_nat (low_bytes k i)) = (word_of_int i :: 'a::len word)"
  by (simp add: be_nat_low_bytes)

lemma word_of_low_signed:
  assumes "256 ^ k = (2 :: int) ^ LENGTH('a)" and "- (2 ^ (LENGTH('a) - 1)) \<le> i" and "i < 2 ^ (LENGTH('a) - 1)"
  shows "(scast (word_of_nat (be_nat (low_bytes k i)) :: 'a::len word) :: 'b::len word) = word_of_int i"
proof -
  have "(word_of_nat (be_nat (low_bytes k i)) :: 'a word) = word_of_int i"
    using assms(1) by (simp add: be_nat_low_bytes word_of_int_eq_iff take_bit_eq_mod)
  moreover have "sint (word_of_int i :: 'a word) = i"
    unfolding sint_sbintrunc' by (rule signed_take_bit_int_eq_self [OF assms(2,3)])
  ultimately show ?thesis by (simp only: scast_eq)
qed

lemma reads_encode_int:
  assumes "- (2 ^ 63) \<le> i" and "i < 2 ^ 64" and "vis (int_visit i) v = (Return True, v')"
  shows "reads vis (encode_int i) v v'"
proof -
  note ann = reads_announced [where vis = vis and v = v and v' = v' and call = "int_visit i" and payload = "low_bytes _ i"]
  consider "i < - (2 ^ 31)" | "- (2 ^ 31) \<le> i" "i < - (2 ^ 15)" | "- (2 ^ 15) \<le> i" "i < - (2 ^ 7)"
    | "- (2 ^ 7) \<le> i" "i < - (2 ^ 5)" | "- (2 ^ 5) \<le> i" "i < 0" | "0 \<le> i" "i < 2 ^ 7" | "2 ^ 7 \<le> i" "i < 2 ^ 8"
    | "2 ^ 8 \<le> i" "i < 2 ^ 16" | "2 ^ 16 \<le> i" "i < 2 ^ 32" | "2 ^ 32 \<le> i" by linarith
  then show ?thesis
  proof cases
    case 1
    have "(word_of_nat (be_nat (low_bytes 8 i)) :: u64) = word_of_int i"
      by (simp add: be_nat_low_bytes word_of_int_eq_iff take_bit_eq_mod)
    with 1 show ?thesis
      by (simp only: encode_int_cases) (rule ann [OF announced_formats(16)], use assms in \<open>auto simp: trail_round_def int_visit_def\<close>)
  next
    case 2
    with word_of_low_signed [where 'a = 32 and 'b = 64, of 4 i] assms(3) show ?thesis
      by (simp only: encode_int_cases) (rule ann [OF announced_formats(15)], auto simp: trail_round_def int_visit_def)
  next
    case 3
    with word_of_low_signed [where 'a = 16 and 'b = 64, of 2 i] assms(3) show ?thesis
      by (simp only: encode_int_cases) (rule ann [OF announced_formats(14)], auto simp: trail_round_def int_visit_def)
  next
    case 4
    with word_of_low_signed [where 'a = 8 and 'b = 64, of 1 i] assms(3) show ?thesis
      by (simp only: encode_int_cases) (rule ann [OF announced_formats(13)], auto simp: trail_round_def int_visit_def)
  next
    case 5
    let ?b = "word_of_int i :: u8"
    have "i mod 256 = i + 256" using 5 mod_pos_pos_trivial [of "i + 256" 256] by simp
    then have "224 \<le> unat ?b" using 5 by (simp add: unat_word_of_int)
    moreover have "(scast ?b :: u64) = word_of_int i"
    proof -
      have "sint ?b = i" unfolding sint_sbintrunc' by (rule signed_take_bit_int_eq_self) (use 5 in simp_all)
      then show ?thesis by (simp only: scast_eq)
    qed
    ultimately have "reads vis [?b] v v'"
      using assms(3) 5 by (intro reads_header [of vis "int_visit i"]) (auto simp: header_round_def int_visit_def)
    with 5 encode_int_cases(5) [of i] show ?thesis by (simp add: low_byte del: One_nat_def)
  next
    case 6
    let ?b = "word_of_int i :: u8"
    have "unat ?b < 128" using 6 by (simp add: unat_word_of_int nat_less_iff)
    moreover have "(ucast ?b :: u64) = word_of_int i"
      using 6 by (subst ucast_eq) (simp add: uint_word_of_int)
    ultimately have "reads vis [?b] v v'"
      using assms(3) 6 by (intro reads_header [of vis "int_visit i"]) (auto simp: header_round_def int_visit_def)
    with 6 encode_int_cases(5) [of i] show ?thesis by (simp add: low_byte del: One_nat_def)
  next
    case 7
    with word_of_low_unsigned [where 'a = 64, of i 1] assms(3) show ?thesis
      by (simp only: encode_int_cases) (rule ann [OF announced_formats(9)], auto simp: trail_round_def int_visit_def)
  next
    case 8
    with word_of_low_unsigned [where 'a = 64, of i 2] assms(3) show ?thesis
      by (simp only: encode_int_cases) (rule ann [OF announced_formats(10)], auto simp: trail_round_def int_visit_def)
  next
    case 9
    with word_of_low_unsigned [where 'a = 64, of i 4] assms(3) show ?thesis
      by (simp only: encode_int_cases) (rule ann [OF announced_formats(11)], auto simp: trail_round_def int_visit_def)
  next
    case 10
    with word_of_low_unsigned [where 'a = 64, of i 8] assms(2,3) show ?thesis
      by (simp only: encode_int_cases) (rule ann [OF announced_formats(12)], auto simp: trail_round_def int_visit_def)
  qed
qed

section \<open>Reading strings\<close>

lemma unat_count32 [simp]: "length xs < 2 ^ 32 \<Longrightarrow> unat (count32 xs) = length xs"
  by (simp add: count32_def unat_of_nat)

lemma be_nat_length: "n < 256 ^ k \<Longrightarrow> be_nat (be_bytes k n) = n"
  by (simp add: be_nat_be_bytes)

lemma reads_sized:
  assumes "announces b k cs" and "length payload = k" and "length s < 2 ^ 32" and "acs \<noteq> CS_HEADER"
    and "vis (call s) v = (Return True, v')"
    and "\<And>st ys. trail_round vis \<lparr>m_trail = k, m_cs = cs, m_stack = st, m_visitor = v\<rparr> payload ys
           = sized vis call acs (length s) \<lparr>m_trail = k, m_cs = cs, m_stack = st, m_visitor = v\<rparr> ys"
    and "\<And>c s ys. m_cs c = acs \<Longrightarrow> trail_round vis c s ys = whole vis call s c ys"
  shows "reads vis (b # payload @ s) v v'"
  unfolding reads_def
proof (intro allI)
  fix t st ys
  let ?c = "\<lparr>m_trail = k, m_cs = cs, m_stack = st, m_visitor = v\<rparr>"
  have ex: "execute vis (at_header t st v) ((b # payload @ s) @ ys) = go vis (sized vis call acs (length s) ?c (s @ ys))"
    using execute_announced [OF assms(1,2), of vis t st v "s @ ys"] assms(6) by simp
  show "\<exists>t' cs'. execute vis (at_header t st v) ((b # payload @ s) @ ys)
      = go vis (settle_stack vis \<lparr>m_trail = t', m_cs = cs', m_stack = st, m_visitor = v'\<rparr> ys)"
  proof (cases "s = []")
    case True
    with ex assms(5) show ?thesis by (auto simp: sized_def after_visit_settle)
  next
    case False
    let ?d = "\<lparr>m_trail = length s, m_cs = acs, m_stack = st, m_visitor = v\<rparr>"
    have "unat (word_of_nat (length s) :: u32) = length s" using assms(3) by (simp add: unat_of_nat)
    then have "whole vis call s ?d ys = settle_stack vis (?d\<lparr>m_visitor := v'\<rparr>) ys"
      using assms(5) by (simp add: whole_def after_visit_settle)
    moreover have "execute vis ?d (s @ ys) = go vis (trail_round vis ?d s ys)"
      using False assms(4) by (simp add: execute_go [of vis ?d] parse_round_trail)
    ultimately have "execute vis ?d (s @ ys) = go vis (settle_stack vis (?d\<lparr>m_visitor := v'\<rparr>) ys)"
      using assms(7) [of ?d] by simp
    with ex False show ?thesis by (auto simp: sized_def)
  qed
qed

text \<open>The header bytes that hold a small count.\<close>

lemma fix_counts:
  "n < 32 \<Longrightarrow> unat (ucast (0xa0 OR word_of_nat n :: u32) :: u8) = 0xa0 + n"
  "n < 16 \<Longrightarrow> unat (ucast (0x90 OR word_of_nat n :: u32) :: u8) = 0x90 + n"
  "n < 16 \<Longrightarrow> unat (ucast (0x80 OR word_of_nat n :: u32) :: u8) = 0x80 + n"
proof -
  have "\<forall>n \<in> set [0..<32]. unat (ucast (0xa0 OR word_of_nat n :: u32) :: u8) = 0xa0 + n" by code_simp
  then show "n < 32 \<Longrightarrow> unat (ucast (0xa0 OR word_of_nat n :: u32) :: u8) = 0xa0 + n" by auto
  have "\<forall>n \<in> set [0..<16]. unat (ucast (0x90 OR word_of_nat n :: u32) :: u8) = 0x90 + n" by code_simp
  then show "n < 16 \<Longrightarrow> unat (ucast (0x90 OR word_of_nat n :: u32) :: u8) = 0x90 + n" by auto
  have "\<forall>n \<in> set [0..<16]. unat (ucast (0x80 OR word_of_nat n :: u32) :: u8) = 0x80 + n" by code_simp
  then show "n < 16 \<Longrightarrow> unat (ucast (0x80 OR word_of_nat n :: u32) :: u8) = 0x80 + n" by auto
qed

lemma fix_mods:
  "n < 32 \<Longrightarrow> (160 + n) mod 32 = (n :: nat)"
  "n < 16 \<Longrightarrow> (144 + n) mod 16 = (n :: nat)"
  "n < 16 \<Longrightarrow> (128 + n) mod 16 = (n :: nat)"
  using mod_mult_self3 [of 5 32 n] mod_mult_self3 [of 9 16 n] mod_mult_self3 [of 8 16 n] by simp_all

lemma unat_ucast_mod: "unat (ucast w :: 'b::len word) = unat w mod 2 ^ LENGTH('b)"
  by (simp add: unsigned_ucast_eq unsigned_take_bit_eq take_bit_eq_mod)

lemma stored_counts:
  "length xs < 2 ^ 8 \<Longrightarrow> [ucast (count32 xs)] = be_bytes 1 (length xs)"
  "length xs < 2 ^ 16 \<Longrightarrow> msgpack_store16 (ucast (count32 xs)) = be_bytes 2 (length xs)"
  "length xs < 2 ^ 32 \<Longrightarrow> msgpack_store32 (count32 xs) = be_bytes 4 (length xs)"
  by (simp_all add: msgpack_store16_def msgpack_store32_def count32_def unat_of_nat word_unat_eq_iff unat_ucast_mod)

lemma count32_less:
  "length xs < 2 ^ 32 \<Longrightarrow> count32 xs < 16 \<longleftrightarrow> length xs < 16"
  "length xs < 2 ^ 32 \<Longrightarrow> count32 xs < 32 \<longleftrightarrow> length xs < 32"
  "length xs < 2 ^ 32 \<Longrightarrow> count32 xs < 256 \<longleftrightarrow> length xs < 256"
  "length xs < 2 ^ 32 \<Longrightarrow> count32 xs < 65536 \<longleftrightarrow> length xs < 65536"
  by (simp_all add: word_less_nat_alt)

lemma reads_fixstr:
  assumes "unat b = 0xa0 + length s" and "length s < 32" and "vis (Visit_str s) v = (Return True, v')"
  shows "reads vis (b # s) v v'"
proof (cases "s = []")
  case True
  with assms have "reads vis [b] v v'"
    by (intro reads_header [of vis "Visit_str []"]) (auto simp: header_round_def Let_def)
  with True show ?thesis by simp
next
  case False
  have small: "unat (word_of_nat (length s) :: u32) = length s" using assms(2) by (simp add: unat_of_nat)
  have "execute vis (at_header t st v) ((b # s) @ ys)
      = go vis (settle_stack vis \<lparr>m_trail = length s, m_cs = ACS_STR_VALUE, m_stack = st, m_visitor = v'\<rparr> ys)" for t st ys
  proof -
    let ?d = "\<lparr>m_trail = length s, m_cs = ACS_STR_VALUE, m_stack = st, m_visitor = v\<rparr>"
    have "header_round vis (at_header t st v) b (s @ ys) = Again ?d (s @ ys)"
      using assms(1,2) False by (simp add: header_round_def Let_def fix_mods)
    then have "execute vis (at_header t st v) ((b # s) @ ys) = execute vis ?d (s @ ys)"
      by (simp add: execute_go [of vis "at_header t st v"] parse_round_def)
    also have "\<dots> = go vis (trail_round vis ?d s ys)"
      using False by (simp add: execute_go [of vis ?d] parse_round_trail)
    finally show ?thesis
      using assms(3) small by (simp add: trail_round_def whole_def after_visit_settle)
  qed
  then show ?thesis unfolding reads_def by blast
qed

lemma reads_str:
  assumes "length s < 2 ^ 32" and "vis (Visit_str s) v = (Return True, v')"
  shows "reads vis (pack_str (count32 s) @ s) v v'"
proof -
  note szd = reads_sized [where vis = vis and s = s and call = Visit_str and acs = ACS_STR_VALUE and v = v and v' = v']
  consider "length s < 32" | "\<not> length s < 32" "length s < 2 ^ 8" | "2 ^ 8 \<le> length s" "length s < 2 ^ 16" | "2 ^ 16 \<le> length s"
    by linarith
  then show ?thesis
  proof cases
    case 1
    with assms reads_fixstr [of "ucast (0xa0 OR count32 s)" s vis v v'] fix_counts(1) [of "length s"] show ?thesis
      by (simp add: pack_str_def count32_less) (simp add: count32_def)
  next
    case 2
    with assms have "pack_str (count32 s) = 0xd9 # be_bytes 1 (length s)"
      by (simp add: pack_str_def count32_less stored_counts(1) del: be_bytes.simps One_nat_def)
    with 2 assms show ?thesis
      by (auto intro!: szd [OF announced_formats(22)] simp: trail_round_def be_nat_length simp del: be_bytes.simps)
  next
    case 3
    with assms have "pack_str (count32 s) = 0xda # be_bytes 2 (length s)"
      by (simp add: pack_str_def count32_less stored_counts(2))
    with 3 assms show ?thesis
      by (auto intro!: szd [OF announced_formats(23)] simp: trail_round_def be_nat_length)
  next
    case 4
    with assms have "pack_str (count32 s) = 0xdb # be_bytes 4 (length s)"
      by (simp add: pack_str_def count32_less stored_counts(3))
    with 4 assms show ?thesis
      by (auto intro!: szd [OF announced_formats(24)] simp: trail_round_def be_nat_length)
  qed
qed

lemma reads_bin:
  assumes "length s < 2 ^ 32" and "vis (Visit_bin s) v = (Return True, v')"
  shows "reads vis (pack_bin (count32 s) @ s) v v'"
proof -
  note szd = reads_sized [where vis = vis and s = s and call = Visit_bin and acs = ACS_BIN_VALUE and v = v and v' = v']
  consider "length s < 2 ^ 8" | "2 ^ 8 \<le> length s" "length s < 2 ^ 16" | "2 ^ 16 \<le> length s" by linarith
  then show ?thesis
  proof cases
    case 1
    with assms have "pack_bin (count32 s) = 0xc4 # be_bytes 1 (length s)"
      by (simp add: pack_bin_def count32_less stored_counts(1) del: be_bytes.simps One_nat_def)
    with 1 assms show ?thesis
      by (auto intro!: szd [OF announced_formats(1)] simp: trail_round_def be_nat_length simp del: be_bytes.simps)
  next
    case 2
    with assms have "pack_bin (count32 s) = 0xc5 # be_bytes 2 (length s)"
      by (simp add: pack_bin_def count32_less stored_counts(2))
    with 2 assms show ?thesis
      by (auto intro!: szd [OF announced_formats(2)] simp: trail_round_def be_nat_length)
  next
    case 3
    with assms have "pack_bin (count32 s) = 0xc6 # be_bytes 4 (length s)"
      by (simp add: pack_bin_def count32_less stored_counts(3))
    with 3 assms show ?thesis
      by (auto intro!: szd [OF announced_formats(3)] simp: trail_round_def be_nat_length)
  qed
qed

lemma unat_count64: "length s < 2 ^ 32 \<Longrightarrow> unat (ucast (count32 s) :: u64) = length s"
  by (simp add: unat_ucast_mod)

lemma stored_counts64:
  fixes s :: octets
  defines "l \<equiv> ucast (count32 s) :: u64"
  shows "length s < 2 ^ 8 \<Longrightarrow> [ucast l] = be_bytes 1 (length s)"
    "length s < 2 ^ 16 \<Longrightarrow> msgpack_store16 (ucast l) = be_bytes 2 (length s)"
    "length s < 2 ^ 32 \<Longrightarrow> msgpack_store32 (ucast l) = be_bytes 4 (length s)"
  by (simp_all add: l_def msgpack_store16_def msgpack_store32_def count32_def unat_of_nat word_unat_eq_iff unat_ucast_mod)

lemma pack_ext_cases:
  fixes s :: octets
  assumes "length s < 2 ^ 32"
  shows "pack_ext (ucast (count32 s)) t =
    (if length s = 1 then [0xd4, t] else if length s = 2 then [0xd5, t] else if length s = 4 then [0xd6, t]
     else if length s = 8 then [0xd7, t] else if length s = 16 then [0xd8, t]
     else if length s < 2 ^ 8 then 0xc7 # be_bytes 1 (length s) @ [t]
     else if length s < 2 ^ 16 then 0xc8 # be_bytes 2 (length s) @ [t]
     else 0xc9 # be_bytes 4 (length s) @ [t])"
proof -
  let ?l = "ucast (count32 s) :: u64"
  have "?l = 1 \<longleftrightarrow> length s = 1" "?l = 2 \<longleftrightarrow> length s = 2" "?l = 4 \<longleftrightarrow> length s = 4" "?l = 8 \<longleftrightarrow> length s = 8"
    "?l = 16 \<longleftrightarrow> length s = 16" "?l < 256 \<longleftrightarrow> length s < 256" "?l < 65536 \<longleftrightarrow> length s < 65536"
    using assms by (simp_all add: word_unat_eq_iff word_less_nat_alt unat_count64)
  moreover have "length s < 256 \<Longrightarrow> [ucast ?l, t] = be_bytes 1 (length s) @ [t]"
    using stored_counts64(1) [of s] by (simp add: append_eq_Cons_conv)
  ultimately show ?thesis
    using assms stored_counts64(2,3) [of s] by (simp add: pack_ext_def del: be_bytes.simps One_nat_def)
qed

lemma reads_ext:
  assumes "length s < 2 ^ 32 - 1" and "vis (Visit_ext (t # s)) v = (Return True, v')"
  shows "reads vis (pack_ext (ucast (count32 s)) t @ s) v v'"
proof -
  note szd = reads_sized [where vis = vis and s = "t # s" and call = Visit_ext and acs = ACS_EXT_VALUE and v = v and v' = v']
  note ann = reads_announced [where vis = vis and call = "Visit_ext (t # s)" and payload = "t # s" and v = v and v' = v']
  have pe: "length s < 2 ^ 32" using assms(1) by simp
  consider "length s \<in> {1, 2, 4, 8, 16}" | "length s \<notin> {1, 2, 4, 8, 16}" "length s < 2 ^ 8"
    | "2 ^ 8 \<le> length s" "length s < 2 ^ 16" | "2 ^ 16 \<le> length s" by linarith
  then show ?thesis
  proof cases
    case 1
    then show ?thesis
      unfolding pack_ext_cases [OF pe]
      by (auto intro!: ann [OF announced_formats(17)] ann [OF announced_formats(18)] ann [OF announced_formats(19)]
          ann [OF announced_formats(20)] ann [OF announced_formats(21)] simp: trail_round_def assms(2))
  next
    case 2
    then have "pack_ext (ucast (count32 s)) t @ s = 0xc7 # be_bytes 1 (length s) @ (t # s)"
      unfolding pack_ext_cases [OF pe] by simp
    with 2 assms show ?thesis
      by (auto intro!: szd [OF announced_formats(4)] simp: trail_round_def be_nat_length simp del: be_bytes.simps)
  next
    case 3
    then have "pack_ext (ucast (count32 s)) t @ s = 0xc8 # be_bytes 2 (length s) @ (t # s)"
      unfolding pack_ext_cases [OF pe] by simp
    with 3 assms show ?thesis
      by (auto intro!: szd [OF announced_formats(5)] simp: trail_round_def be_nat_length)
  next
    case 4
    then have "pack_ext (ucast (count32 s)) t @ s = 0xc9 # be_bytes 4 (length s) @ (t # s)"
      unfolding pack_ext_cases [OF pe] by simp
    with 4 assms show ?thesis
      by (auto intro!: szd [OF announced_formats(6)] simp: trail_round_def be_nat_length)
  qed
qed

section \<open>Reading arrays and maps\<close>

text \<open>A count in the header, for arrays and for maps.\<close>

lemma execute_array_header:
  assumes "length xs < 2 ^ 32"
  shows "\<exists>t' cs. execute vis (at_header t st v) (pack_array (count32 xs) @ ys)
       = go vis (start_array vis (count32 xs) \<lparr>m_trail = t', m_cs = cs, m_stack = st, m_visitor = v\<rparr> ys) \<and> (xs = [] \<longrightarrow> cs = CS_HEADER)"
proof -
  consider "length xs < 16" | "16 \<le> length xs" "length xs < 2 ^ 16" | "2 ^ 16 \<le> length xs" by linarith
  then show ?thesis
  proof cases
    case 1
    let ?b = "ucast (0x90 OR count32 xs) :: u8"
    have b: "unat ?b = 0x90 + length xs" using fix_counts(2) [OF 1] by (simp add: count32_def)
    with 1 have "header_round vis (at_header t st v) ?b ys = start_array vis (count32 xs) (at_header t st v) ys"
      by (simp add: header_round_def Let_def count32_def fix_mods)
    with 1 assms show ?thesis
      by (intro exI [of _ t] exI [of _ CS_HEADER])
         (simp add: pack_array_def count32_less execute_go parse_round_def)
  next
    case 2
    with assms have "pack_array (count32 xs) = 0xdc # be_bytes 2 (length xs)"
      by (simp add: pack_array_def count32_less stored_counts(2))
    moreover have "xs \<noteq> []" using 2 by auto
    ultimately show ?thesis
      using execute_announced [OF announced_formats(25), of "be_bytes 2 (length xs)" vis t st v ys] 2
      by (auto simp: trail_round_def be_nat_length count32_def)
  next
    case 3
    with assms have "pack_array (count32 xs) = 0xdd # be_bytes 4 (length xs)"
      by (simp add: pack_array_def count32_less stored_counts(3))
    moreover have "xs \<noteq> []" using 3 by auto
    ultimately show ?thesis
      using execute_announced [OF announced_formats(26), of "be_bytes 4 (length xs)" vis t st v ys] assms
      by (auto simp: trail_round_def be_nat_length count32_def)
  qed
qed

lemma execute_map_header:
  assumes "length xs < 2 ^ 32"
  shows "\<exists>t' cs. execute vis (at_header t st v) (pack_map (count32 xs) @ ys)
       = go vis (start_map vis (count32 xs) \<lparr>m_trail = t', m_cs = cs, m_stack = st, m_visitor = v\<rparr> ys) \<and> (xs = [] \<longrightarrow> cs = CS_HEADER)"
proof -
  consider "length xs < 16" | "16 \<le> length xs" "length xs < 2 ^ 16" | "2 ^ 16 \<le> length xs" by linarith
  then show ?thesis
  proof cases
    case 1
    let ?b = "ucast (0x80 OR count32 xs) :: u8"
    have b: "unat ?b = 0x80 + length xs" using fix_counts(3) [OF 1] by (simp add: count32_def)
    with 1 have "header_round vis (at_header t st v) ?b ys = start_map vis (count32 xs) (at_header t st v) ys"
      by (simp add: header_round_def Let_def count32_def fix_mods)
    with 1 assms show ?thesis
      by (intro exI [of _ t] exI [of _ CS_HEADER])
         (simp add: pack_map_def count32_less execute_go parse_round_def)
  next
    case 2
    with assms have "pack_map (count32 xs) = 0xde # be_bytes 2 (length xs)"
      by (simp add: pack_map_def count32_less stored_counts(2))
    moreover have "xs \<noteq> []" using 2 by auto
    ultimately show ?thesis
      using execute_announced [OF announced_formats(27), of "be_bytes 2 (length xs)" vis t st v ys] 2
      by (auto simp: trail_round_def be_nat_length count32_def)
  next
    case 3
    with assms have "pack_map (count32 xs) = 0xdf # be_bytes 4 (length xs)"
      by (simp add: pack_map_def count32_less stored_counts(3))
    moreover have "xs \<noteq> []" using 3 by auto
    ultimately show ?thesis
      using execute_announced [OF announced_formats(28), of "be_bytes 4 (length xs)" vis t st v ys] assms
      by (auto simp: trail_round_def be_nat_length count32_def)
  qed
qed

lemma count32_Cons:
  assumes "length (x # xs) < 2 ^ 32"
  shows "count32 (x # xs) - 1 = count32 xs" "count32 xs = 0 \<longleftrightarrow> xs = []"
  using assms by (simp_all add: count32_def word_unat_eq_iff unat_of_nat)

text \<open>The end of an item, with more items to come or as the last one.\<close>

lemma settle_array_item:
  assumes "vis End_array_item v = (Return True, v1)" and "vis Start_array_item v1 = (Return True, v2)" and "n - 1 \<noteq> 0"
  shows "settle_stack vis \<lparr>m_trail = t, m_cs = cs, m_stack = (CT_ARRAY_ITEM, n) # st, m_visitor = v\<rparr> ys
       = Again (at_header t ((CT_ARRAY_ITEM, n - 1) # st) v2) ys"
  using assms by (simp add: settle_stack_def)

lemma settle_array_end:
  assumes "vis End_array_item v = (Return True, v1)" and "vis End_array v1 = (Return True, v2)" and "n - 1 = 0"
  shows "settle_stack vis \<lparr>m_trail = t, m_cs = cs, m_stack = (CT_ARRAY_ITEM, n) # st, m_visitor = v\<rparr> ys
       = settle_stack vis \<lparr>m_trail = t, m_cs = cs, m_stack = st, m_visitor = v2\<rparr> ys"
  using assms by (simp add: settle_stack_def split: prod.splits outcome.splits parse_return.splits)

lemma settle_map_key:
  assumes "vis End_map_key v = (Return True, v1)" and "vis Start_map_value v1 = (Return True, v2)"
  shows "settle_stack vis \<lparr>m_trail = t, m_cs = cs, m_stack = (CT_MAP_KEY, n) # st, m_visitor = v\<rparr> ys
       = Again (at_header t ((CT_MAP_VALUE, n) # st) v2) ys"
  using assms by (simp add: settle_stack_def)

lemma settle_map_value:
  assumes "vis End_map_value v = (Return True, v1)" and "vis Start_map_key v1 = (Return True, v2)" and "n - 1 \<noteq> 0"
  shows "settle_stack vis \<lparr>m_trail = t, m_cs = cs, m_stack = (CT_MAP_VALUE, n) # st, m_visitor = v\<rparr> ys
       = Again (at_header t ((CT_MAP_KEY, n - 1) # st) v2) ys"
  using assms by (simp add: settle_stack_def)

lemma settle_map_end:
  assumes "vis End_map_value v = (Return True, v1)" and "vis End_map v1 = (Return True, v2)" and "n - 1 = 0"
  shows "settle_stack vis \<lparr>m_trail = t, m_cs = cs, m_stack = (CT_MAP_VALUE, n) # st, m_visitor = v\<rparr> ys
       = settle_stack vis \<lparr>m_trail = t, m_cs = cs, m_stack = st, m_visitor = v2\<rparr> ys"
  using assms by (simp add: settle_stack_def split: prod.splits outcome.splits parse_return.splits)

text \<open>An object whose bytes are read when the visitor takes its calls.\<close>

definition readable :: "'v visitor \<Rightarrow> mp_object \<Rightarrow> bool" where
  "readable vis x \<longleftrightarrow> (\<forall>v v'. runs vis (object_calls x) v = Some v' \<longrightarrow> reads vis (pack_object x) v v')"

lemma readableD:
  assumes "readable vis x" and "runs vis (object_calls x) v = Some v'"
  obtains t' cs where "execute vis (at_header t st v) (pack_object x @ ys)
    = go vis (settle_stack vis \<lparr>m_trail = t', m_cs = cs, m_stack = st, m_visitor = v'\<rparr> ys)"
  using assms unfolding readable_def reads_def by blast

abbreviation item_calls :: "mp_object \<Rightarrow> visit list" where
  "item_calls x \<equiv> Start_array_item # object_calls x @ [End_array_item]"

lemma execute_items:
  assumes "list_all (readable vis) xs" and "xs \<noteq> []" and "length xs < 2 ^ 32"
    and "vis Start_array_item v = (Return True, v0)" and "runs vis (concat (map item_calls xs) @ [End_array]) v = Some v'"
  shows "\<exists>t' cs. execute vis (at_header t ((CT_ARRAY_ITEM, count32 xs) # st) v0) (concat (map pack_object xs) @ ys)
       = go vis (settle_stack vis \<lparr>m_trail = t', m_cs = cs, m_stack = st, m_visitor = v'\<rparr> ys)"
  using assms(2,1,3-)
proof (induction xs arbitrary: v v0 t rule: list_nonempty_induct)
  case (single x)
  from single.prems(3,4) obtain v1 v2 where
    run: "runs vis (object_calls x) v0 = Some v1" "vis End_array_item v1 = (Return True, v2)" "vis End_array v2 = (Return True, v')"
    by (auto simp: runs_Some)
  from single.prems(1) have "readable vis x" by simp
  from readableD [OF this run(1), of t "(CT_ARRAY_ITEM, count32 [x]) # st" ys] obtain t' cs where
    ex: "execute vis (at_header t ((CT_ARRAY_ITEM, count32 [x]) # st) v0) (pack_object x @ ys)
     = go vis (settle_stack vis \<lparr>m_trail = t', m_cs = cs, m_stack = (CT_ARRAY_ITEM, count32 [x]) # st, m_visitor = v1\<rparr> ys)"
    by blast
  have "count32 [x] - 1 = 0" by (simp add: count32_def)
  from settle_array_end [OF run(2,3) this] ex show ?case by auto
next
  case (cons x xs)
  from cons.prems(3,4) obtain v1 v2 where
    run: "runs vis (object_calls x) v0 = Some v1" "vis End_array_item v1 = (Return True, v2)"
      "runs vis (concat (map item_calls xs) @ [End_array]) v2 = Some v'"
    by (auto simp: runs_Some)
  from cons(1) run(3) obtain v3 where v3: "vis Start_array_item v2 = (Return True, v3)"
    by (cases xs) (auto simp: runs_Some)
  have "readable vis x" using cons.prems(1) by simp
  from readableD [OF this run(1), of t "(CT_ARRAY_ITEM, count32 (x # xs)) # st" "concat (map pack_object xs) @ ys"] obtain t' cs where
    ex: "execute vis (at_header t ((CT_ARRAY_ITEM, count32 (x # xs)) # st) v0) (pack_object x @ concat (map pack_object xs) @ ys)
     = go vis (settle_stack vis \<lparr>m_trail = t', m_cs = cs, m_stack = (CT_ARRAY_ITEM, count32 (x # xs)) # st, m_visitor = v1\<rparr>
         (concat (map pack_object xs) @ ys))" by blast
  have n: "count32 (x # xs) - 1 = count32 xs" "count32 (x # xs) - 1 \<noteq> 0"
    using count32_Cons [OF cons.prems(2)] cons(1) by simp_all
  from cons.IH [OF _ _ v3 run(3), of t'] cons.prems(1,2) settle_array_item [OF run(2) v3 n(2)] ex n(1) show ?case by simp
qed

abbreviation pair_calls :: "mp_object \<times> mp_object \<Rightarrow> visit list" where
  "pair_calls kv \<equiv> Start_map_key # object_calls (fst kv) @ [End_map_key, Start_map_value]
     @ object_calls (snd kv) @ [End_map_value]"

abbreviation pack_pair :: "mp_object \<times> mp_object \<Rightarrow> octets" where
  "pack_pair kv \<equiv> pack_object (fst kv) @ pack_object (snd kv)"

text \<open>A key and its value, up to the end of the value.\<close>

lemma execute_pair:
  assumes "readable vis (fst kv)" and "readable vis (snd kv)"
    and "runs vis (object_calls (fst kv) @ [End_map_key, Start_map_value] @ object_calls (snd kv)) v = Some v'"
  shows "\<exists>t' cs. execute vis (at_header t ((CT_MAP_KEY, n) # st) v) (pack_pair kv @ ys)
       = go vis (settle_stack vis \<lparr>m_trail = t', m_cs = cs, m_stack = (CT_MAP_VALUE, n) # st, m_visitor = v'\<rparr> ys)"
proof -
  from assms(3) obtain v1 v2 v3 where
    run: "runs vis (object_calls (fst kv)) v = Some v1" "vis End_map_key v1 = (Return True, v2)"
      "vis Start_map_value v2 = (Return True, v3)" "runs vis (object_calls (snd kv)) v3 = Some v'"
    by (auto simp: runs_Some)
  from readableD [OF assms(1) run(1), of t "(CT_MAP_KEY, n) # st" "pack_object (snd kv) @ ys"] obtain t1 cs1 where
    key: "execute vis (at_header t ((CT_MAP_KEY, n) # st) v) (pack_object (fst kv) @ pack_object (snd kv) @ ys)
      = go vis (settle_stack vis \<lparr>m_trail = t1, m_cs = cs1, m_stack = (CT_MAP_KEY, n) # st, m_visitor = v1\<rparr>
          (pack_object (snd kv) @ ys))" by blast
  from readableD [OF assms(2) run(4), of t1 "(CT_MAP_VALUE, n) # st" ys] obtain t2 cs2 where
    "execute vis (at_header t1 ((CT_MAP_VALUE, n) # st) v3) (pack_object (snd kv) @ ys)
      = go vis (settle_stack vis \<lparr>m_trail = t2, m_cs = cs2, m_stack = (CT_MAP_VALUE, n) # st, m_visitor = v'\<rparr> ys)" by blast
  with key settle_map_key [OF run(2,3)] show ?thesis by auto
qed

lemma execute_pairs:
  assumes "list_all (\<lambda>kv. readable vis (fst kv) \<and> readable vis (snd kv)) kvs" and "kvs \<noteq> []" and "length kvs < 2 ^ 32"
    and "vis Start_map_key v = (Return True, v0)" and "runs vis (concat (map pair_calls kvs) @ [End_map]) v = Some v'"
  shows "\<exists>t' cs. execute vis (at_header t ((CT_MAP_KEY, count32 kvs) # st) v0) (concat (map pack_pair kvs) @ ys)
       = go vis (settle_stack vis \<lparr>m_trail = t', m_cs = cs, m_stack = st, m_visitor = v'\<rparr> ys)"
  using assms(2,1,3-)
proof (induction kvs arbitrary: v v0 t rule: list_nonempty_induct)
  case (single kv)
  from single.prems(3,4) obtain v1 v2 where
    run: "runs vis (object_calls (fst kv) @ [End_map_key, Start_map_value] @ object_calls (snd kv)) v0 = Some v1"
      "vis End_map_value v1 = (Return True, v2)" "vis End_map v2 = (Return True, v')"
    by (auto simp: runs_Some)
  from single.prems(1) have "readable vis (fst kv)" "readable vis (snd kv)" by simp_all
  from execute_pair [OF this run(1), of t "count32 [kv]" st ys] obtain t' cs where
    ex: "execute vis (at_header t ((CT_MAP_KEY, count32 [kv]) # st) v0) (pack_pair kv @ ys)
     = go vis (settle_stack vis \<lparr>m_trail = t', m_cs = cs, m_stack = (CT_MAP_VALUE, count32 [kv]) # st, m_visitor = v1\<rparr> ys)"
    by blast
  have "count32 [kv] - 1 = 0" by (simp add: count32_def)
  from settle_map_end [OF run(2,3) this] ex show ?case by auto
next
  case (cons kv kvs)
  from cons.prems(3,4) obtain v1 v2 where
    run: "runs vis (object_calls (fst kv) @ [End_map_key, Start_map_value] @ object_calls (snd kv)) v0 = Some v1"
      "vis End_map_value v1 = (Return True, v2)" "runs vis (concat (map pair_calls kvs) @ [End_map]) v2 = Some v'"
    by (auto simp: runs_Some)
  from cons(1) run(3) obtain v3 where v3: "vis Start_map_key v2 = (Return True, v3)"
    by (cases kvs) (auto simp: runs_Some)
  have "readable vis (fst kv)" "readable vis (snd kv)" using cons.prems(1) by simp_all
  from execute_pair [OF this run(1), of t "count32 (kv # kvs)" st "concat (map pack_pair kvs) @ ys"] obtain t' cs where
    ex: "execute vis (at_header t ((CT_MAP_KEY, count32 (kv # kvs)) # st) v0) (pack_pair kv @ concat (map pack_pair kvs) @ ys)
     = go vis (settle_stack vis \<lparr>m_trail = t', m_cs = cs, m_stack = (CT_MAP_VALUE, count32 (kv # kvs)) # st, m_visitor = v1\<rparr>
         (concat (map pack_pair kvs) @ ys))" by blast
  have n: "count32 (kv # kvs) - 1 = count32 kvs" "count32 (kv # kvs) - 1 \<noteq> 0"
    using count32_Cons [OF cons.prems(2)] cons(1) by simp_all
  from cons.IH [OF _ _ v3 run(3), of t'] cons.prems(1,2) settle_map_value [OF run(2) v3 n(2)] ex n(1) show ?case by simp
qed

section \<open>Reading objects\<close>

text \<open>Containers: without items the end follows at once, otherwise the items are read.\<close>

lemma start_aggregate_empty:
  assumes "vis (sv 0) v = (Return True, v1)" and "vis ev v1 = (Return True, v2)"
  shows "start_aggregate vis sv ev type 0 (at_header t st v) ys
       = settle_stack vis (at_header t st v2) ys"
  using assms by (simp add: start_aggregate_def settle_stack_def split: prod.splits outcome.splits parse_return.splits)

lemma start_array_items:
  assumes "vis (Start_array n) v = (Return True, v1)" and "vis Start_array_item v1 = (Return True, v2)" and "n \<noteq> 0"
  shows "start_array vis n \<lparr>m_trail = t, m_cs = cs, m_stack = st, m_visitor = v\<rparr> ys
       = Again (at_header t ((CT_ARRAY_ITEM, n) # st) v2) ys"
  using assms by (simp add: start_array_def start_aggregate_def stack_push_def)

lemma start_map_items:
  assumes "vis (Start_map n) v = (Return True, v1)" and "vis Start_map_key v1 = (Return True, v2)" and "n \<noteq> 0"
  shows "start_map vis n \<lparr>m_trail = t, m_cs = cs, m_stack = st, m_visitor = v\<rparr> ys
       = Again (at_header t ((CT_MAP_KEY, n) # st) v2) ys"
  using assms by (simp add: start_map_def start_aggregate_def stack_push_def)

lemma count32_zero: "length xs < 2 ^ 32 \<Longrightarrow> count32 xs = 0 \<longleftrightarrow> xs = []"
  by (simp add: word_unat_eq_iff)

lemma readable_array:
  assumes "list_all (readable vis) xs" and "length xs < 2 ^ 32"
  shows "readable vis (ARRAY xs)"
  unfolding readable_def
proof (intro allI impI)
  fix v v'
  assume "runs vis (object_calls (ARRAY xs)) v = Some v'"
  then obtain v1 where
    run: "vis (Start_array (count32 xs)) v = (Return True, v1)" "runs vis (concat (map item_calls xs) @ [End_array]) v1 = Some v'"
    by (auto simp: runs_Some)
  show "reads vis (pack_object (ARRAY xs)) v v'"
    unfolding reads_def
  proof (intro allI)
    fix t st ys
    from execute_array_header [OF assms(2), of vis t st v "concat (map pack_object xs) @ ys"] obtain t1 cs1 where
      head: "execute vis (at_header t st v) (pack_object (ARRAY xs) @ ys)
        = go vis (start_array vis (count32 xs) \<lparr>m_trail = t1, m_cs = cs1, m_stack = st, m_visitor = v\<rparr> (concat (map pack_object xs) @ ys))"
      "xs = [] \<longrightarrow> cs1 = CS_HEADER" by auto
    show "\<exists>t' cs. execute vis (at_header t st v) (pack_object (ARRAY xs) @ ys)
      = go vis (settle_stack vis \<lparr>m_trail = t', m_cs = cs, m_stack = st, m_visitor = v'\<rparr> ys)"
    proof (cases "xs = []")
      case True
      with run have "vis (Start_array 0) v = (Return True, v1)" "vis End_array v1 = (Return True, v')"
        by (auto simp: runs_Some count32_def)
      from start_aggregate_empty [where sv = Start_array, OF this] head True show ?thesis
        by (auto simp: start_array_def count32_def)
    next
      case False
      with run(2) obtain v2 where v2: "vis Start_array_item v1 = (Return True, v2)" by (cases xs) (auto simp: runs_Some)
      have "count32 xs \<noteq> 0" using False assms(2) by (simp add: count32_zero)
      from start_array_items [OF run(1) v2 this] head execute_items [OF assms(1) False assms(2) v2 run(2)] show ?thesis by simp
    qed
  qed
qed

lemma readable_map:
  assumes "list_all (\<lambda>kv. readable vis (fst kv) \<and> readable vis (snd kv)) kvs" and "length kvs < 2 ^ 32"
  shows "readable vis (MAP kvs)"
  unfolding readable_def
proof (intro allI impI)
  fix v v'
  assume "runs vis (object_calls (MAP kvs)) v = Some v'"
  then obtain v1 where
    run: "vis (Start_map (count32 kvs)) v = (Return True, v1)" "runs vis (concat (map pair_calls kvs) @ [End_map]) v1 = Some v'"
    by (auto simp: runs_Some)
  show "reads vis (pack_object (MAP kvs)) v v'"
    unfolding reads_def
  proof (intro allI)
    fix t st ys
    from execute_map_header [OF assms(2), of vis t st v "concat (map pack_pair kvs) @ ys"] obtain t1 cs1 where
      head: "execute vis (at_header t st v) (pack_object (MAP kvs) @ ys)
        = go vis (start_map vis (count32 kvs) \<lparr>m_trail = t1, m_cs = cs1, m_stack = st, m_visitor = v\<rparr> (concat (map pack_pair kvs) @ ys))"
      "kvs = [] \<longrightarrow> cs1 = CS_HEADER" by auto
    show "\<exists>t' cs. execute vis (at_header t st v) (pack_object (MAP kvs) @ ys)
      = go vis (settle_stack vis \<lparr>m_trail = t', m_cs = cs, m_stack = st, m_visitor = v'\<rparr> ys)"
    proof (cases "kvs = []")
      case True
      with run have "vis (Start_map 0) v = (Return True, v1)" "vis End_map v1 = (Return True, v')"
        by (auto simp: runs_Some count32_def)
      from start_aggregate_empty [where sv = Start_map, OF this] head True show ?thesis
        by (auto simp: start_map_def count32_def)
    next
      case False
      with run(2) obtain v2 where v2: "vis Start_map_key v1 = (Return True, v2)" by (cases kvs) (auto simp: runs_Some)
      have "count32 kvs \<noteq> 0" using False assms(2) by (simp add: count32_zero)
      from start_map_items [OF run(1) v2 this] head execute_pairs [OF assms(1) False assms(2) v2 run(2)] show ?thesis by simp
    qed
  qed
qed

lemma readable_scalar:
  "readable vis NIL" "readable vis (BOOLEAN b)" "readable vis (FLOAT32 f)" "readable vis (FLOAT64 d)"
proof -
  show "readable vis NIL"
    by (auto simp: readable_def runs_Some pack_nil_def intro!: reads_header_only [of vis Visit_nil] simp: header_round_def)
  show "readable vis (BOOLEAN b)"
    by (cases b) (auto simp: readable_def runs_Some pack_true_def pack_false_def
        intro!: reads_header_only [of vis "Visit_boolean _"] simp: header_round_def)
  have bits: "be_nat (be_bytes 4 (unat f)) = unat f" "be_nat (be_bytes 8 (unat d)) = unat d"
    using unsigned_less [where ?'a = nat, of f] unsigned_less [where ?'a = nat, of d] by (simp_all add: be_nat_length)
  show "readable vis (FLOAT32 f)"
    by (auto simp: readable_def runs_Some pack_float_def msgpack_store32_def bits trail_round_def
        intro!: reads_announced [OF announced_formats(7), of _ vis "Visit_float32 f"])
  show "readable vis (FLOAT64 d)"
    by (auto simp: readable_def runs_Some pack_double_def msgpack_store64_def bits trail_round_def
        intro!: reads_announced [OF announced_formats(8), of _ vis "Visit_float64 d"])
qed

lemma readable_integer:
  "readable vis (POSITIVE_INTEGER n)" "sint m < 0 \<Longrightarrow> readable vis (NEGATIVE_INTEGER m)"
proof -
  have "int_visit (uint n) = Visit_positive_integer n" by (simp add: int_visit_def)
  then show "readable vis (POSITIVE_INTEGER n)"
    using reads_encode_int [of "uint n" vis] uint_lt2p [of n] uint_ge_0 [of n]
    by (auto simp: readable_def runs_Some pack_uint64_def pack_imp_unsigned)
  assume "sint m < 0"
  then have "int_visit (sint m) = Visit_negative_integer m" by (simp add: int_visit_def)
  with \<open>sint m < 0\<close> show "readable vis (NEGATIVE_INTEGER m)"
    using reads_encode_int [of "sint m" vis] sint_greater_eq [of m]
    by (auto simp: readable_def runs_Some pack_int64_def pack_imp_signed)
qed

lemma object_readable: "object_ok x \<Longrightarrow> readable vis x"
proof (induction x)
  case (ARRAY xs)
  then show ?case by (intro readable_array) (auto simp: list_all_iff)
next
  case (MAP kvs)
  then show ?case by (intro readable_map) (fastforce simp: list_all_iff)+
next
  case (STR_VALUE s)
  then show ?case using reads_str [of s vis] by (auto simp: readable_def runs_Some)
next
  case (BIN s)
  then show ?case using reads_bin [of s vis] by (auto simp: readable_def runs_Some)
next
  case (EXT t s)
  then show ?case using reads_ext [of s vis t] by (auto simp: readable_def runs_Some)
qed (auto simp: readable_scalar readable_integer)

end
