(* ===== verification/Msgpack_Object.thy ===== *)
theory Msgpack_Object
  imports Msgpack_Read
begin

text \<open>
  The visitor that builds objects (\<^verbatim>\<open>rpc/msgpack/v2/create_object_visitor.hpp\<close>). Objects live in memory: an
  array or a map is a cell with a count and the address of the cells of its items, which the zone
  allocates when the container starts; the visitor's stack holds the addresses of the cells to be filled
  next. Strings are copied into the zone, as for a visitor without a reference function. The theory shows
  that parsing a packed object leaves exactly that object in memory, as long as the limits allow it.
\<close>

section \<open>Memory\<close>

text \<open>An extension has the count of its data; the bytes start with the type.\<close>

datatype cell =
    C_NIL
  | C_BOOLEAN bool
  | C_POSITIVE_INTEGER u64
  | C_NEGATIVE_INTEGER u64
  | C_FLOAT32 u32
  | C_FLOAT64 u64
  | C_STR octets
  | C_BIN octets
  | C_EXT u32 octets
  | C_ARRAY u32 nat
  | C_MAP u32 nat

record unpack_limit =
  lim_array :: nat
  lim_map :: nat
  lim_str :: nat
  lim_bin :: nat
  lim_ext :: nat
  lim_depth :: nat

definition default_limit :: unpack_limit where
  "default_limit = \<lparr>lim_array = 0xffffffff, lim_map = 0xffffffff, lim_str = 0xffffffff, lim_bin = 0xffffffff,
     lim_ext = 0xffffffff, lim_depth = 0xffffffff\<rparr>"

record builder =
  cells :: "nat \<Rightarrow> cell"
  zone_end :: nat
  obj_stack :: "nat list"

text \<open>Address 0 is the null pointer, 1 is \<^verbatim>\<open>m_obj\<close>; the zone allocates from 2 on.\<close>

definition new_builder :: builder where
  "new_builder = \<lparr>cells = (\<lambda>_. C_NIL), zone_end = 2, obj_stack = [1]\<rparr>"

section \<open>The visitor\<close>

text \<open>\<^verbatim>\<open>m_stack.back()\<close> of an empty vector is undefined.\<close>

definition on_top :: "builder \<Rightarrow> (nat \<Rightarrow> nat list \<Rightarrow> builder) \<Rightarrow> (bool, builder) result" where
  "on_top b f = (case obj_stack b of [] \<Rightarrow> (Crash, b) | p # ps \<Rightarrow> (Return True, f p ps))"

definition put_cell :: "cell \<Rightarrow> builder \<Rightarrow> (bool, builder) result" where
  "put_cell x b = on_top b (\<lambda>p ps. b\<lparr>cells := (cells b)(p := x)\<rparr>)"

definition visit_negative :: "u64 \<Rightarrow> builder \<Rightarrow> (bool, builder) result" where
  "visit_negative v b = (if 0 \<le> sint v then put_cell (C_POSITIVE_INTEGER v) b else put_cell (C_NEGATIVE_INTEGER v) b)"

definition limited :: "nat \<Rightarrow> octets \<Rightarrow> string \<Rightarrow> cell \<Rightarrow> builder \<Rightarrow> (bool, builder) result" where
  "limited limit s msg x b = (if limit < length s then (Throw msg, b) else put_cell x b)"

text \<open>\<^verbatim>\<open>start_array\<close> and \<^verbatim>\<open>start_map\<close>: \<open>per\<close> is the number of cells of an item. The test that the size in
  bytes did not overflow cannot fail with a 64-bit \<^verbatim>\<open>size_t\<close>.\<close>

definition start_container ::
    "(u32 \<Rightarrow> nat \<Rightarrow> cell) \<Rightarrow> nat \<Rightarrow> nat \<Rightarrow> string \<Rightarrow> nat \<Rightarrow> u32 \<Rightarrow> builder \<Rightarrow> (bool, builder) result" where
  "start_container mk per limit msg depth n b =
     (if limit < unat n then (Throw msg, b)
      else if depth < length (obj_stack b) then (Throw ''depth size overflow'', b)
      else let ptr = (if n = 0 then 0 else zone_end b)
           in on_top b (\<lambda>p ps. b\<lparr>cells := (cells b)(p := mk n ptr), zone_end := zone_end b + unat n * per,
                                 obj_stack := ptr # p # ps\<rparr>))"

text \<open>\<^verbatim>\<open>++m_stack.back()\<close> and \<^verbatim>\<open>m_stack.pop_back()\<close>.\<close>

definition advance :: "builder \<Rightarrow> (bool, builder) result" where
  "advance b = on_top b (\<lambda>p ps. b\<lparr>obj_stack := Suc p # ps\<rparr>)"

definition leave_container :: "builder \<Rightarrow> (bool, builder) result" where
  "leave_container b = on_top b (\<lambda>p ps. b\<lparr>obj_stack := ps\<rparr>)"

definition create_object :: "unpack_limit \<Rightarrow> builder visitor" where
  "create_object lim call b =
     (case call of
        Visit_nil \<Rightarrow> put_cell C_NIL b
      | Visit_boolean v \<Rightarrow> put_cell (C_BOOLEAN v) b
      | Visit_positive_integer v \<Rightarrow> put_cell (C_POSITIVE_INTEGER v) b
      | Visit_negative_integer v \<Rightarrow> visit_negative v b
      | Visit_float32 v \<Rightarrow> put_cell (C_FLOAT32 v) b
      | Visit_float64 v \<Rightarrow> put_cell (C_FLOAT64 v) b
      | Visit_str s \<Rightarrow> limited (lim_str lim) s ''str size overflow'' (C_STR s) b
      | Visit_bin s \<Rightarrow> limited (lim_bin lim) s ''bin size overflow'' (C_BIN s) b
      | Visit_ext s \<Rightarrow> limited (lim_ext lim) s ''ext size overflow'' (C_EXT (count32 s - 1) s) b
      | Start_array n \<Rightarrow> start_container C_ARRAY 1 (lim_array lim) ''array size overflow'' (lim_depth lim) n b
      | Start_map n \<Rightarrow> start_container C_MAP 2 (lim_map lim) ''map size overflow'' (lim_depth lim) n b
      | Start_array_item \<Rightarrow> (Return True, b)
      | Start_map_key \<Rightarrow> (Return True, b)
      | Start_map_value \<Rightarrow> (Return True, b)
      | End_array_item \<Rightarrow> advance b
      | End_map_key \<Rightarrow> advance b
      | End_map_value \<Rightarrow> advance b
      | End_array \<Rightarrow> leave_container b
      | End_map \<Rightarrow> leave_container b
      | Parse_error \<Rightarrow> (Throw ''parse error'', b)
      | Insufficient_bytes \<Rightarrow> (Throw ''insufficient bytes'', b))"

lemmas create_object_simps = create_object_def put_cell_def on_top_def visit_negative_def limited_def
  start_container_def advance_def leave_container_def

text \<open>Unpacking the object at the start of a buffer (\<^verbatim>\<open>unpack_imp\<close>): the result, the memory, and the bytes behind the object.\<close>

definition unpack_object :: "unpack_limit \<Rightarrow> octets \<Rightarrow> parse_return outcome \<times> builder \<times> octets" where
  "unpack_object lim bs = parse_imp (create_object lim) bs new_builder"

section \<open>The object in memory\<close>

primrec all_at :: "(nat \<Rightarrow> bool) list \<Rightarrow> nat \<Rightarrow> bool" where
  "all_at [] p \<longleftrightarrow> True"
| "all_at (f # fs) p \<longleftrightarrow> f p \<and> all_at fs (Suc p)"

primrec denotes :: "(nat \<Rightarrow> cell) \<Rightarrow> mp_object \<Rightarrow> nat \<Rightarrow> bool" where
  "denotes m NIL a \<longleftrightarrow> m a = C_NIL"
| "denotes m (BOOLEAN b) a \<longleftrightarrow> m a = C_BOOLEAN b"
| "denotes m (POSITIVE_INTEGER n) a \<longleftrightarrow> m a = C_POSITIVE_INTEGER n"
| "denotes m (NEGATIVE_INTEGER n) a \<longleftrightarrow> m a = C_NEGATIVE_INTEGER n"
| "denotes m (FLOAT32 f) a \<longleftrightarrow> m a = C_FLOAT32 f"
| "denotes m (FLOAT64 f) a \<longleftrightarrow> m a = C_FLOAT64 f"
| "denotes m (STR_VALUE s) a \<longleftrightarrow> m a = C_STR s"
| "denotes m (BIN s) a \<longleftrightarrow> m a = C_BIN s"
| "denotes m (EXT t s) a \<longleftrightarrow> m a = C_EXT (count32 s) (t # s)"
| "denotes m (ARRAY xs) a \<longleftrightarrow>
     (case m a of C_ARRAY n p \<Rightarrow> n = count32 xs \<and> all_at (map (denotes m) xs) p | _ \<Rightarrow> False)"
| "denotes m (MAP kvs) a \<longleftrightarrow>
     (case m a of
        C_MAP n p \<Rightarrow> n = count32 kvs
          \<and> all_at (concat (map (\<lambda>(f, g). [f, g]) (map (map_prod (denotes m) (denotes m)) kvs))) p
      | _ \<Rightarrow> False)"

text \<open>Objects the limits allow when the stack of the visitor has a given depth.\<close>

fun within :: "unpack_limit \<Rightarrow> nat \<Rightarrow> mp_object \<Rightarrow> bool" where
  "within lim d (STR_VALUE s) \<longleftrightarrow> length s \<le> lim_str lim"
| "within lim d (BIN s) \<longleftrightarrow> length s \<le> lim_bin lim"
| "within lim d (EXT t s) \<longleftrightarrow> Suc (length s) \<le> lim_ext lim"
| "within lim d (ARRAY xs) \<longleftrightarrow> length xs \<le> lim_array lim \<and> d \<le> lim_depth lim \<and> list_all (within lim (Suc d)) xs"
| "within lim d (MAP kvs) \<longleftrightarrow>
     length kvs \<le> lim_map lim \<and> d \<le> lim_depth lim
     \<and> list_all (\<lambda>kv. within lim (Suc d) (fst kv) \<and> within lim (Suc d) (snd kv)) kvs"
| "within lim d _ \<longleftrightarrow> True"

section \<open>Building\<close>

text \<open>Two memories that agree on a cell and on what was allocated between two states.\<close>

definition agree :: "nat set \<Rightarrow> builder \<Rightarrow> builder \<Rightarrow> (nat \<Rightarrow> cell) \<Rightarrow> bool" where
  "agree A b b' m \<longleftrightarrow> (\<forall>q. q \<in> A \<or> zone_end b \<le> q \<and> q < zone_end b' \<longrightarrow> m q = cells b' q)"

text \<open>Going from \<open>b\<close> to \<open>b'\<close> filled the cells \<open>A\<close> and new ones, and left the others alone.\<close>

definition fills :: "nat set \<Rightarrow> builder \<Rightarrow> builder \<Rightarrow> bool" where
  "fills A b b' \<longleftrightarrow> zone_end b \<le> zone_end b' \<and> (\<forall>q. q < zone_end b \<longrightarrow> q \<notin> A \<longrightarrow> cells b' q = cells b q)"

definition builds :: "unpack_limit \<Rightarrow> mp_object \<Rightarrow> bool" where
  "builds lim x \<longleftrightarrow>
     (\<forall>b p ps. obj_stack b = p # ps \<longrightarrow> p < zone_end b \<longrightarrow> within lim (length (p # ps)) x \<longrightarrow>
        (\<exists>b'. runs (create_object lim) (object_calls x) b = Some b' \<and> obj_stack b' = p # ps
              \<and> fills {p} b b' \<and> (\<forall>m. agree {p} b b' m \<longrightarrow> denotes m x p)))"

lemma buildsD:
  assumes "builds lim x" and "obj_stack b = p # ps" and "p < zone_end b" and "within lim (Suc (length ps)) x"
  obtains b' where "runs (create_object lim) (object_calls x) b = Some b'" and "obj_stack b' = p # ps"
    and "fills {p} b b'" and "\<And>m. agree {p} b b' m \<Longrightarrow> denotes m x p"
  using assms unfolding builds_def by (metis length_Cons)

lemma builds_leaf:
  assumes "object_calls x = [call]"
    and "\<And>(b :: builder) d. within lim d x \<Longrightarrow> create_object lim call b = put_cell c b"
    and "\<And>m p. m p = c \<Longrightarrow> denotes m x p"
  shows "builds lim x"
  unfolding builds_def
proof (intro allI impI)
  fix b :: builder and p ps assume b: "obj_stack b = p # ps" "p < zone_end b" "within lim (length (p # ps)) x"
  let ?b = "b\<lparr>cells := (cells b)(p := c)\<rparr>"
  have "runs (create_object lim) (object_calls x) b = Some ?b"
    using assms(1,2) b by (simp add: runs_Cons_Some put_cell_def on_top_def)
  moreover have "fills {p} b ?b" by (simp add: fills_def)
  moreover have "\<forall>m. agree {p} b ?b m \<longrightarrow> denotes m x p" using assms(3) by (simp add: agree_def)
  ultimately show "\<exists>b'. runs (create_object lim) (object_calls x) b = Some b' \<and> obj_stack b' = p # ps
      \<and> fills {p} b b' \<and> (\<forall>m. agree {p} b b' m \<longrightarrow> denotes m x p)" using b(1) by auto
qed

text \<open>The items of a container, each between two calls: an array has one cell per item, a map two.\<close>

abbreviation slot_calls :: "visit \<times> mp_object \<times> visit \<Rightarrow> visit list" where
  "slot_calls s \<equiv> fst s # object_calls (fst (snd s)) @ [snd (snd s)]"

definition slot :: "visit \<times> mp_object \<times> visit \<Rightarrow> bool" where
  "slot s \<longleftrightarrow> fst s \<in> {Start_array_item, Start_map_key, Start_map_value}
     \<and> snd (snd s) \<in> {End_array_item, End_map_key, End_map_value}"

lemma slot_start: "slot s \<Longrightarrow> create_object lim (fst s) b = (Return True, b)"
  by (auto simp: slot_def create_object_def)

lemma slot_end: "slot s \<Longrightarrow> create_object lim (snd (snd s)) b = advance b"
  by (auto simp: slot_def create_object_def)

lemma fills_trans:
  "fills A b b1 \<Longrightarrow> fills B b1 b2 \<Longrightarrow> fills (A \<union> B) b b2"
  by (auto simp: fills_def)

lemma agree_first:
  assumes "agree (A \<union> B) b b2 m" and "fills B b1 b2" and "fills A b b1" and "A \<inter> B = {}"
    and "A \<subseteq> {..<zone_end b}" and "B \<subseteq> {..<zone_end b}"
  shows "agree A b b1 m"
  using assms unfolding agree_def fills_def by (metis (no_types, lifting) Int_iff Un_iff empty_iff lessThan_iff linorder_not_less order.strict_trans1 subset_iff)

lemma agree_second: "agree (A \<union> B) b b2 m \<Longrightarrow> fills A b b1 \<Longrightarrow> agree B b1 b2 m"
  by (auto simp: agree_def fills_def)

definition fills_slots :: "unpack_limit \<Rightarrow> (visit \<times> mp_object \<times> visit) list \<Rightarrow> builder \<Rightarrow> bool" where
  "fills_slots lim ss b \<longleftrightarrow>
     (\<forall>p ps. obj_stack b = p # ps \<longrightarrow> p + length ss \<le> zone_end b \<longrightarrow>
        list_all (\<lambda>s. within lim (Suc (length ps)) (fst (snd s))) ss \<longrightarrow>
        (\<exists>b'. runs (create_object lim) (concat (map slot_calls ss)) b = Some b' \<and> obj_stack b' = (p + length ss) # ps
              \<and> fills {p..<p + length ss} b b'
              \<and> (\<forall>m. agree {p..<p + length ss} b b' m \<longrightarrow> all_at (map (\<lambda>s. denotes m (fst (snd s))) ss) p)))"

lemma slots_filled:
  "list_all slot ss \<Longrightarrow> list_all (\<lambda>s. builds lim (fst (snd s))) ss \<Longrightarrow> fills_slots lim ss b"
proof (induction ss arbitrary: b)
  case Nil
  show ?case by (auto simp: fills_slots_def fills_def)
next
  case (Cons s ss b)
  show ?case
    unfolding fills_slots_def
  proof (intro allI impI)
    fix p ps
    assume b: "obj_stack b = p # ps" "p + length (s # ss) \<le> zone_end b"
      "list_all (\<lambda>s. within lim (Suc (length ps)) (fst (snd s))) (s # ss)"
    have s: "slot s" "builds lim (fst (snd s))" "within lim (Suc (length ps)) (fst (snd s))" "p < zone_end b"
      using Cons.prems b by simp_all
    from buildsD [OF s(2) b(1) s(4,3)] obtain b1 where
      b1: "runs (create_object lim) (object_calls (fst (snd s))) b = Some b1" "obj_stack b1 = p # ps" "fills {p} b b1"
        "\<And>m. agree {p} b b1 m \<Longrightarrow> denotes m (fst (snd s)) p" by metis
    let ?b1 = "b1\<lparr>obj_stack := Suc p # ps\<rparr>" and ?A = "{Suc p..<Suc p + length ss}"
    have up: "zone_end b \<le> zone_end b1" using b1(3) by (simp add: fills_def)
    have "list_all slot ss" "list_all (\<lambda>s. builds lim (fst (snd s))) ss" using Cons.prems by simp_all
    from Cons.IH [OF this, of ?b1] b(2,3) up obtain b2 where
      b2: "runs (create_object lim) (concat (map slot_calls ss)) ?b1 = Some b2" "obj_stack b2 = (Suc p + length ss) # ps"
        "fills ?A ?b1 b2" "\<And>m. agree ?A ?b1 b2 m \<Longrightarrow> all_at (map (\<lambda>s. denotes m (fst (snd s))) ss) (Suc p)"
      unfolding fills_slots_def by force
    have all: "{p..<p + length (s # ss)} = {p} \<union> ?A" by auto
    have f1: "fills {p} b ?b1" using b1(3) by (simp add: fills_def)
    have "runs (create_object lim) (concat (map slot_calls (s # ss))) b = Some b2"
      using b1(1,2) b2(1) slot_start [OF s(1)] slot_end [OF s(1)] by (simp add: runs_Some advance_def on_top_def)
    moreover have "fills {p..<p + length (s # ss)} b b2"
      unfolding all by (rule fills_trans [OF f1 b2(3)])
    moreover have "all_at (map (\<lambda>s. denotes m (fst (snd s))) (s # ss)) p" if "agree {p..<p + length (s # ss)} b b2 m" for m
    proof -
      have "agree ({p} \<union> ?A) b b2 m" using that by (simp only: all)
      moreover have "?A \<subseteq> {..<zone_end b}" "{p} \<inter> ?A = {}" "{p} \<subseteq> {..<zone_end b}" using b(2) by auto
      ultimately have "agree {p} b ?b1 m" "agree ?A ?b1 b2 m"
        using agree_first [OF _ b2(3) f1] agree_second [OF _ f1] by blast+
      with b1(4) b2(4) show ?thesis by (simp add: agree_def)
    qed
    ultimately show "\<exists>b'. runs (create_object lim) (concat (map slot_calls (s # ss))) b = Some b'
        \<and> obj_stack b' = (p + length (s # ss)) # ps \<and> fills {p..<p + length (s # ss)} b b'
        \<and> (\<forall>m. agree {p..<p + length (s # ss)} b b' m \<longrightarrow> all_at (map (\<lambda>s. denotes m (fst (snd s))) (s # ss)) p)"
      using b2(2) by auto
  qed
qed

text \<open>A container: its cell, then its items in the cells the zone gave for it.\<close>

lemma builds_container:
  assumes calls: "object_calls x = sv n # concat (map slot_calls ss) @ [ev]"
    and start: "\<And>b :: builder. create_object lim (sv n) b = start_container mk per limit msg (lim_depth lim) n b"
    and stop: "\<And>b :: builder. create_object lim ev b = leave_container b"
    and size: "length ss = unat n * per"
    and ss: "list_all slot ss" "list_all (\<lambda>s. builds lim (fst (snd s))) ss"
    and lims: "\<And>d. within lim d x \<Longrightarrow> unat n \<le> limit \<and> d \<le> lim_depth lim
                 \<and> list_all (\<lambda>s. within lim (Suc d) (fst (snd s))) ss"
    and denotes: "\<And>m p q. m p = mk n q \<Longrightarrow> all_at (map (\<lambda>s. denotes m (fst (snd s))) ss) q \<Longrightarrow> denotes m x p"
  shows "builds lim x"
  unfolding builds_def
proof (intro allI impI)
  fix b :: builder and p ps
  assume b: "obj_stack b = p # ps" "p < zone_end b" "within lim (length (p # ps)) x"
  note l = lims [OF b(3)]
  define q where "q = (if n = 0 then 0 else zone_end b)"
  let ?A = "{q..<q + length ss}"
  let ?b1 = "b\<lparr>cells := (cells b)(p := mk n q), zone_end := zone_end b + unat n * per, obj_stack := q # p # ps\<rparr>"
  have q: "q + length ss \<le> zone_end ?b1" using size by (simp add: q_def)
  have new: "r \<in> ?A \<Longrightarrow> zone_end b \<le> r" for r using size by (cases "n = 0") (simp_all add: q_def)
  have run1: "create_object lim (sv n) b = (Return True, ?b1)"
    using l b(1) by (simp add: start start_container_def on_top_def q_def Let_def)
  from slots_filled [OF ss, of ?b1] l q obtain b2 where
    b2: "runs (create_object lim) (concat (map slot_calls ss)) ?b1 = Some b2" "obj_stack b2 = (q + length ss) # p # ps"
      "fills ?A ?b1 b2" "\<And>m. agree ?A ?b1 b2 m \<Longrightarrow> all_at (map (\<lambda>s. denotes m (fst (snd s))) ss) q"
    unfolding fills_slots_def by force
  let ?b3 = "b2\<lparr>obj_stack := p # ps\<rparr>"
  have run: "runs (create_object lim) (object_calls x) b = Some ?b3"
    using run1 b2(1,2) by (simp add: calls runs_Some stop leave_container_def on_top_def)
  have old: "cells b2 r = cells ?b1 r" if "r < zone_end b" for r
    using b2(3) new [of r] that by (fastforce simp: fills_def)
  have up: "zone_end b + unat n * per \<le> zone_end b2" using b2(3) by (simp add: fills_def)
  have fills: "fills {p} b ?b3" using old up by (simp add: fills_def)
  have "denotes m x p" if agree: "agree {p} b ?b3 m" for m
  proof (rule denotes)
    show "m p = mk n q" using agree old [OF b(2)] by (simp add: agree_def)
    have "agree ?A ?b1 b2 m"
      unfolding agree_def
    proof (intro allI impI)
      fix r assume r: "r \<in> ?A \<or> zone_end ?b1 \<le> r \<and> r < zone_end b2"
      have "zone_end b \<le> r \<and> r < zone_end b2"
        using r new [of r] q up by (auto simp del: new)
      then show "m r = cells b2 r" using agree by (simp add: agree_def)
    qed
    then show "all_at (map (\<lambda>s. denotes m (fst (snd s))) ss) q" by (rule b2(4))
  qed
  with run fills show "\<exists>b'. runs (create_object lim) (object_calls x) b = Some b' \<and> obj_stack b' = p # ps
      \<and> fills {p} b b' \<and> (\<forall>m. agree {p} b b' m \<longrightarrow> denotes m x p)" by (intro exI [of _ ?b3]) simp
qed

lemma builds_array:
  assumes "list_all (builds lim) xs" and "length xs < 2 ^ 32"
  shows "builds lim (ARRAY xs)"
proof (rule builds_container)
  let ?ss = "map (\<lambda>x. (Start_array_item, x, End_array_item)) xs"
  show "object_calls (ARRAY xs) = Start_array (count32 xs) # concat (map slot_calls ?ss) @ [End_array]"
    by (simp add: comp_def)
  show "create_object lim (Start_array (count32 xs)) b
      = start_container C_ARRAY 1 (lim_array lim) ''array size overflow'' (lim_depth lim) (count32 xs) b" for b
    by (simp add: create_object_def)
  show "create_object lim End_array b = leave_container b" for b by (simp add: create_object_def)
  show "length ?ss = unat (count32 xs) * 1" using assms(2) by simp
  show "list_all slot ?ss" by (simp add: list_all_iff slot_def)
  show "list_all (\<lambda>s. builds lim (fst (snd s))) ?ss" using assms(1) by (simp add: list_all_iff)
  show "unat (count32 xs) \<le> lim_array lim \<and> d \<le> lim_depth lim \<and> list_all (\<lambda>s. within lim (Suc d) (fst (snd s))) ?ss"
    if "within lim d (ARRAY xs)" for d using that assms(2) by (simp add: list_all_iff)
  show "denotes m (ARRAY xs) p"
    if "m p = C_ARRAY (count32 xs) q" and "all_at (map (\<lambda>s. denotes m (fst (snd s))) ?ss) q" for m p q
    using that by (simp add: comp_def)
qed

abbreviation pair_slots :: "mp_object \<times> mp_object \<Rightarrow> (visit \<times> mp_object \<times> visit) list" where
  "pair_slots kv \<equiv> [(Start_map_key, fst kv, End_map_key), (Start_map_value, snd kv, End_map_value)]"

lemma pair_slots_calls:
  "concat (map slot_calls (concat (map pair_slots kvs))) = concat (map pair_calls kvs)"
  by (induction kvs) simp_all

lemma pair_slots_length: "length (concat (map pair_slots kvs)) = length kvs * 2"
  by (induction kvs) simp_all

lemma pair_slots_denote:
  "map (\<lambda>s. f (fst (snd s))) (concat (map pair_slots kvs)) = concat (map (\<lambda>(x, y). [x, y]) (map (map_prod f f) kvs))"
  by (induction kvs) (simp_all add: map_prod_def split: prod.splits)

lemma builds_map:
  assumes "list_all (\<lambda>kv. builds lim (fst kv) \<and> builds lim (snd kv)) kvs" and "length kvs < 2 ^ 32"
  shows "builds lim (MAP kvs)"
proof (rule builds_container)
  let ?ss = "concat (map pair_slots kvs)"
  show "object_calls (MAP kvs) = Start_map (count32 kvs) # concat (map slot_calls ?ss) @ [End_map]"
    by (simp only: pair_slots_calls object_calls.simps)
  show "create_object lim (Start_map (count32 kvs)) b
      = start_container C_MAP 2 (lim_map lim) ''map size overflow'' (lim_depth lim) (count32 kvs) b" for b
    by (simp add: create_object_def)
  show "create_object lim End_map b = leave_container b" for b by (simp add: create_object_def)
  show "length ?ss = unat (count32 kvs) * 2" using assms(2) by (simp only: pair_slots_length unat_count32)
  show "list_all slot ?ss" by (auto simp: list_all_iff slot_def)
  show "list_all (\<lambda>s. builds lim (fst (snd s))) ?ss" using assms(1) by (auto simp: list_all_iff)
  show "unat (count32 kvs) \<le> lim_map lim \<and> d \<le> lim_depth lim \<and> list_all (\<lambda>s. within lim (Suc d) (fst (snd s))) ?ss"
    if "within lim d (MAP kvs)" for d using that assms(2) by (auto simp: list_all_iff)
  show "denotes m (MAP kvs) p"
    if "m p = C_MAP (count32 kvs) q" and "all_at (map (\<lambda>s. denotes m (fst (snd s))) ?ss) q" for m p q
    using that by (simp only: pair_slots_denote denotes.simps cell.case simp_thms)
qed

lemma object_builds: "object_ok x \<Longrightarrow> builds lim x"
proof (induction x)
  case (ARRAY xs)
  then show ?case by (intro builds_array) (auto simp: list_all_iff)
next
  case (MAP kvs)
  then show ?case by (intro builds_map) (fastforce simp: list_all_iff)+
next
  case (NEGATIVE_INTEGER n)
  then show ?case by (intro builds_leaf [where c = "C_NEGATIVE_INTEGER n"]) (auto simp: create_object_def visit_negative_def)
next
  case (STR_VALUE s)
  show ?case by (rule builds_leaf [where c = "C_STR s"]) (auto simp: create_object_def limited_def)
next
  case (BIN s)
  show ?case by (rule builds_leaf [where c = "C_BIN s"]) (auto simp: create_object_def limited_def)
next
  case (EXT t s)
  show ?case by (rule builds_leaf [where c = "C_EXT (count32 s) (t # s)"]) (auto simp: create_object_def limited_def count32_def)
next
  case NIL
  show ?case by (rule builds_leaf [where c = C_NIL]) (auto simp: create_object_def)
next
  case (BOOLEAN b)
  show ?case by (rule builds_leaf [where c = "C_BOOLEAN b"]) (auto simp: create_object_def)
next
  case (POSITIVE_INTEGER n)
  show ?case by (rule builds_leaf [where c = "C_POSITIVE_INTEGER n"]) (auto simp: create_object_def)
next
  case (FLOAT32 f)
  show ?case by (rule builds_leaf [where c = "C_FLOAT32 f"]) (auto simp: create_object_def)
next
  case (FLOAT64 f)
  show ?case by (rule builds_leaf [where c = "C_FLOAT64 f"]) (auto simp: create_object_def)
qed

lemma pack_object_nonempty: "pack_object x \<noteq> []"
proof (cases x)
  case (POSITIVE_INTEGER n)
  then show ?thesis by (simp add: pack_uint64_def pack_imp_uint64_def)
next
  case (NEGATIVE_INTEGER n)
  then show ?thesis by (simp add: pack_int64_def pack_imp_int64_def)
qed (simp_all add: pack_nil_def pack_true_def pack_false_def pack_float_def pack_double_def pack_str_def pack_bin_def
  pack_ext_def pack_array_def pack_map_def)

lemma unpack_packed:
  assumes "object_ok x" and "within lim 1 x"
  shows "\<exists>b. unpack_object lim (pack_object x @ ys)
             = (Return (if ys \<noteq> [] then PARSE_EXTRA_BYTES else PARSE_SUCCESS), b, ys) \<and> denotes (cells b) x 1"
proof -
  have new: "obj_stack new_builder = [1]" "1 < zone_end new_builder" by (simp_all add: new_builder_def)
  have lims: "within lim (Suc (length [])) x" using assms(2) by simp
  from buildsD [OF object_builds [OF assms(1)] new lims] obtain b where
    b: "runs (create_object lim) (object_calls x) new_builder = Some b" "\<And>m. agree {1} new_builder b m \<Longrightarrow> denotes m x 1"
    by metis
  have "readable (create_object lim) x" using assms(1) by (rule object_readable)
  from readableD [OF this b(1), of 0 "[]" ys] obtain t cs where
    "execute (create_object lim) (new_context new_builder) (pack_object x @ ys)
       = go (create_object lim) (settle_stack (create_object lim) \<lparr>m_trail = t, m_cs = cs, m_stack = [], m_visitor = b\<rparr> ys)"
    by (metis new_context_def)
  then have "execute (create_object lim) (new_context new_builder) (pack_object x @ ys)
      = (Return PARSE_SUCCESS, at_header t [] b, ys)" by (simp add: settle_stack_def)
  moreover have "pack_object x \<noteq> []" by (rule pack_object_nonempty)
  moreover have "denotes (cells b) x 1" using b(2) by (simp add: agree_def)
  ultimately show ?thesis by (auto simp: unpack_object_def parse_imp_def)
qed

text \<open>C10. An object that is packed and unpacked again, with other bytes behind it: the parser returns success,
  stops exactly behind the object, and the memory holds the object that was packed, for all objects
  within the limits on sizes and depth.
\<close>

theorem unpack_pack:
  assumes "object_ok x" and "within lim 1 x"
  shows "\<exists>b. unpack_object lim (pack_object x @ ys)
             = (Return (if ys \<noteq> [] then PARSE_EXTRA_BYTES else PARSE_SUCCESS), b, ys) \<and> denotes (cells b) x 1"
  using assms by (rule unpack_packed)

definition sample_object :: mp_object where
  "sample_object = MAP [(STR_VALUE [0x69, 0x64], ARRAY [POSITIVE_INTEGER 300, NEGATIVE_INTEGER (- 2), EXT 5 [1, 2, 3]])]"

theorem unpack_pack_witness:
  "object_ok sample_object \<and> within default_limit 1 sample_object
   \<and> (\<exists>b. unpack_object default_limit (pack_object sample_object @ [0xc0]) = (Return PARSE_EXTRA_BYTES, b, [0xc0])
          \<and> denotes (cells b) sample_object 1)"
proof -
  have "object_ok sample_object" "within default_limit 1 sample_object"
    by (simp_all add: sample_object_def default_limit_def)
  with unpack_pack [of sample_object default_limit "[0xc0]"] show ?thesis by simp
qed

text \<open>C26. An extension that announces the largest size. The parser adds one for the type byte, in 64 bits, and
  waits for \<^verbatim>\<open>2^32\<close> bytes; the size it passes to the visitor is cut to 32 bits and is 0. The visitor copies no byte,
  takes one off and keeps an extension of \<^verbatim>\<open>0xffffffff\<close> bytes: all later uses of it read outside of what was
  allocated. The limits do not stop it, whatever they are.
\<close>

theorem ext_size_wraps:
  assumes "length payload = 2 ^ 32"
  shows "\<exists>b. unpack_object lim ([0xc9, 0xff, 0xff, 0xff, 0xff] @ payload @ ys)
             = (Return (if ys \<noteq> [] then PARSE_EXTRA_BYTES else PARSE_SUCCESS), b, ys) \<and> cells b 1 = C_EXT 0xffffffff []"
proof -
  let ?vis = "create_object lim" and ?size = "[0xff, 0xff, 0xff, 0xff] :: octets"
  let ?c = "\<lparr>m_trail = 2 ^ 32, m_cs = ACS_EXT_VALUE, m_stack = [], m_visitor = new_builder\<rparr>"
  let ?b = "new_builder\<lparr>cells := (cells new_builder)(1 := C_EXT 0xffffffff [])\<rparr>"
  have nonempty: "payload \<noteq> []" using assms by auto
  have "count32 ([] :: octets) - 1 = 0xffffffff" by code_simp
  then have "?vis (Visit_ext []) new_builder = (Return True, ?b)"
    by (simp add: create_object_def limited_def put_cell_def on_top_def new_builder_def)
  then have after: "after_visit ?vis (Visit_ext []) ?c ys = settle_stack ?vis (?c\<lparr>m_visitor := ?b\<rparr>) ys"
    by (simp add: after_visit_settle)
  have "be_nat ?size = 2 ^ 32 - 1" by (simp add: be_nat_def)
  then have "execute ?vis (new_context new_builder) (0xc9 # ?size @ payload @ ys) = execute ?vis ?c (payload @ ys)"
    using execute_announced [OF announced_formats(6), of ?size ?vis 0 "[]" new_builder "payload @ ys"]
    by (simp add: new_context_def trail_round_def sized_def del: append.simps)
  also have "\<dots> = go ?vis (trail_round ?vis ?c payload ys)"
    using nonempty assms by (subst execute_go) (simp add: parse_round_trail)
  also have "\<dots> = go ?vis (settle_stack ?vis (?c\<lparr>m_visitor := ?b\<rparr>) ys)"
    using assms after by (simp add: trail_round_def whole_def)
  finally show ?thesis by (simp add: unpack_object_def parse_imp_def settle_stack_def)
qed

theorem ext_size_wraps_witness:
  "length (replicate (2 ^ 32) (0 :: u8)) = 2 ^ 32
   \<and> (\<exists>b. unpack_object default_limit ([0xc9, 0xff, 0xff, 0xff, 0xff] @ replicate (2 ^ 32) 0 @ []) = (Return PARSE_SUCCESS, b, [])
          \<and> cells b 1 = C_EXT 0xffffffff [])"
  using ext_size_wraps [of "replicate (2 ^ 32) 0" default_limit "[]"] length_replicate [of "2 ^ 32" "0 :: u8"] by (simp only: simp_thms if_False)

text \<open>A buffer that arrives in pieces, for every visitor and wherever the pieces are cut: the parser, called
  again with the bytes it did not use and the next piece behind them, ends with the same result, the
  same state and the same bytes left over as for the whole buffer at once.
\<close>

theorem stream_in_pieces:
  "feed vis (new_context v) [] pieces = execute vis (new_context v) (concat pieces)"
  using feed_concat [of vis "new_context v" "[]" pieces] by (simp add: execute_empty)

text \<open>C34. The packers of integers: whatever the type of the argument, signed or unsigned and of 8 to 64 bits,
  the bytes are those of the one reference encoding of its value, so equal numbers get equal bytes.
\<close>

theorem integer_packers_agree:
  "pack_uint8 a = encode_int (uint a) \<and> pack_uint16 b = encode_int (uint b) \<and> pack_uint32 c = encode_int (uint c)
   \<and> pack_uint64 d = encode_int (uint d) \<and> pack_int8 a = encode_int (sint a) \<and> pack_int16 b = encode_int (sint b)
   \<and> pack_int32 c = encode_int (sint c) \<and> pack_int64 d = encode_int (sint d)"
  by (simp add: pack_uint8_def pack_uint16_def pack_uint32_def pack_uint64_def pack_int8_def pack_int16_def pack_int32_def
      pack_int64_def pack_imp_unsigned pack_imp_signed)

text \<open>\<^verbatim>\<open>operator==\<close> on two extensions: as the comparison starts at the type byte and is as long as the data, the
  last byte of the data is never compared, and two extensions without data are equal whatever their types.
\<close>

theorem ext_equality_ignores_last_byte:
  "equal_object same64 widen (EXT t a) (EXT u b)
     \<longleftrightarrow> length a = length b \<and> (a = [] \<or> t = u \<and> butlast a = butlast b)"
  by (cases a rule: rev_cases; cases b rule: rev_cases) auto

end
