(* ===== verification/Rpc_Dispatch.thy ===== *)
theory Rpc_Dispatch
  imports Msgpack_Object Engine
begin

text \<open>
  The dispatcher of the RPC server of debug builds (\<^verbatim>\<open>rpc/dispatcher.inl\<close>) with the conversions of its arguments
  (\<^verbatim>\<open>rpc/msgpack/v1/adaptor\<close>), and the function \<^verbatim>\<open>execute\<close> that the engine binds to it. The adaptor of a
  function gets the argument object in the memory the parser built. \<^verbatim>\<open>enforce_arg_count\<close> and
  \<^verbatim>\<open>enforce_unique_name\<close> are in the prebuilt library: they are parameters that give the message of the
  exception, if any. The theory shows that a packed script is run by the engine and that every other argument is refused.
\<close>

section \<open>Conversions\<close>

text \<open>The bytes of a string as characters.\<close>

definition to_chars :: "octets \<Rightarrow> bytes" where
  "to_chars bs = map (\<lambda>b. char_of (unat b)) bs"

definition type_error :: string where "type_error = ''std::bad_cast''"

definition convert_string :: "(nat \<Rightarrow> cell) \<Rightarrow> nat \<Rightarrow> string + bytes" where
  "convert_string m a =
     (case m a of
        C_BIN s \<Rightarrow> Inr (to_chars s)
      | C_STR s \<Rightarrow> Inr (to_chars s)
      | _ \<Rightarrow> Inl type_error)"

definition convert_bool :: "(nat \<Rightarrow> cell) \<Rightarrow> nat \<Rightarrow> string + bool" where
  "convert_bool m a = (case m a of C_BOOLEAN b \<Rightarrow> Inr b | _ \<Rightarrow> Inl type_error)"

text \<open>The elements of a tuple: those the array has no object for keep the value \<open>v\<close> they were constructed with.\<close>

primrec convert_elements ::
    "(nat \<Rightarrow> cell) \<Rightarrow> nat \<Rightarrow> nat \<Rightarrow> nat \<Rightarrow> ('v \<times> ((nat \<Rightarrow> cell) \<Rightarrow> nat \<Rightarrow> string + 'v)) list \<Rightarrow> string + 'v list" where
  "convert_elements m n p i [] = Inr []"
| "convert_elements m n p i (e # es) =
     (case (if Suc i \<le> n then snd e m (p + i) else Inr (fst e)) of
        Inl msg \<Rightarrow> Inl msg
      | Inr v \<Rightarrow> (case convert_elements m n p (Suc i) es of Inl msg \<Rightarrow> Inl msg | Inr vs \<Rightarrow> Inr (v # vs)))"

definition convert_tuple ::
    "('v \<times> ((nat \<Rightarrow> cell) \<Rightarrow> nat \<Rightarrow> string + 'v)) list \<Rightarrow> (nat \<Rightarrow> cell) \<Rightarrow> nat \<Rightarrow> string + 'v list" where
  "convert_tuple es m a =
     (case m a of C_ARRAY n p \<Rightarrow> convert_elements m (unat n) p 0 es | _ \<Rightarrow> Inl type_error)"

section \<open>Adaptors\<close>

text \<open>\<^verbatim>\<open>args.via.array.size\<close> reads the first 32 bits of the union whatever the type of the object is; \<open>stale\<close> gives
  them for the objects that do not fill these bits with what is kept in the cell.\<close>

definition via_array_size :: "(cell \<Rightarrow> u32) \<Rightarrow> cell \<Rightarrow> u32" where
  "via_array_size stale c =
     (case c of
        C_ARRAY n p \<Rightarrow> n
      | C_MAP n p \<Rightarrow> n
      | C_STR s \<Rightarrow> count32 s
      | C_BIN s \<Rightarrow> count32 s
      | C_EXT n s \<Rightarrow> n
      | C_POSITIVE_INTEGER v \<Rightarrow> ucast v
      | C_NEGATIVE_INTEGER v \<Rightarrow> ucast v
      | C_FLOAT64 v \<Rightarrow> ucast v
      | _ \<Rightarrow> stale c)"

text \<open>The functor that \<^verbatim>\<open>bind\<close> stores, for the four kinds of functions: \<open>es\<close> are the converters of the arguments,
  \<open>answer\<close> makes the result an object (\<open>NIL\<close> for a function without one). A function without arguments is
  called without a look at the object. The first number of the check is named \<^verbatim>\<open>found\<close> in its declaration.\<close>

definition adaptor ::
    "(string \<Rightarrow> nat \<Rightarrow> nat \<Rightarrow> string option) \<Rightarrow> (cell \<Rightarrow> u32) \<Rightarrow> string
     \<Rightarrow> ('v \<times> ((nat \<Rightarrow> cell) \<Rightarrow> nat \<Rightarrow> string + 'v)) list \<Rightarrow> ('r \<Rightarrow> mp_object) \<Rightarrow> ('v list \<Rightarrow> 'w \<Rightarrow> ('r, 'w) result option)
     \<Rightarrow> (nat \<Rightarrow> cell) \<Rightarrow> nat \<Rightarrow> 'w \<Rightarrow> (mp_object, 'w) result option" where
  "adaptor enforce_arg_count stale name es answer func m a w =
     (case enforce_arg_count name (length es) (unat (via_array_size stale (m a))) of
        Some msg \<Rightarrow> Some (Throw msg, w)
      | None \<Rightarrow>
          (case (if es = [] then Inr [] else convert_tuple es m a) of
             Inl msg \<Rightarrow> Some (Throw msg, w)
           | Inr vs \<Rightarrow> map_option (map_prod (map_outcome answer) id) (func vs w)))"

text \<open>\<^verbatim>\<open>bind\<close>: the name is checked twice, and \<^verbatim>\<open>insert\<close> keeps a function that is already there.\<close>

definition bind_function ::
    "(string \<Rightarrow> bool \<Rightarrow> string option) \<Rightarrow> string \<Rightarrow> 'f \<Rightarrow> (string \<rightharpoonup> 'f) \<Rightarrow> (unit, string \<rightharpoonup> 'f) result" where
  "bind_function enforce_unique_name name f funcs =
     (case enforce_unique_name name (funcs name \<noteq> None) of
        Some msg \<Rightarrow> (Throw msg, funcs)
      | None \<Rightarrow>
          (case enforce_unique_name name (funcs name \<noteq> None) of
             Some msg \<Rightarrow> (Throw msg, funcs)
           | None \<Rightarrow> (Return (), if funcs name = None then funcs(name \<mapsto> f) else funcs)))"

section \<open>The function of the engine\<close>

text \<open>What \<^verbatim>\<open>load_and_watch\<close> binds to \<^verbatim>\<open>execute\<close>: a function of one string with a \<^verbatim>\<open>bool\<close> as its result.\<close>

definition execute_adaptor ::
    "(string \<Rightarrow> nat \<Rightarrow> nat \<Rightarrow> string option) \<Rightarrow> (cell \<Rightarrow> u32) \<Rightarrow> v8 \<Rightarrow> script_runner
     \<Rightarrow> (nat \<Rightarrow> cell) \<Rightarrow> nat \<Rightarrow> engine \<Rightarrow> (mp_object, engine) result option" where
  "execute_adaptor enforce_arg_count stale v runner =
     adaptor enforce_arg_count stale ''execute'' [([], convert_string)] BOOLEAN (\<lambda>vs. rpc_execute v runner (hd vs))"

definition bind_execute ::
    "(string \<Rightarrow> bool \<Rightarrow> string option) \<Rightarrow> (string \<Rightarrow> nat \<Rightarrow> nat \<Rightarrow> string option) \<Rightarrow> (cell \<Rightarrow> u32) \<Rightarrow> v8 \<Rightarrow> script_runner
     \<Rightarrow> (string \<rightharpoonup> ((nat \<Rightarrow> cell) \<Rightarrow> nat \<Rightarrow> engine \<Rightarrow> (mp_object, engine) result option))
     \<Rightarrow> (unit, string \<rightharpoonup> ((nat \<Rightarrow> cell) \<Rightarrow> nat \<Rightarrow> engine \<Rightarrow> (mp_object, engine) result option)) result" where
  "bind_execute enforce_unique_name enforce_arg_count stale v runner =
     bind_function enforce_unique_name ''execute'' (execute_adaptor enforce_arg_count stale v runner)"

text \<open>The arguments that hold a script.\<close>

fun script_of :: "mp_object \<Rightarrow> octets option" where
  "script_of (ARRAY [STR_VALUE s]) = Some s"
| "script_of (ARRAY [BIN s]) = Some s"
| "script_of _ = None"

lemma convert_string_denotes:
  "denotes m x a \<Longrightarrow> convert_string m a =
     (case x of STR_VALUE s \<Rightarrow> Inr (to_chars s) | BIN s \<Rightarrow> Inr (to_chars s) | _ \<Rightarrow> Inl type_error)"
  by (cases x) (auto simp: convert_string_def split: cell.splits)

lemma execute_adaptor_denotes:
  assumes count: "\<And>name found expected. enforce_arg_count name found expected = None \<longleftrightarrow> found = expected"
    and "object_ok x" and "denotes m x a"
  shows "case script_of x of
           Some s \<Rightarrow> execute_adaptor enforce_arg_count stale v runner m a e
             = map_option (map_prod (map_outcome BOOLEAN) id) (rpc_execute v runner (to_chars s) e)
         | None \<Rightarrow> \<exists>msg. execute_adaptor enforce_arg_count stale v runner m a e = Some (Throw msg, e)"
proof (cases "\<exists>y. x = ARRAY [y]")
  case True
  then obtain y where x: "x = ARRAY [y]" by blast
  with assms(3) obtain n p where cell: "m a = C_ARRAY n p" "n = 1" "denotes m y p"
    by (auto simp: count32_def split: cell.splits)
  from cell(1,2) have "m a = C_ARRAY 1 p" by simp
  moreover have "enforce_arg_count ''execute'' (Suc 0) (Suc 0) = None" by (simp add: count)
  ultimately have ex: "execute_adaptor enforce_arg_count stale v runner m a e =
      (case convert_string m p of
         Inl msg \<Rightarrow> Some (Throw msg, e)
       | Inr s \<Rightarrow> map_option (map_prod (map_outcome BOOLEAN) id) (rpc_execute v runner s e))"
    by (simp add: execute_adaptor_def adaptor_def via_array_size_def convert_tuple_def split: sum.splits)
  from convert_string_denotes [OF cell(3)] ex show ?thesis by (cases y) (simp_all add: x)
next
  case False
  have "\<exists>msg. execute_adaptor enforce_arg_count stale v runner m a e = Some (Throw msg, e)"
  proof (cases x)
    case (ARRAY xs)
    with assms(2,3) obtain n p where cell: "m a = C_ARRAY n p" "unat n = length xs"
      by (auto split: cell.splits)
    have "length xs \<noteq> 1" using False ARRAY by (auto simp: length_Suc_conv)
    with count [of "''execute''" 1 "length xs"] cell show ?thesis
      by (auto simp: execute_adaptor_def adaptor_def via_array_size_def)
  next
    case (MAP kvs)
    with assms(3) show ?thesis
      by (auto simp: execute_adaptor_def adaptor_def convert_tuple_def split: option.splits cell.splits)
  qed (use assms(3) in \<open>auto simp: execute_adaptor_def adaptor_def convert_tuple_def split: option.splits\<close>)
  moreover have "script_of x = None" using False by (cases x rule: script_of.cases) auto
  ultimately show ?thesis by simp
qed


text \<open>C18. Every other argument of \<^verbatim>\<open>execute\<close> is refused with an exception before the engine is touched, although
  the number of arguments is read from an object whose type was not checked: whatever the bytes are that
  are read there.
\<close>

theorem malformed_call_refused:
  assumes count: "\<And>name found expected. enforce_arg_count name found expected = None \<longleftrightarrow> found = expected"
    and "object_ok x" and "within default_limit 1 x" and "script_of x = None"
  shows "\<exists>b msg. unpack_object default_limit (pack_object x) = (Return PARSE_SUCCESS, b, [])
         \<and> execute_adaptor enforce_arg_count stale v runner (cells b) 1 e = Some (Throw msg, e)"
proof -
  from unpack_packed [OF assms(2,3), of "[]"] obtain b where
    "unpack_object default_limit (pack_object x) = (Return PARSE_SUCCESS, b, [])" "denotes (cells b) x 1" by auto
  with execute_adaptor_denotes [OF count assms(2), of "cells b" 1] assms(4) show ?thesis by fastforce
qed

definition sample_arg_count :: "string \<Rightarrow> nat \<Rightarrow> nat \<Rightarrow> string option" where
  "sample_arg_count name found expected = (if found = expected then None else Some ''invalid number of arguments'')"

lemma sample_arg_count: "sample_arg_count name found expected = None \<longleftrightarrow> found = expected"
  by (simp add: sample_arg_count_def)

definition sample_runner :: script_runner where
  "sample_runner source completions e = Some (Return True, e)"


theorem malformed_call_refused_witness:
  "object_ok (STR_VALUE [0x78]) \<and> within default_limit 1 (STR_VALUE [0x78]) \<and> script_of (STR_VALUE [0x78]) = None
   \<and> (\<exists>b msg. unpack_object default_limit (pack_object (STR_VALUE [0x78])) = (Return PARSE_SUCCESS, b, [])
       \<and> execute_adaptor sample_arg_count (\<lambda>_. 0) sample_v8 sample_runner (cells b) 1 no_engine = Some (Throw msg, no_engine))"
proof -
  have "object_ok (STR_VALUE [0x78])" "within default_limit 1 (STR_VALUE [0x78])" "script_of (STR_VALUE [0x78]) = None"
    by (simp_all add: default_limit_def)
  with malformed_call_refused [where enforce_arg_count = sample_arg_count, OF sample_arg_count this] show ?thesis by blast
qed

text \<open>The bound function is the one that is called, and a second function of the same name is not.\<close>

lemma bind_execute_once:
  assumes "\<And>name known. enforce_unique_name name known = None \<longleftrightarrow> \<not> known"
  shows "snd (bind_execute enforce_unique_name check stale v runner Map.empty) ''execute'' = Some (execute_adaptor check stale v runner)"
    and "snd (bind_function enforce_unique_name ''execute'' f (snd (bind_execute enforce_unique_name check stale v runner Map.empty)))
           = snd (bind_execute enforce_unique_name check stale v runner Map.empty)"
proof -
  have new: "enforce_unique_name ''execute'' False = None" using assms by simp
  obtain msg where old: "enforce_unique_name ''execute'' True = Some msg" using assms by (metis not_None_eq)
  let ?funcs = "snd (bind_execute enforce_unique_name check stale v runner Map.empty)"
  show bound: "?funcs ''execute'' = Some (execute_adaptor check stale v runner)"
    by (simp add: bind_execute_def bind_function_def new)
  show "snd (bind_function enforce_unique_name ''execute'' f ?funcs) = ?funcs"
    unfolding bind_function_def [of _ _ _ ?funcs] bound by (simp add: old)
qed

end
