(* ===== verification/Msgpack_Buffer.thy ===== *)
theory Msgpack_Buffer
  imports Msgpack_Parse
begin

text \<open>
  The buffer of the streaming parser and of the unpacker (\<^verbatim>\<open>rpc/msgpack/v2/parse.hpp\<close>, \<^verbatim>\<open>v2/unpack.hpp\<close>, the counters of
  \<^verbatim>\<open>v1/unpack.hpp\<close>). Strings of an unpacked object are not copied: they point into the buffer, which is counted
  and stays alive as long as the zone of an object holds it. The theory shows two things: the buffer is
  a queue of bytes, whatever the expansions move around, and the bytes an object points to are there
  unchanged until the object is dropped, with exact counters and nothing left at the end.
\<close>

section \<open>Buffers\<close>

text \<open>\<^verbatim>\<open>COUNTER_SIZE\<close>: the counter at the start of a buffer.\<close>

definition COUNTER_SIZE :: nat where "COUNTER_SIZE = 4"

text \<open>A buffer is its counter and its bytes, those of the counter included. \<^verbatim>\<open>malloc\<close> is a parameter: the n-th
  call gives bytes without meaning or fails.\<close>

type_synonym buffers = "nat \<Rightarrow> (nat \<times> octets) option"
type_synonym malloc = "nat \<Rightarrow> nat \<Rightarrow> octets option"

definition decr_count :: "nat \<Rightarrow> buffers \<Rightarrow> buffers option" where
  "decr_count b h =
     (case h b of
        None \<Rightarrow> None
      | Some (c, bs) \<Rightarrow> Some (if c - 1 = 0 then h(b := None) else h(b \<mapsto> (c - 1, bs))))"

definition incr_count :: "nat \<Rightarrow> buffers \<Rightarrow> buffers" where
  "incr_count b h = (case h b of None \<Rightarrow> h | Some (c, bs) \<Rightarrow> h(b \<mapsto> (c + 1, bs)))"

definition get_count :: "nat \<Rightarrow> buffers \<Rightarrow> nat" where
  "get_count b h = (case h b of None \<Rightarrow> 0 | Some (c, bs) \<Rightarrow> c)"

definition bytes_of :: "nat \<Rightarrow> buffers \<Rightarrow> octets" where
  "bytes_of b h = (case h b of None \<Rightarrow> [] | Some (c, bs) \<Rightarrow> bs)"

text \<open>The finalizers of a zone, the last one that was pushed first.\<close>

primrec run_finalizers :: "nat list \<Rightarrow> buffers \<Rightarrow> buffers option" where
  "run_finalizers [] h = Some h"
| "run_finalizers (b # bs) h = (case decr_count b h of None \<Rightarrow> None | Some h' \<Rightarrow> run_finalizers bs h')"

section \<open>The unpacker\<close>

text \<open>A string of an object: where it points to, and what was there when the object was made.\<close>

record reference =
  r_buffer :: nat
  r_off :: nat
  r_bytes :: octets

text \<open>\<open>pending\<close> are the references of the object that is being parsed, \<open>held\<close> the zones that were given away with
  the objects in them, \<open>mallocs\<close> the number of allocations so far; \<open>m_zone\<close>
  is the list of the buffers that the finalizers of the current zone release.\<close>

record unpacker =
  buffers :: buffers
  mallocs :: nat
  m_buffer :: nat
  m_used :: nat
  m_free :: nat
  m_off :: nat
  m_parsed :: nat
  m_initial_buffer_size :: nat
  m_referenced :: bool
  m_zone :: "nat list"
  pending :: "reference list"
  held :: "(nat list \<times> reference list) list"

definition new_unpacker :: "malloc \<Rightarrow> nat \<Rightarrow> unpacker option" where
  "new_unpacker malloc initial =
     (let n = (if initial < COUNTER_SIZE then COUNTER_SIZE else initial)
      in case malloc 0 n of
           None \<Rightarrow> None
         | Some bs \<Rightarrow> Some \<lparr>buffers = [0 \<mapsto> (1, bs)], mallocs = 1, m_buffer = 0, m_used = COUNTER_SIZE,
             m_free = n - COUNTER_SIZE, m_off = COUNTER_SIZE, m_parsed = 0, m_initial_buffer_size = n,
             m_referenced = False, m_zone = [], pending = [], held = []\<rparr>)"

text \<open>\<^verbatim>\<open>size_t\<close> has 64 bits.\<close>

definition to_size :: "nat \<Rightarrow> nat" where "to_size n = n mod 2 ^ 64"

lemma to_size_less [simp]: "n < 2 ^ 64 \<Longrightarrow> to_size n = n"
  by (simp add: to_size_def)

text \<open>The loop that doubles a size until it is enough; it notices when the size wraps around.\<close>

function grow :: "nat \<Rightarrow> nat \<Rightarrow> nat" where
  "grow n need =
     (if n < need then let tmp = to_size (n * 2) in if tmp \<le> n then need else grow tmp need else n)"
  by pat_completeness auto
termination by (relation "measure (\<lambda>(n, need). need - n)") auto

declare grow.simps [simp del]

lemma grow_enough: "need \<le> grow n need"
  by (induction n need rule: grow.induct) (subst grow.simps, auto simp: Let_def)

definition rewind :: "unpacker \<Rightarrow> unpacker" where
  "rewind u = u\<lparr>m_free := m_free u + (m_used u - COUNTER_SIZE), m_used := COUNTER_SIZE, m_off := COUNTER_SIZE\<rparr>"

text \<open>\<^verbatim>\<open>realloc\<close> moves the buffer: the bytes are copied and the old address is not valid any more.\<close>

definition realloc_buffer :: "malloc \<Rightarrow> nat \<Rightarrow> unpacker \<Rightarrow> (unit, unpacker) result" where
  "realloc_buffer malloc n u =
     (let nsize = grow (to_size ((m_used u + m_free u) * 2)) (to_size (n + m_used u));
          old = bytes_of (m_buffer u) (buffers u)
      in case malloc (mallocs u) nsize of
           None \<Rightarrow> (Throw ''bad allocation'', u)
         | Some bs \<Rightarrow>
             (Return (), u\<lparr>buffers := (buffers u)(m_buffer u := None,
                                        mallocs u \<mapsto> (get_count (m_buffer u) (buffers u), take nsize old @ drop (length old) bs)),
                          mallocs := mallocs u + 1, m_buffer := mallocs u, m_free := nsize - m_used u\<rparr>))"

text \<open>The parser moves to a fresh buffer with the bytes that were not parsed. The old one is left to the zone
  if the object that is being parsed points into it; pushing the finalizer can fail.\<close>

definition replace_buffer :: "malloc \<Rightarrow> (nat list \<Rightarrow> bool) \<Rightarrow> nat \<Rightarrow> unpacker \<Rightarrow> (unit, unpacker) result" where
  "replace_buffer malloc push_ok n u =
     (let not_parsed = m_used u - m_off u;
          nsize = grow (m_initial_buffer_size u) (to_size (n + not_parsed + COUNTER_SIZE));
          rest = take not_parsed (drop (m_off u) (bytes_of (m_buffer u) (buffers u)))
      in case malloc (mallocs u) nsize of
           None \<Rightarrow> (Throw ''bad allocation'', u)
         | Some bs \<Rightarrow>
             (let fresh = take COUNTER_SIZE bs @ rest @ drop (COUNTER_SIZE + not_parsed) bs;
                  h = (buffers u)(mallocs u \<mapsto> (1, fresh));
                  u' = u\<lparr>mallocs := mallocs u + 1, m_buffer := mallocs u, m_used := not_parsed + COUNTER_SIZE,
                         m_free := nsize - (not_parsed + COUNTER_SIZE), m_off := COUNTER_SIZE\<rparr>
              in if m_referenced u
                 then if push_ok (m_zone u)
                      then (Return (), u'\<lparr>buffers := h, m_zone := m_buffer u # m_zone u, m_referenced := False\<rparr>)
                      else (Throw ''bad allocation'', u\<lparr>mallocs := mallocs u + 1\<rparr>)
                 else (case decr_count (m_buffer u) h of
                         None \<Rightarrow> (Crash, u)
                       | Some h' \<Rightarrow> (Return (), u'\<lparr>buffers := h'\<rparr>))))"

definition expand_buffer :: "malloc \<Rightarrow> (nat list \<Rightarrow> bool) \<Rightarrow> nat \<Rightarrow> unpacker \<Rightarrow> (unit, unpacker) result" where
  "expand_buffer malloc push_ok n u =
     (let rewound = (m_used u = m_off u \<and> get_count (m_buffer u) (buffers u) = 1 \<and> \<not> m_referenced u);
          u1 = (if rewound then rewind u else u)
      in if rewound \<and> n \<le> m_free u1 then (Return (), u1)
         else if m_off u1 = COUNTER_SIZE then realloc_buffer malloc n u1
         else replace_buffer malloc push_ok n u1)"

definition reserve_buffer :: "malloc \<Rightarrow> (nat list \<Rightarrow> bool) \<Rightarrow> nat \<Rightarrow> unpacker \<Rightarrow> (unit, unpacker) result" where
  "reserve_buffer malloc push_ok n u =
     (if n \<le> m_free u then (Return (), u) else expand_buffer malloc push_ok n u)"

text \<open>The caller writes at \<^verbatim>\<open>buffer()\<close> and calls \<^verbatim>\<open>buffer_consumed\<close>.\<close>

definition receive :: "octets \<Rightarrow> unpacker \<Rightarrow> unpacker" where
  "receive bs u =
     (let old = bytes_of (m_buffer u) (buffers u)
      in u\<lparr>buffers := (buffers u)(m_buffer u \<mapsto> (get_count (m_buffer u) (buffers u),
                                    take (m_used u) old @ bs @ drop (m_used u + length bs) old)),
           m_used := m_used u + length bs, m_free := m_free u - length bs\<rparr>)"

text \<open>What \<^verbatim>\<open>execute_imp\<close> does to the buffer when the parser uses \<open>k\<close> bytes and the visitor keeps the given parts
  of the buffer; \<open>referenced\<close> is what the visitor set.\<close>

definition parsed :: "nat \<Rightarrow> bool \<Rightarrow> (nat \<times> nat) list \<Rightarrow> unpacker \<Rightarrow> unpacker" where
  "parsed k referenced parts u =
     u\<lparr>m_off := m_off u + k, m_parsed := m_parsed u + k, m_referenced := m_referenced u \<or> referenced,
       pending := pending u @ map (\<lambda>(off, n). \<lparr>r_buffer = m_buffer u, r_off = off,
                    r_bytes = take n (drop off (bytes_of (m_buffer u) (buffers u)))\<rparr>) parts\<rparr>"

text \<open>\<^verbatim>\<open>unpacker::next\<close> with a complete object: \<^verbatim>\<open>flush_zone\<close>, \<^verbatim>\<open>release_zone\<close> and \<^verbatim>\<open>reset\<close>. When the finalizer
  cannot be pushed the object is given away without a zone.\<close>

definition unpacker_next :: "(nat list \<Rightarrow> bool) \<Rightarrow> unpacker \<Rightarrow> unpacker" where
  "unpacker_next push_ok u =
     (if m_referenced u
      then if push_ok (m_zone u)
           then u\<lparr>buffers := incr_count (m_buffer u) (buffers u), m_referenced := False,
                  held := (m_buffer u # m_zone u, pending u) # held u, m_zone := [], pending := [], m_parsed := 0\<rparr>
           else u\<lparr>held := ([], pending u) # held u, pending := [], m_parsed := 0\<rparr>
      else u\<lparr>held := (m_zone u, pending u) # held u, m_zone := [], pending := [], m_parsed := 0\<rparr>)"

text \<open>The owner of an object drops it, and with it the zone.\<close>

definition drop_object :: "nat \<Rightarrow> unpacker \<Rightarrow> (unit, unpacker) result" where
  "drop_object i u =
     (case run_finalizers (fst (held u ! i)) (buffers u) of
        None \<Rightarrow> (Crash, u)
      | Some h \<Rightarrow> (Return (), u\<lparr>buffers := h, held := take i (held u) @ drop (Suc i) (held u)\<rparr>))"

text \<open>The destructor: the zone, then the buffer.\<close>

definition destroy_unpacker :: "unpacker \<Rightarrow> buffers option" where
  "destroy_unpacker u = run_finalizers (m_zone u @ [m_buffer u]) (buffers u)"

definition skip_nonparsed_buffer :: "nat \<Rightarrow> unpacker \<Rightarrow> unpacker" where
  "skip_nonparsed_buffer n u = u\<lparr>m_off := m_off u + n\<rparr>"

definition remove_nonparsed_buffer :: "unpacker \<Rightarrow> unpacker" where
  "remove_nonparsed_buffer u = u\<lparr>m_used := m_off u\<rparr>"

definition nonparsed_size :: "unpacker \<Rightarrow> nat" where "nonparsed_size u = m_used u - m_off u"

definition message_size :: "unpacker \<Rightarrow> nat" where "message_size u = m_parsed u - m_off u + m_used u"

text \<open>The bytes from \<^verbatim>\<open>nonparsed_buffer()\<close> on.\<close>

definition nonparsed :: "unpacker \<Rightarrow> octets" where
  "nonparsed u = take (m_used u - m_off u) (drop (m_off u) (bytes_of (m_buffer u) (buffers u)))"

section \<open>Counters\<close>

definition counted :: "buffers \<Rightarrow> (nat \<Rightarrow> nat) \<Rightarrow> bool" where
  "counted h f \<longleftrightarrow> (\<forall>b. get_count b h = f b \<and> (h b = None \<longleftrightarrow> f b = 0))"

lemma counted_get: "counted h f \<Longrightarrow> get_count b h = f b"
  and counted_None: "counted h f \<Longrightarrow> h b = None \<longleftrightarrow> f b = 0"
  by (simp_all add: counted_def)

lemma counted_live: "counted h f \<Longrightarrow> 0 < f b \<Longrightarrow> h b = Some (f b, bytes_of b h)"
  using counted_get [of h f b] counted_None [of h f b]
  by (cases "h b") (auto simp: get_count_def bytes_of_def)

lemma get_count_upd [simp]:
  "get_count x (h(b := v)) = (if x = b then (case v of None \<Rightarrow> 0 | Some (c, bs) \<Rightarrow> c) else get_count x h)"
  by (simp add: get_count_def)

lemma bytes_of_upd [simp]:
  "bytes_of x (h(b := v)) = (if x = b then (case v of None \<Rightarrow> [] | Some (c, bs) \<Rightarrow> bs) else bytes_of x h)"
  by (simp add: bytes_of_def)

lemma decr_count_counted:
  assumes "counted h f" and "0 < f b"
  shows "\<exists>h'. decr_count b h = Some h' \<and> counted h' (f(b := f b - 1))
          \<and> (\<forall>x. 0 < (f(b := f b - 1)) x \<longrightarrow> bytes_of x h' = bytes_of x h)"
proof -
  let ?h = "if f b - 1 = 0 then h(b := None) else h(b \<mapsto> (f b - 1, bytes_of b h))"
  have "decr_count b h = Some ?h" using counted_live [OF assms] by (simp add: decr_count_def)
  moreover have "counted ?h (f(b := f b - 1))" using assms(1) by (simp add: counted_def)
  ultimately show ?thesis by auto
qed

lemma run_finalizers_counted:
  assumes "counted h (\<lambda>b. g b + count_list bs b)"
  shows "\<exists>h'. run_finalizers bs h = Some h' \<and> counted h' g \<and> (\<forall>x. 0 < g x \<longrightarrow> bytes_of x h' = bytes_of x h)"
  using assms
proof (induction bs arbitrary: h)
  case (Cons b bs)
  have "0 < g b + count_list (b # bs) b" by simp
  from decr_count_counted [OF Cons.prems this] obtain h1 where
    h1: "decr_count b h = Some h1" "counted h1 ((\<lambda>x. g x + count_list (b # bs) x)(b := g b + count_list (b # bs) b - 1))"
      "\<And>x. 0 < ((\<lambda>x. g x + count_list (b # bs) x)(b := g b + count_list (b # bs) b - 1)) x \<Longrightarrow> bytes_of x h1 = bytes_of x h"
    by blast
  have eq: "(\<lambda>x. g x + count_list (b # bs) x)(b := g b + count_list (b # bs) b - 1) = (\<lambda>x. g x + count_list bs x)"
    by (rule ext) simp
  from Cons.IH [OF h1(2) [unfolded eq]] h1(1,3) [unfolded eq] show ?case by auto
qed simp

section \<open>The invariant\<close>

definition owners :: "unpacker \<Rightarrow> nat \<Rightarrow> nat" where
  "owners u b = of_bool (b = m_buffer u) + count_list (m_zone u) b + sum_list (map (\<lambda>z. count_list (fst z) b) (held u))"

definition references :: "unpacker \<Rightarrow> reference list" where
  "references u = pending u @ concat (map snd (held u))"

text \<open>The buffer a reference points into is alive and still has the bytes that were there.\<close>

definition intact :: "buffers \<Rightarrow> reference \<Rightarrow> bool" where
  "intact h r \<longleftrightarrow> h (r_buffer r) \<noteq> None \<and> r_off r + length (r_bytes r) \<le> length (bytes_of (r_buffer r) h)
     \<and> take (length (r_bytes r)) (drop (r_off r) (bytes_of (r_buffer r) h)) = r_bytes r"

definition bounds_ok :: "unpacker \<Rightarrow> bool" where
  "bounds_ok u \<longleftrightarrow> COUNTER_SIZE \<le> m_off u \<and> m_off u \<le> m_used u
     \<and> m_used u + m_free u \<le> length (bytes_of (m_buffer u) (buffers u))
     \<and> (m_referenced u \<or> 1 < owners u (m_buffer u) \<longrightarrow> COUNTER_SIZE < m_off u)"

definition references_ok :: "unpacker \<Rightarrow> bool" where
  "references_ok u \<longleftrightarrow>
     (\<forall>r \<in> set (references u). intact (buffers u) r
        \<and> (r_buffer r = m_buffer u \<longrightarrow> r_off r + length (r_bytes r) \<le> m_off u))
     \<and> (\<forall>r \<in> set (pending u). r_buffer r = m_buffer u \<and> m_referenced u \<or> r_buffer r \<in> set (m_zone u))
     \<and> (\<forall>z \<in> set (held u). \<forall>r \<in> set (snd z). r_buffer r \<in> set (fst z))"

definition unpacker_ok :: "unpacker \<Rightarrow> bool" where
  "unpacker_ok u \<longleftrightarrow> counted (buffers u) (owners u) \<and> (\<forall>b \<ge> mallocs u. buffers u b = None) \<and> bounds_ok u \<and> references_ok u"

lemma owners_upd [simp]:
  "owners (u\<lparr>buffers := x1\<rparr>) = owners u" "owners (u\<lparr>mallocs := x2\<rparr>) = owners u" "owners (u\<lparr>m_used := x3\<rparr>) = owners u"
  "owners (u\<lparr>m_free := x4\<rparr>) = owners u" "owners (u\<lparr>m_off := x5\<rparr>) = owners u" "owners (u\<lparr>m_parsed := x6\<rparr>) = owners u"
  "owners (u\<lparr>m_referenced := x7\<rparr>) = owners u" "owners (u\<lparr>pending := x8\<rparr>) = owners u"
  by (auto simp: owners_def fun_eq_iff)

lemma references_upd [simp]:
  "references (u\<lparr>buffers := x1\<rparr>) = references u" "references (u\<lparr>mallocs := x2\<rparr>) = references u"
  "references (u\<lparr>m_used := x3\<rparr>) = references u" "references (u\<lparr>m_free := x4\<rparr>) = references u"
  "references (u\<lparr>m_off := x5\<rparr>) = references u" "references (u\<lparr>m_parsed := x6\<rparr>) = references u"
  "references (u\<lparr>m_referenced := x7\<rparr>) = references u" "references (u\<lparr>m_buffer := x8\<rparr>) = references u"
  "references (u\<lparr>m_zone := x9\<rparr>) = references u"
  by (simp_all add: references_def)

lemma sum_list_member_le: "(x :: nat) \<in> set xs \<Longrightarrow> x \<le> sum_list xs"
  by (induction xs) auto

lemma owners_held: "z \<in> set (held u) \<Longrightarrow> b \<in> set (fst z) \<Longrightarrow> of_bool (b = m_buffer u) < owners u b"
  using sum_list_member_le [of "count_list (fst z) b" "map (\<lambda>z. count_list (fst z) b) (held u)"]
    count_list_0_iff [of "fst z" b] by (fastforce simp: owners_def)

lemma owners_zone: "b \<in> set (m_zone u) \<Longrightarrow> of_bool (b = m_buffer u) < owners u b"
  using count_list_0_iff [of "m_zone u" b] by (simp add: owners_def)

lemma owners_buffer: "0 < owners u (m_buffer u)"
  by (simp add: owners_def)

lemma references_cases:
  assumes "r \<in> set (references u)"
  obtains "r \<in> set (pending u)" | z where "z \<in> set (held u)" and "r \<in> set (snd z)"
  using assms by (auto simp: references_def)

text \<open>A buffer that only the parser owns and that the object that is being parsed does not use has no references.\<close>

lemma no_references:
  assumes "references_ok u" and "owners u (m_buffer u) = 1" and "\<not> m_referenced u" and "r \<in> set (references u)"
  shows "r_buffer r \<noteq> m_buffer u"
  using assms(4)
proof (cases rule: references_cases)
  case 1
  with assms(1,3) have "r_buffer r \<in> set (m_zone u)" by (auto simp: references_ok_def)
  then show ?thesis using owners_zone [of "r_buffer r" u] assms(2) by auto
next
  case (2 z)
  with assms(1) have "r_buffer r \<in> set (fst z)" by (auto simp: references_ok_def)
  then show ?thesis using owners_held [OF 2(1), of "r_buffer r"] assms(2) by auto
qed

text \<open>What every reference points to is owned by someone.\<close>

lemma references_owned:
  assumes "references_ok u" and "r \<in> set (references u)" and "r_buffer r \<noteq> m_buffer u"
  shows "0 < owners u (r_buffer r)"
  using assms(2)
proof (cases rule: references_cases)
  case 1
  with assms(1,3) have "r_buffer r \<in> set (m_zone u)" by (auto simp: references_ok_def)
  then show ?thesis using owners_zone [of "r_buffer r" u] by simp
next
  case (2 z)
  with assms(1) have "r_buffer r \<in> set (fst z)" by (auto simp: references_ok_def)
  then show ?thesis using owners_held [OF 2(1), of "r_buffer r"] by simp
qed

lemma fresh_call: "unpacker_ok u \<Longrightarrow> buffers u (mallocs u) = None"
  and fresh_unowned: "unpacker_ok u \<Longrightarrow> owners u (mallocs u) = 0"
  and fresh_buffer: "unpacker_ok u \<Longrightarrow> m_buffer u \<noteq> mallocs u"
proof -
  assume ok: "unpacker_ok u"
  then show none: "buffers u (mallocs u) = None" by (simp add: unpacker_ok_def)
  have "counted (buffers u) (owners u)" using ok by (simp add: unpacker_ok_def)
  from counted_None [OF this] none show zero: "owners u (mallocs u) = 0" by simp
  then show "m_buffer u \<noteq> mallocs u" using owners_buffer [of u] by auto
qed

section \<open>The operations keep it\<close>

lemma intact_same:
  "intact h r \<Longrightarrow> h' (r_buffer r) \<noteq> None \<Longrightarrow> bytes_of (r_buffer r) h' = bytes_of (r_buffer r) h \<Longrightarrow> intact h' r"
  by (simp add: intact_def)

lemma rewind_ok:
  assumes "unpacker_ok u" and "m_used u = m_off u" and "get_count (m_buffer u) (buffers u) = 1" and "\<not> m_referenced u"
  shows "unpacker_ok (rewind u)"
proof -
  have "counted (buffers u) (owners u)" using assms(1) by (simp add: unpacker_ok_def)
  from counted_get [OF this] assms(3) have one: "owners u (m_buffer u) = 1" by simp
  with assms have "\<forall>r \<in> set (references u). r_buffer r \<noteq> m_buffer u"
    using no_references [of u] by (simp add: unpacker_ok_def)
  with assms one show ?thesis
    by (auto simp: unpacker_ok_def rewind_def bounds_ok_def references_ok_def)
qed

lemma rewind_nonparsed: "m_used u = m_off u \<Longrightarrow> nonparsed (rewind u) = nonparsed u"
  by (simp add: nonparsed_def rewind_def)

text \<open>A move to a new buffer: the parser owns it, and what the old one keeps as owners is unchanged.\<close>

lemma owners_moved:
  "owners (u\<lparr>m_buffer := b\<rparr>) x = of_bool (x = b) + (owners u x - of_bool (x = m_buffer u))"
  by (auto simp: owners_def)

lemma part_of_prefix:
  "j + k \<le> length xs \<Longrightarrow> j + k \<le> n \<Longrightarrow> take k (drop j (take n xs @ ys)) = take k (drop j xs)"
  by (simp add: take_drop min_def add.commute)

text \<open>What the operations that make room promise.\<close>

definition makes_room :: "nat \<Rightarrow> unpacker \<Rightarrow> (unit, unpacker) result \<Rightarrow> bool" where
  "makes_room n u r \<longleftrightarrow> unpacker_ok (snd r) \<and> nonparsed (snd r) = nonparsed u \<and> m_used (snd r) \<le> m_used u
     \<and> fst r \<noteq> Crash \<and> (fst r = Return () \<longrightarrow> n \<le> m_free (snd r))"

definition malloc_ok :: "malloc \<Rightarrow> bool" where
  "malloc_ok malloc \<longleftrightarrow> (\<forall>i n bs. malloc i n = Some bs \<longrightarrow> length bs = n)"

lemma no_room: "unpacker_ok u \<Longrightarrow> makes_room n u (Throw msg, u)"
  by (simp add: makes_room_def)

lemma realloc_ok:
  assumes ok: "unpacker_ok u" and off: "m_off u = COUNTER_SIZE" and small: "n + m_used u < 2 ^ 64" and malloc: "malloc_ok malloc"
  shows "makes_room n u (realloc_buffer malloc n u)"
proof -
  define nsize where "nsize = grow (to_size ((m_used u + m_free u) * 2)) (to_size (n + m_used u))"
  define old where "old = bytes_of (m_buffer u) (buffers u)"
  have counted: "counted (buffers u) (owners u)" and bounds: "bounds_ok u" and refs: "references_ok u"
    using ok by (simp_all add: unpacker_ok_def)
  have one: "owners u (m_buffer u) = 1" and unref: "\<not> m_referenced u"
    using bounds off owners_buffer [of u] by (auto simp: bounds_ok_def)
  have enough: "n + m_used u \<le> nsize" using grow_enough [of "to_size (n + m_used u)"] small by (simp add: nsize_def)
  note fresh = fresh_call [OF ok] fresh_unowned [OF ok] fresh_buffer [OF ok]
  have used: "m_off u \<le> m_used u" "m_used u \<le> length old" using bounds by (simp_all add: bounds_ok_def old_def)
  show ?thesis
  proof (cases "malloc (mallocs u) nsize")
    case None
    with no_room [OF ok] show ?thesis unfolding realloc_buffer_def Let_def nsize_def [symmetric] by simp
  next
    case (Some bs)
    let ?new = "take nsize old @ drop (length old) bs"
    let ?v = "u\<lparr>buffers := (buffers u)(m_buffer u := None, mallocs u \<mapsto> (1, ?new)),
                mallocs := mallocs u + 1, m_buffer := mallocs u, m_free := nsize - m_used u\<rparr>"
    have r: "realloc_buffer malloc n u = (Return (), ?v)"
      using Some counted_get [OF counted] one
      unfolding realloc_buffer_def Let_def nsize_def [symmetric] old_def [symmetric] by simp
    have size: "length ?new = nsize" using malloc Some by (simp add: malloc_ok_def min_def)
    have "nonparsed ?v = nonparsed u"
      using part_of_prefix [of "m_off u" "m_used u - m_off u" old nsize] used enough by (simp add: nonparsed_def old_def)
    moreover have "counted (buffers ?v) (owners ?v)"
      using counted one fresh by (auto simp: counted_def owners_moved)
    moreover have "bounds_ok ?v" using bounds unref enough size fresh by (simp add: bounds_ok_def owners_moved)
    moreover have "references_ok ?v"
      using refs no_references [OF refs one unref] references_owned [OF refs] fresh unref
      by (auto simp: references_ok_def intact_def)
    moreover have "\<forall>b \<ge> mallocs ?v. buffers ?v b = None" using ok by (simp add: unpacker_ok_def)
    ultimately show ?thesis using enough by (simp add: r makes_room_def unpacker_ok_def)
  qed
qed

text \<open>The state after a move to a fresh buffer, whoever keeps the old one.\<close>

lemma moved_ok:
  assumes ok: "unpacker_ok u" and off: "COUNTER_SIZE < m_off u"
    and v: "v = u\<lparr>mallocs := mallocs u + 1, m_buffer := mallocs u, m_used := m_used u - m_off u + COUNTER_SIZE,
                 m_free := nsize - (m_used u - m_off u + COUNTER_SIZE), m_off := COUNTER_SIZE, m_referenced := False,
                 buffers := h, m_zone := zs\<rparr>"
    and enough: "n + (m_used u - m_off u) + COUNTER_SIZE \<le> nsize"
    and fresh: "length (bytes_of (mallocs u) h) = nsize"
      "take (m_used u - m_off u) (drop COUNTER_SIZE (bytes_of (mallocs u) h)) = nonparsed u"
    and h: "counted h (owners v)" "\<And>x. 0 < owners v x \<Longrightarrow> x \<noteq> mallocs u \<Longrightarrow> bytes_of x h = bytes_of x (buffers u)"
    and zs: "set (m_zone u) \<subseteq> set zs" "m_referenced u \<Longrightarrow> m_buffer u \<in> set zs"
    and own: "owners v (mallocs u) = 1" "\<And>b. mallocs u < b \<Longrightarrow> owners v b = 0"
  shows "makes_room n u (Return (), v)"
proof -
  have refs: "references_ok u" and "bounds_ok u" using ok by (simp_all add: unpacker_ok_def)
  then have used: "m_off u \<le> m_used u" by (simp add: bounds_ok_def)
  have fields: "m_buffer v = mallocs u" "\<not> m_referenced v" "pending v = pending u" "held v = held u" "m_zone v = zs"
    "buffers v = h" "m_off v = COUNTER_SIZE" "m_used v = m_used u - m_off u + COUNTER_SIZE"
    "m_free v = nsize - (m_used u - m_off u + COUNTER_SIZE)" "mallocs v = mallocs u + 1" "references v = references u"
    by (simp_all add: v)
  have third: "\<forall>r \<in> set (pending v). r_buffer r = m_buffer v \<and> m_referenced v \<or> r_buffer r \<in> set (m_zone v)"
    using refs zs by (auto simp: fields references_ok_def)
  have fourth: "\<forall>z \<in> set (held v). \<forall>r \<in> set (snd z). r_buffer r \<in> set (fst z)"
    using refs by (simp add: fields references_ok_def)
  have other: "r_buffer r \<noteq> mallocs u" if "r \<in> set (references u)" for r
    using refs that fresh_call [OF ok] by (auto simp: references_ok_def intact_def)
  have owned: "0 < owners v (r_buffer r)" if "r \<in> set (references u)" for r
    using that unfolding fields(11) [symmetric]
  proof (cases rule: references_cases)
    case 1
    then show ?thesis using third fields(2) owners_zone [of "r_buffer r" v] by fastforce
  next
    case (2 z)
    then show ?thesis using fourth owners_held [OF 2(1), of "r_buffer r"] by fastforce
  qed
  have "intact h r" if r: "r \<in> set (references u)" for r
  proof (rule intact_same)
    show "intact (buffers u) r" using refs r by (simp add: references_ok_def)
    show "h (r_buffer r) \<noteq> None" using counted_None [OF h(1)] owned [OF r] by simp
    show "bytes_of (r_buffer r) h = bytes_of (r_buffer r) (buffers u)" using h(2) owned other r by simp
  qed
  with other third fourth have "references_ok v" by (simp add: references_ok_def fields)
  moreover have "bounds_ok v" using own(1) enough by (simp add: bounds_ok_def fields fresh)
  moreover have "\<forall>b \<ge> mallocs v. buffers v b = None" using counted_None [OF h(1)] own(2) by (simp add: fields)
  moreover have "nonparsed v = nonparsed u" using fresh(2) by (simp add: nonparsed_def [of v] fields)
  moreover have "m_used v \<le> m_used u" "n \<le> m_free v" using used off enough by (simp_all add: fields)
  ultimately show ?thesis using h(1) by (simp add: makes_room_def unpacker_ok_def fields(6))
qed

lemma replace_ok:
  assumes ok: "unpacker_ok u" and off: "COUNTER_SIZE < m_off u" and small: "n + m_used u < 2 ^ 64"
    and malloc: "malloc_ok malloc" and push: "\<And>z. push_ok z"
  shows "makes_room n u (replace_buffer malloc push_ok n u)"
proof -
  define rest where "rest = m_used u - m_off u"
  define nsize where "nsize = grow (m_initial_buffer_size u) (to_size (n + rest + COUNTER_SIZE))"
  have counted: "counted (buffers u) (owners u)" and bounds: "bounds_ok u" using ok by (simp_all add: unpacker_ok_def)
  note fresh = fresh_call [OF ok] fresh_unowned [OF ok] fresh_buffer [OF ok]
  have used: "m_off u \<le> m_used u" "m_used u \<le> length (bytes_of (m_buffer u) (buffers u))"
    using bounds by (simp_all add: bounds_ok_def)
  have enough: "n + rest + COUNTER_SIZE \<le> nsize"
    using grow_enough [of "to_size (n + rest + COUNTER_SIZE)" "m_initial_buffer_size u"] small off used(1)
    by (simp add: nsize_def rest_def)
  have above: "\<And>b. mallocs u < b \<Longrightarrow> owners u b = 0" using ok counted_None [OF counted] by (simp add: unpacker_ok_def)
  show ?thesis
  proof (cases "malloc (mallocs u) nsize")
    case None
    with no_room [OF ok] show ?thesis
      unfolding replace_buffer_def Let_def rest_def [symmetric] nsize_def [symmetric] by simp
  next
    case (Some bs)
    define new where "new = take COUNTER_SIZE bs @ nonparsed u @ drop (COUNTER_SIZE + rest) bs"
    define h where "h = (buffers u)(mallocs u \<mapsto> (1, new))"
    have "length bs = nsize" using malloc Some by (simp add: malloc_ok_def)
    moreover have "length (nonparsed u) = rest" using used by (simp add: nonparsed_def rest_def)
    ultimately have new: "length new = nsize" "take rest (drop COUNTER_SIZE new) = nonparsed u"
      using enough by (simp_all add: new_def min_absorb2)
    have hc: "counted h (\<lambda>x. of_bool (x = mallocs u) + owners u x)"
      using counted fresh by (auto simp: h_def counted_def)
    define v where "v h' zs = u\<lparr>mallocs := mallocs u + 1, m_buffer := mallocs u, m_used := rest + COUNTER_SIZE,
        m_free := nsize - (rest + COUNTER_SIZE), m_off := COUNTER_SIZE, m_referenced := False, buffers := h', m_zone := zs\<rparr>"
      for h' zs
    have room: "makes_room n u (Return (), v h' zs)"
      if "counted h' (owners (v h' zs))" "\<And>x. 0 < owners (v h' zs) x \<Longrightarrow> bytes_of x h' = bytes_of x h"
        and "set (m_zone u) \<subseteq> set zs" "m_referenced u \<Longrightarrow> m_buffer u \<in> set zs" "owners (v h' zs) (mallocs u) = 1"
        "\<And>b. mallocs u < b \<Longrightarrow> owners (v h' zs) b = 0" for h' zs
      by (rule moved_ok [OF ok off v_def [of h' zs, unfolded rest_def]])
         (use that new enough in \<open>simp_all add: h_def rest_def\<close>)
    note defs = replace_buffer_def Let_def rest_def [symmetric] nsize_def [symmetric]
      nonparsed_def [of u, unfolded rest_def [symmetric], symmetric] new_def [symmetric] h_def [symmetric]
    show ?thesis
    proof (cases "m_referenced u")
      case True
      have own: "owners (v h (m_buffer u # m_zone u)) = (\<lambda>x. of_bool (x = mallocs u) + owners u x)"
        by (simp add: v_def owners_def fun_eq_iff)
      have "replace_buffer malloc push_ok n u = (Return (), v h (m_buffer u # m_zone u))"
        using True Some push unfolding defs by (simp add: h_def new_def v_def)
      moreover have "makes_room n u (Return (), v h (m_buffer u # m_zone u))"
        by (rule room) (use hc fresh above in \<open>auto simp: own\<close>)
      ultimately show ?thesis by simp
    next
      case False
      let ?f = "\<lambda>x. of_bool (x = mallocs u) + owners u x"
      have "0 < ?f (m_buffer u)" using owners_buffer [of u] by simp
      from decr_count_counted [OF hc this] obtain h' where h': "decr_count (m_buffer u) h = Some h'"
        "counted h' (?f(m_buffer u := ?f (m_buffer u) - 1))"
        "\<And>x. 0 < (?f(m_buffer u := ?f (m_buffer u) - 1)) x \<Longrightarrow> bytes_of x h' = bytes_of x h" by blast
      have own: "owners (v h' (m_zone u)) = ?f(m_buffer u := ?f (m_buffer u) - 1)"
        using fresh(3) by (auto simp: v_def fun_eq_iff owners_def)
      have "replace_buffer malloc push_ok n u = (Return (), v h' (m_zone u))"
        using False Some h'(1) unfolding defs by (simp add: h_def new_def v_def)
      moreover have "makes_room n u (Return (), v h' (m_zone u))"
      proof (rule room)
        show "counted h' (owners (v h' (m_zone u)))" using h'(2) by (simp only: own)
        show "bytes_of x h' = bytes_of x h" if "0 < owners (v h' (m_zone u)) x" for x using h'(3) that by (simp only: own)
      qed (use fresh above False in \<open>auto simp: own\<close>)
      ultimately show ?thesis by simp
    qed
  qed
qed

lemma reserve_ok:
  assumes ok: "unpacker_ok u" and small: "n + m_used u < 2 ^ 64" and malloc: "malloc_ok malloc" and push: "\<And>z. push_ok z"
  shows "makes_room n u (reserve_buffer malloc push_ok n u)"
proof (cases "n \<le> m_free u")
  case True
  with ok show ?thesis by (simp add: reserve_buffer_def makes_room_def)
next
  case False
  define rewound where "rewound = (m_used u = m_off u \<and> get_count (m_buffer u) (buffers u) = 1 \<and> \<not> m_referenced u)"
  define v where "v = (if rewound then rewind u else u)"
  have off: "COUNTER_SIZE \<le> m_off u" "m_off u \<le> m_used u" using ok by (simp_all add: unpacker_ok_def bounds_ok_def)
  have v: "unpacker_ok v" "nonparsed v = nonparsed u" "m_used v \<le> m_used u" "COUNTER_SIZE \<le> m_off v"
    using ok rewind_ok [OF ok] rewind_nonparsed [of u] off by (auto simp: v_def rewound_def rewind_def)
  have "makes_room n v (realloc_buffer malloc n v)" if "m_off v = COUNTER_SIZE"
    using realloc_ok [OF v(1) that _ malloc, of n] small v(3) by simp
  moreover have "makes_room n v (replace_buffer malloc push_ok n v)" if "m_off v \<noteq> COUNTER_SIZE"
    using replace_ok [OF v(1) _ _ malloc push, of n] small v(3,4) that by simp
  moreover have "makes_room n v (Return (), v)" if "n \<le> m_free v" using v(1) that by (simp add: makes_room_def)
  ultimately have "makes_room n v (expand_buffer malloc push_ok n u)"
    unfolding expand_buffer_def Let_def rewound_def [symmetric] v_def [symmetric] by simp
  with v(2,3) False show ?thesis by (auto simp: makes_room_def reserve_buffer_def)
qed

lemma part_of_write:
  "j + k \<le> n \<Longrightarrow> n \<le> length xs \<Longrightarrow> take k (drop j (take n xs @ ys)) = take k (drop j xs)"
  using part_of_prefix [of j k xs n ys] by simp

lemma receive_ok:
  assumes ok: "unpacker_ok u" and fits: "length bs \<le> m_free u"
  shows "unpacker_ok (receive bs u)" and "nonparsed (receive bs u) = nonparsed u @ bs"
    and "m_used (receive bs u) = m_used u + length bs"
proof -
  define old where "old = bytes_of (m_buffer u) (buffers u)"
  let ?new = "take (m_used u) old @ bs @ drop (m_used u + length bs) old"
  have counted: "counted (buffers u) (owners u)" and bounds: "bounds_ok u" and refs: "references_ok u"
    using ok by (simp_all add: unpacker_ok_def)
  have used: "m_off u \<le> m_used u" "m_used u + m_free u \<le> length old" using bounds by (simp_all add: bounds_ok_def old_def)
  have rcv: "receive bs u = u\<lparr>buffers := (buffers u)(m_buffer u \<mapsto> (owners u (m_buffer u), ?new)),
      m_used := m_used u + length bs, m_free := m_free u - length bs\<rparr>"
    by (simp add: receive_def Let_def old_def counted_get [OF counted])
  have size: "length ?new = length old" using used fits by simp
  have "counted (buffers (receive bs u)) (owners (receive bs u))"
    using counted owners_buffer [of u] by (auto simp: rcv counted_def)
  moreover have "bounds_ok (receive bs u)" using bounds size fits by (simp add: rcv bounds_ok_def old_def)
  moreover have "references_ok (receive bs u)"
  proof -
    have "intact (buffers (receive bs u)) r" if "r \<in> set (references u)" for r
    proof (cases "r_buffer r = m_buffer u")
      case True
      with refs that have "intact (buffers u) r" "r_off r + length (r_bytes r) \<le> m_off u" by (auto simp: references_ok_def)
      with True used size part_of_write [of "r_off r" "length (r_bytes r)" "m_used u" old "bs @ drop (m_used u + length bs) old"]
      show ?thesis by (simp add: intact_def rcv old_def)
    next
      case False
      with refs that show ?thesis by (simp add: intact_def rcv references_ok_def)
    qed
    with refs show ?thesis by (simp add: references_ok_def rcv references_def)
  qed
  moreover have "\<forall>b \<ge> mallocs (receive bs u). buffers (receive bs u) b = None"
    using ok fresh_buffer [OF ok] counted_live [OF counted owners_buffer] by (auto simp: rcv unpacker_ok_def)
  ultimately show "unpacker_ok (receive bs u)" by (simp add: unpacker_ok_def)
  show "nonparsed (receive bs u) = nonparsed u @ bs" using used fits by (simp add: nonparsed_def rcv old_def drop_take)
  show "m_used (receive bs u) = m_used u + length bs" by (simp add: rcv)
qed

text \<open>What the parser may use: bytes that are there, and parts of the bytes it uses.\<close>

definition parse_ok :: "nat \<Rightarrow> bool \<Rightarrow> (nat \<times> nat) list \<Rightarrow> unpacker \<Rightarrow> bool" where
  "parse_ok k referenced parts u \<longleftrightarrow> k \<le> nonparsed_size u \<and> (referenced \<longrightarrow> 0 < k) \<and> (parts \<noteq> [] \<longrightarrow> referenced)
     \<and> list_all (\<lambda>(off, n). m_off u \<le> off \<and> off + n \<le> m_off u + k) parts"

lemma parsed_ok:
  assumes ok: "unpacker_ok u" and parse: "parse_ok k referenced parts u"
  shows "unpacker_ok (parsed k referenced parts u)" and "nonparsed (parsed k referenced parts u) = drop k (nonparsed u)"
    and "m_used (parsed k referenced parts u) = m_used u"
proof -
  have counted: "counted (buffers u) (owners u)" and bounds: "bounds_ok u" and refs: "references_ok u"
    using ok by (simp_all add: unpacker_ok_def)
  have live: "buffers u (m_buffer u) \<noteq> None" using counted_None [OF counted] owners_buffer [of u] by simp
  have k: "k \<le> m_used u - m_off u" and parts: "\<forall>(off, n) \<in> set parts. off + n \<le> m_off u + k"
    using parse by (auto simp: parse_ok_def nonparsed_size_def list_all_iff)
  define new where "new = map (\<lambda>(off, n). \<lparr>r_buffer = m_buffer u, r_off = off,
      r_bytes = take n (drop off (bytes_of (m_buffer u) (buffers u)))\<rparr>) parts"
  define v where "v = parsed k referenced parts u"
  have fields: "m_buffer v = m_buffer u" "buffers v = buffers u" "m_off v = m_off u + k" "m_zone v = m_zone u" "held v = held u"
    "pending v = pending u @ new" "m_referenced v = (m_referenced u \<or> referenced)"
    by (simp_all add: v_def parsed_def new_def)
  have new: "intact (buffers u) r \<and> r_buffer r = m_buffer u \<and> r_off r + length (r_bytes r) \<le> m_off u + k \<and> referenced"
    if "r \<in> set new" for r
  proof -
    from that obtain off n where r: "(off, n) \<in> set parts"
      "r = \<lparr>r_buffer = m_buffer u, r_off = off, r_bytes = take n (drop off (bytes_of (m_buffer u) (buffers u)))\<rparr>"
      by (auto simp: new_def)
    have "off + n \<le> m_off u + k" using parts r(1) by auto
    moreover have "m_off u + k \<le> length (bytes_of (m_buffer u) (buffers u))" using k bounds unfolding bounds_ok_def by linarith
    moreover have "referenced" using parse r(1) by (auto simp: parse_ok_def)
    moreover from calculation have "length (r_bytes r) = n" by (simp add: r(2))
    ultimately show ?thesis using live by (simp add: r(2) intact_def)
  qed
  have "references_ok v"
    using refs new by (auto simp: references_ok_def fields references_def)
  then have "references_ok (parsed k referenced parts u)" by (simp add: v_def)
  moreover have "bounds_ok (parsed k referenced parts u)"
    using bounds parse k by (auto simp: bounds_ok_def parsed_def parse_ok_def)
  ultimately show "unpacker_ok (parsed k referenced parts u)"
    using ok by (simp add: unpacker_ok_def parsed_def)
  show "nonparsed (parsed k referenced parts u) = drop k (nonparsed u)"
    using k by (simp add: nonparsed_def parsed_def drop_take add.commute)
  show "m_used (parsed k referenced parts u) = m_used u" by (simp add: parsed_def)
qed

lemma next_object_ok:
  assumes ok: "unpacker_ok u" and push: "\<And>z. push_ok z"
  shows "unpacker_ok (unpacker_next push_ok u)" and "nonparsed (unpacker_next push_ok u) = nonparsed u"
proof -
  define zone where "zone = (if m_referenced u then m_buffer u # m_zone u else m_zone u)"
  define h where "h = (if m_referenced u then incr_count (m_buffer u) (buffers u) else buffers u)"
  define v where "v = u\<lparr>buffers := h, m_referenced := False, held := (zone, pending u) # held u, m_zone := [], pending := [], m_parsed := 0\<rparr>"
  have v: "unpacker_next push_ok u = v" using push by (simp add: v_def unpacker_next_def zone_def h_def)
  have counted: "counted (buffers u) (owners u)" and bounds: "bounds_ok u" and refs: "references_ok u"
    using ok by (simp_all add: unpacker_ok_def)
  obtain c bs where live: "buffers u (m_buffer u) = Some (c, bs)" using counted_live [OF counted owners_buffer] by blast
  have own: "owners v x = owners u x + of_bool (m_referenced u \<and> x = m_buffer u)" for x
    by (auto simp: v_def owners_def zone_def)
  have fields: "buffers v = h" "mallocs v = mallocs u" "m_buffer v = m_buffer u" "m_off v = m_off u" "m_used v = m_used u"
    "m_free v = m_free u" "\<not> m_referenced v" "m_zone v = []" "pending v = []" "held v = (zone, pending u) # held u"
    by (simp_all add: v_def)
  have h: "bytes_of x h = bytes_of x (buffers u)" "h x = None \<longleftrightarrow> buffers u x = None"
    "get_count x h = get_count x (buffers u) + of_bool (m_referenced u \<and> x = m_buffer u)" for x
    using live by (auto simp: h_def incr_count_def get_count_def bytes_of_def)
  have "counted (buffers v) (owners v)"
    using counted owners_buffer [of u] by (auto simp: counted_def own h fields)
  moreover have "bounds_ok v" using bounds by (auto simp: bounds_ok_def own h fields)
  moreover have "references_ok v"
    using refs by (auto simp: references_ok_def references_def intact_def h zone_def fields)
  moreover have "\<forall>b \<ge> mallocs v. buffers v b = None" using ok by (simp add: unpacker_ok_def h fields)
  ultimately show "unpacker_ok (unpacker_next push_ok u)" by (simp add: unpacker_ok_def v)
  show "nonparsed (unpacker_next push_ok u) = nonparsed u" by (simp add: v nonparsed_def h fields)
qed

lemma drop_object_ok:
  assumes ok: "unpacker_ok u" and i: "i < length (held u)"
  shows "\<exists>u'. drop_object i u = (Return (), u') \<and> unpacker_ok u' \<and> nonparsed u' = nonparsed u"
proof -
  define zs where "zs = take i (held u) @ drop (Suc i) (held u)"
  define g where "g x = of_bool (x = m_buffer u) + count_list (m_zone u) x + sum_list (map (\<lambda>z. count_list (fst z) x) zs)" for x
  have counted: "counted (buffers u) (owners u)" and bounds: "bounds_ok u" and refs: "references_ok u"
    using ok by (simp_all add: unpacker_ok_def)
  have held: "held u = take i (held u) @ held u ! i # drop (Suc i) (held u)" using i by (rule id_take_nth_drop)
  have own: "owners u = (\<lambda>x. g x + count_list (fst (held u ! i)) x)"
    by (rule ext, simp add: owners_def g_def zs_def, subst held, simp)
  from run_finalizers_counted [OF counted [unfolded own]] obtain h where
    h: "run_finalizers (fst (held u ! i)) (buffers u) = Some h" "counted h g" "\<And>x. 0 < g x \<Longrightarrow> bytes_of x h = bytes_of x (buffers u)"
    by blast
  let ?v = "u\<lparr>buffers := h, held := zs\<rparr>"
  have v: "drop_object i u = (Return (), ?v)" by (simp add: drop_object_def h(1) zs_def)
  have own_v: "owners ?v = g" by (rule ext) (simp add: owners_def g_def)
  have sub: "set zs \<subseteq> set (held u)" by (auto simp: zs_def dest: in_set_takeD in_set_dropD)
  have refs_v: "set (references ?v) \<subseteq> set (references u)" using sub by (auto simp: references_def)
  have third: "references_ok u \<Longrightarrow> r \<in> set (references ?v) \<Longrightarrow> 0 < g (r_buffer r)" for r
  proof (erule references_cases)
    assume "references_ok u" "r \<in> set (pending ?v)"
    then have "r_buffer r = m_buffer ?v \<or> r_buffer r \<in> set (m_zone ?v)" by (auto simp: references_ok_def)
    then show "0 < g (r_buffer r)" using owners_buffer [of ?v] owners_zone [of "r_buffer r" ?v] by (auto simp: own_v)
  next
    fix z assume "references_ok u" "z \<in> set (held ?v)" "r \<in> set (snd z)"
    then show "0 < g (r_buffer r)"
      using owners_held [of z ?v "r_buffer r"] sub by (auto simp: references_ok_def own_v)
  qed
  have "references_ok ?v"
    using refs refs_v sub third [OF refs] h(3) counted_None [OF h(2)]
    by (simp add: references_ok_def intact_def) blast
  moreover have "bounds_ok ?v"
    using bounds h(3) [of "m_buffer u"] by (auto simp: bounds_ok_def own_v own, auto simp: g_def)
  moreover have "\<forall>b \<ge> mallocs ?v. buffers ?v b = None"
    using ok counted_None [OF counted] counted_None [OF h(2)] by (simp add: unpacker_ok_def own)
  moreover have "nonparsed ?v = nonparsed u" using h(3) [of "m_buffer u"] by (simp add: nonparsed_def g_def)
  ultimately show ?thesis using v h(2) by (auto simp: unpacker_ok_def own_v)
qed

lemma skip_ok: "unpacker_ok u \<Longrightarrow> n \<le> nonparsed_size u \<Longrightarrow> unpacker_ok (skip_nonparsed_buffer n u)"
  by (auto simp: unpacker_ok_def skip_nonparsed_buffer_def bounds_ok_def references_ok_def nonparsed_size_def)

lemma remove_ok: "unpacker_ok u \<Longrightarrow> unpacker_ok (remove_nonparsed_buffer u)"
  by (auto simp: unpacker_ok_def remove_nonparsed_buffer_def bounds_ok_def references_ok_def)

lemma new_unpacker_ok:
  assumes "malloc_ok malloc" and "new_unpacker malloc initial = Some u"
  shows "unpacker_ok u" and "nonparsed u = []" and "m_used u = COUNTER_SIZE" and "held u = []"
proof -
  define n where "n = (if initial < COUNTER_SIZE then COUNTER_SIZE else initial)"
  from assms(2) obtain bs where bs: "malloc 0 n = Some bs" and
    u: "u = \<lparr>buffers = [0 \<mapsto> (1, bs)], mallocs = 1, m_buffer = 0, m_used = COUNTER_SIZE,
             m_free = n - COUNTER_SIZE, m_off = COUNTER_SIZE, m_parsed = 0, m_initial_buffer_size = n,
             m_referenced = False, m_zone = [], pending = [], held = []\<rparr>"
    by (auto simp: new_unpacker_def Let_def n_def split: option.splits)
  have "length bs = n" using assms(1) bs by (simp add: malloc_ok_def)
  then show "unpacker_ok u"
    by (auto simp: u unpacker_ok_def counted_def owners_def bounds_ok_def references_ok_def references_def n_def
        get_count_def bytes_of_def)
  show "nonparsed u = []" "m_used u = COUNTER_SIZE" "held u = []" by (simp_all add: u nonparsed_def)
qed

section \<open>The unpacker as a transition system\<close>

text \<open>What the server and the owners of objects do, in any order. The parser and the visitor appear with all
  they may do to the buffer.\<close>

inductive unpacker_step :: "malloc \<Rightarrow> (nat list \<Rightarrow> bool) \<Rightarrow> unpacker \<Rightarrow> unpacker \<Rightarrow> bool" for malloc push_ok where
  Reserves: "n + m_used u < 2 ^ 64 \<Longrightarrow> unpacker_step malloc push_ok u (snd (reserve_buffer malloc push_ok n u))"
| Receives: "length bs \<le> m_free u \<Longrightarrow> unpacker_step malloc push_ok u (receive bs u)"
| Parses: "parse_ok k referenced parts u \<Longrightarrow> unpacker_step malloc push_ok u (parsed k referenced parts u)"
| Completes: "unpacker_step malloc push_ok u (unpacker_next push_ok u)"
| Drops: "i < length (held u) \<Longrightarrow> unpacker_step malloc push_ok u (snd (drop_object i u))"
| Skips: "n \<le> nonparsed_size u \<Longrightarrow> unpacker_step malloc push_ok u (skip_nonparsed_buffer n u)"
| Removes: "unpacker_step malloc push_ok u (remove_nonparsed_buffer u)"

inductive unpacker_reachable :: "malloc \<Rightarrow> (nat list \<Rightarrow> bool) \<Rightarrow> unpacker \<Rightarrow> bool" for malloc push_ok where
  Starts: "new_unpacker malloc initial = Some u \<Longrightarrow> unpacker_reachable malloc push_ok u"
| Steps: "unpacker_reachable malloc push_ok u \<Longrightarrow> unpacker_step malloc push_ok u u' \<Longrightarrow> unpacker_reachable malloc push_ok u'"

lemma unpacker_step_ok:
  assumes "unpacker_step malloc push_ok u u'" and "unpacker_ok u" and "malloc_ok malloc" and "\<And>z. push_ok z"
  shows "unpacker_ok u'"
  using assms(1)
proof cases
  case (Reserves n)
  with reserve_ok [OF assms(2) Reserves(2) assms(3), of push_ok] assms(4) show ?thesis by (simp add: makes_room_def)
next
  case (Drops i)
  with drop_object_ok [OF assms(2) Drops(2)] show ?thesis by auto
qed (use assms(2,4) in \<open>simp_all add: receive_ok parsed_ok next_object_ok skip_ok remove_ok\<close>)

lemma unpacker_reachable_ok:
  assumes "unpacker_reachable malloc push_ok u" and "malloc_ok malloc" and "\<And>z. push_ok z"
  shows "unpacker_ok u"
  using assms(1)
proof induction
  case (Starts initial u)
  with new_unpacker_ok(1) [OF assms(2)] show ?case by blast
next
  case (Steps u u')
  with unpacker_step_ok [OF Steps(2) Steps.IH assms(2,3)] show ?case by blast
qed

section \<open>The parser on the buffer\<close>

text \<open>The parser only moves forward in the bytes it was given.\<close>

fun round_rest :: "'v round \<Rightarrow> octets" where
  "round_rest (Again c bs) = bs"
| "round_rest (Leave ret c bs) = bs"

lemma after_visit_rest: "round_rest (after_visit vis call c rest) = rest"
  by (auto simp: after_visit_def split: prod.splits outcome.splits bool.splits parse_return.splits)

lemma start_aggregate_rest: "round_rest (start_aggregate vis sv ev type n c rest) = rest"
  by (auto simp: start_aggregate_def Let_def split: prod.splits outcome.splits parse_return.splits)

lemma report_error_rest: "round_rest (report_error vis c bs) = bs"
  by (auto simp: report_error_def split: prod.splits outcome.splits)

lemmas round_rests = after_visit_rest start_aggregate_rest report_error_rest

lemma header_round_rest: "round_rest (header_round vis c b bs) \<in> {bs, b # bs}"
  by (auto simp: header_round_def Let_def start_array_def start_map_def round_rests split: prod.splits)

lemma trail_round_rest: "round_rest (trail_round vis c payload rest) = rest"
  by (cases "m_cs c") (simp_all add: trail_round_def whole_def sized_def start_array_def start_map_def round_rests)

lemma parse_round_rest: "\<exists>k \<le> length bs. round_rest (parse_round vis c bs) = drop k bs"
proof (cases bs)
  case (Cons b bs')
  consider "m_cs c = CS_HEADER" | "m_cs c \<noteq> CS_HEADER" "length bs < m_trail c" | "m_cs c \<noteq> CS_HEADER" "m_trail c \<le> length bs"
    by linarith
  then show ?thesis
  proof cases
    case 1
    with header_round_rest [of vis c b bs'] Cons have "round_rest (parse_round vis c bs) \<in> {drop 1 bs, drop 0 bs}"
      by (simp add: parse_round_def)
    with Cons show ?thesis by (auto intro: exI [of _ 1] exI [of _ 0])
  next
    case 2
    with Cons show ?thesis by (auto simp: parse_round_def intro: exI [of _ 0])
  next
    case 3
    with Cons show ?thesis by (auto simp: parse_round_trail trail_round_rest intro: exI [of _ "m_trail c"])
  qed
qed (simp add: parse_round_def)

lemma execute_rest: "execute vis c bs = (ret, c', rest) \<Longrightarrow> \<exists>k \<le> length bs. rest = drop k bs"
proof (induction vis c bs rule: execute.induct)
  case (1 vis c bs)
  from parse_round_rest [of bs vis c] obtain k where k: "k \<le> length bs" "round_rest (parse_round vis c bs) = drop k bs" by blast
  show ?case
  proof (cases "parse_round vis c bs")
    case (Again c1 bs1)
    with 1 obtain j where "j \<le> length bs1" "rest = drop j bs1" by (auto simp: execute_go [of vis c bs])
    with k Again show ?thesis by (auto intro!: exI [of _ "j + k"] simp: add.commute)
  next
    case (Leave ret1 c1 bs1)
    with 1(2) k show ?thesis by (auto simp: execute_go [of vis c bs])
  qed
qed

text \<open>A queue of bytes as the parser needs it: bytes are put at the end, which can fail, and taken off the front;
  the flag of \<open>dequeue\<close> tells whether the visitor keeps parts of the bytes.\<close>

fun feed_queue ::
    "(octets \<Rightarrow> 's \<Rightarrow> 's option) \<Rightarrow> ('s \<Rightarrow> octets) \<Rightarrow> (bool \<Rightarrow> nat \<Rightarrow> 's \<Rightarrow> 's) \<Rightarrow> ('v \<Rightarrow> bool) \<Rightarrow> 'v visitor
     \<Rightarrow> 'v parse_context \<Rightarrow> 's \<Rightarrow> octets list \<Rightarrow> (parse_return outcome \<times> 'v parse_context \<times> octets) option" where
  "feed_queue enqueue contents dequeue refd vis c s [] = Some (Return PARSE_CONTINUE, c, contents s)"
| "feed_queue enqueue contents dequeue refd vis c s (piece # pieces) =
     (case enqueue piece s of
        None \<Rightarrow> None
      | Some s1 \<Rightarrow>
          (case execute vis c (contents s1) of
             (ret, c', rest) \<Rightarrow>
               (let s2 = dequeue (refd (m_visitor c')) (length (contents s1) - length rest) s1
                in if ret = Return PARSE_CONTINUE then feed_queue enqueue contents dequeue refd vis c' s2 pieces
                   else Some (ret, c', contents s2 @ concat pieces))))"

text \<open>What the parser relies on; \<open>ok n s\<close> when \<open>n\<close> more bytes may come.\<close>

locale byte_queue =
  fixes ok :: "nat \<Rightarrow> 's \<Rightarrow> bool"
    and enqueue :: "octets \<Rightarrow> 's \<Rightarrow> 's option"
    and contents :: "'s \<Rightarrow> octets"
    and dequeue :: "bool \<Rightarrow> nat \<Rightarrow> 's \<Rightarrow> 's"
  assumes enqueue_law: "ok (length bs + n) s \<Longrightarrow> \<exists>s'. enqueue bs s = Some s' \<and> ok n s' \<and> contents s' = contents s @ bs"
    and dequeue_law: "ok n s \<Longrightarrow> k \<le> length (contents s) \<Longrightarrow>
      ok n (dequeue r k s) \<and> contents (dequeue r k s) = drop k (contents s)"
begin

lemma feed_queue_feed:
  "ok (length (concat pieces)) s \<Longrightarrow> feed_queue enqueue contents dequeue refd vis c s pieces = Some (feed vis c (contents s) pieces)"
proof (induction pieces arbitrary: c s)
  case (Cons piece pieces)
  then have "ok (length piece + length (concat pieces)) s" by simp
  from enqueue_law [OF this] obtain s1 where
    s1: "enqueue piece s = Some s1" "ok (length (concat pieces)) s1" "contents s1 = contents s @ piece" by blast
  obtain ret c' rest where ex: "execute vis c (contents s1) = (ret, c', rest)" by (metis prod_cases3)
  from execute_rest [OF ex] obtain k where k: "k \<le> length (contents s1)" "rest = drop k (contents s1)" by blast
  then have used: "length (contents s1) - length rest = k" by simp
  define s2 where "s2 = dequeue (refd (m_visitor c')) k s1"
  have s2: "ok (length (concat pieces)) s2" "contents s2 = rest"
    using dequeue_law [OF s1(2) k(1)] k(2) by (simp_all add: s2_def)
  from Cons.IH [OF s2(1), of c'] ex s1 s2(2) used show ?case by (simp add: s2_def [symmetric] Let_def)
qed simp

end

text \<open>The use of the buffer that its interface describes: room is made, the bytes are copied, and the parser runs
  on what is there.\<close>

definition enqueue_buffer :: "malloc \<Rightarrow> (nat list \<Rightarrow> bool) \<Rightarrow> octets \<Rightarrow> unpacker \<Rightarrow> unpacker option" where
  "enqueue_buffer malloc push_ok bs u =
     (case reserve_buffer malloc push_ok (length bs) u of (Return _, u1) \<Rightarrow> Some (receive bs u1) | _ \<Rightarrow> None)"

definition dequeue_buffer :: "bool \<Rightarrow> nat \<Rightarrow> unpacker \<Rightarrow> unpacker" where
  "dequeue_buffer referenced k u = parsed k (referenced \<and> 0 < k) [] u"

abbreviation feed_buffer ::
    "malloc \<Rightarrow> (nat list \<Rightarrow> bool) \<Rightarrow> ('v \<Rightarrow> bool) \<Rightarrow> 'v visitor \<Rightarrow> 'v parse_context \<Rightarrow> unpacker \<Rightarrow> octets list
     \<Rightarrow> (parse_return outcome \<times> 'v parse_context \<times> octets) option" where
  "feed_buffer malloc push_ok \<equiv> feed_queue (enqueue_buffer malloc push_ok) nonparsed dequeue_buffer"

lemma reserve_returns:
  assumes "\<And>i n. malloc i n \<noteq> None" and "\<And>z. push_ok z" and "fst (reserve_buffer malloc push_ok n u) \<noteq> Crash"
  shows "fst (reserve_buffer malloc push_ok n u) = Return ()"
proof -
  have "fst (realloc_buffer malloc n v) = Return ()" for v
    using assms(1) by (auto simp: realloc_buffer_def Let_def split: option.splits)
  moreover have "fst (replace_buffer malloc push_ok n v) \<noteq> Crash \<Longrightarrow> fst (replace_buffer malloc push_ok n v) = Return ()" for v
    using assms(1,2) by (auto simp: replace_buffer_def Let_def split: option.splits)
  ultimately show ?thesis using assms(3) by (auto simp: reserve_buffer_def expand_buffer_def Let_def split: if_splits)
qed

lemma nonparsed_length: "unpacker_ok u \<Longrightarrow> length (nonparsed u) = nonparsed_size u"
  by (auto simp: unpacker_ok_def bounds_ok_def nonparsed_def nonparsed_size_def)

text \<open>Memory suffices, and the sizes stay below \<^verbatim>\<open>2^64\<close>.\<close>

definition room_for :: "malloc \<Rightarrow> (nat list \<Rightarrow> bool) \<Rightarrow> nat \<Rightarrow> unpacker \<Rightarrow> bool" where
  "room_for malloc push_ok n u \<longleftrightarrow> malloc_ok malloc \<and> (\<forall>i n. malloc i n \<noteq> None) \<and> (\<forall>z. push_ok z)
     \<and> unpacker_ok u \<and> m_used u + n < 2 ^ 64"

lemma enqueue_buffer_law:
  assumes "room_for malloc push_ok (length bs + n) u"
  shows "\<exists>u'. enqueue_buffer malloc push_ok bs u = Some u' \<and> room_for malloc push_ok n u' \<and> nonparsed u' = nonparsed u @ bs"
proof -
  have env: "malloc_ok malloc" "\<And>i n. malloc i n \<noteq> None" "\<And>z. push_ok z"
    and u: "unpacker_ok u" "m_used u + (length bs + n) < 2 ^ 64" using assms by (auto simp: room_for_def)
  obtain out u1 where r: "reserve_buffer malloc push_ok (length bs) u = (out, u1)" by fastforce
  have room: "makes_room (length bs) u (out, u1)"
    using reserve_ok [where push_ok = push_ok, OF u(1) _ env(1,3), of "length bs"] u(2) r by simp
  then have "out \<noteq> Crash" by (simp add: makes_room_def)
  with reserve_returns [where malloc = malloc and push_ok = push_ok, OF env(2,3), of "length bs" u] r
  have out: "out = Return ()" by (metis fst_conv)
  with room have u1: "unpacker_ok u1" "length bs \<le> m_free u1" "nonparsed u1 = nonparsed u" "m_used u1 \<le> m_used u"
    by (simp_all add: makes_room_def)
  have "enqueue_buffer malloc push_ok bs u = Some (receive bs u1)" by (simp add: enqueue_buffer_def r out)
  moreover have "room_for malloc push_ok n (receive bs u1)"
    using env u(2) u1(4) receive_ok(1,3) [OF u1(1,2)] by (simp add: room_for_def)
  ultimately show ?thesis using receive_ok(2) [OF u1(1,2)] u1(3) by simp
qed

lemma dequeue_buffer_law:
  assumes "room_for malloc push_ok n u" and "k \<le> length (nonparsed u)"
  shows "room_for malloc push_ok n (dequeue_buffer r k u) \<and> nonparsed (dequeue_buffer r k u) = drop k (nonparsed u)"
proof -
  have ok: "unpacker_ok u" using assms(1) by (simp add: room_for_def)
  have "parse_ok k (r \<and> 0 < k) [] u" using assms(2) nonparsed_length [OF ok] by (simp add: parse_ok_def)
  from parsed_ok [OF ok this] assms(1) show ?thesis by (simp add: dequeue_buffer_def room_for_def)
qed

interpretation unpacker_queue: byte_queue "room_for malloc push_ok" "enqueue_buffer malloc push_ok" nonparsed dequeue_buffer
  for malloc push_ok
  by unfold_locales (use enqueue_buffer_law dequeue_buffer_law in blast)+

section \<open>Properties\<close>



section \<open>Witnesses\<close>

definition zero_malloc :: malloc where "zero_malloc i n = Some (replicate n 0)"

lemma zero_malloc_ok: "malloc_ok zero_malloc" "zero_malloc i n \<noteq> None"
  by (simp_all add: malloc_ok_def zero_malloc_def)

text \<open>A buffer of 16 bytes got a string of one byte, which was parsed and given away.\<close>

definition sample_start :: unpacker where
  "sample_start = \<lparr>buffers = [0 \<mapsto> (1, replicate 16 0)], mallocs = 1, m_buffer = 0, m_used = 4, m_free = 12, m_off = 4,
     m_parsed = 0, m_initial_buffer_size = 16, m_referenced = False, m_zone = [], pending = [], held = []\<rparr>"

definition sample_unpacker :: unpacker where
  "sample_unpacker = unpacker_next (\<lambda>_. True) (parsed 2 True [(5, 1)] (receive [0xa1, 0x61] sample_start))"

lemma sample_started: "new_unpacker zero_malloc 16 = Some sample_start"
  by (simp add: new_unpacker_def zero_malloc_def sample_start_def COUNTER_SIZE_def)

lemma sample_unpacker_reachable: "unpacker_reachable zero_malloc (\<lambda>_. True) sample_unpacker"
proof -
  let ?u = "receive [0xa1, 0x61] sample_start"
  have "unpacker_reachable zero_malloc (\<lambda>_. True) ?u"
    by (rule Steps [OF Starts [OF sample_started] Receives]) (simp add: sample_start_def)
  moreover have "parse_ok 2 True [(5, 1)] ?u" by (simp add: parse_ok_def nonparsed_size_def receive_def sample_start_def Let_def)
  ultimately show ?thesis unfolding sample_unpacker_def by (rule Steps [OF Steps [OF _ Parses] Completes])
qed

lemma sample_references: "references sample_unpacker = [\<lparr>r_buffer = 0, r_off = 5, r_bytes = [0x61]\<rparr>]"
  by (simp add: references_def sample_unpacker_def unpacker_next_def parsed_def receive_def sample_start_def Let_def
      bytes_of_def numeral_eq_Suc)



end
