(* ===== verification/Msgpack_Zone.thy ===== *)
theory Msgpack_Zone
  imports Msgpack_Buffer
begin

text \<open>
  The memory of the MessagePack library: the zone that objects are allocated in, with its chunks and
  finalizers (\<^verbatim>\<open>rpc/msgpack/v1/detail/cpp11_zone.hpp\<close>), and the output buffer \<^verbatim>\<open>sbuffer\<close> (\<^verbatim>\<open>v1/sbuffer.hpp\<close>). Addresses are
  numbers; \<^verbatim>\<open>malloc\<close> is a parameter that gets the blocks the zone owns. The theory shows that blocks
  handed out by a zone are aligned, inside its chunks and never overlap, and that the output buffer holds
  exactly what was written.
\<close>

section \<open>Finalizers\<close>

text \<open>\<open>fins\<close> are the entries up to \<^verbatim>\<open>m_tail\<close>, \<open>fin_end\<close> is the room up to \<^verbatim>\<open>m_end\<close>. A finalizer has 16 bytes.\<close>

record 'f finalizer_array =
  fins :: "'f list"
  fin_end :: nat

definition no_finalizers :: "'f finalizer_array" where
  "no_finalizers = \<lparr>fins = [], fin_end = 0\<rparr>"

text \<open>\<open>memory\<close> tells whether \<^verbatim>\<open>realloc\<close> has room for so many entries.\<close>

definition push_expand :: "(nat \<Rightarrow> bool) \<Rightarrow> 'f \<Rightarrow> 'f finalizer_array \<Rightarrow> (unit, 'f finalizer_array) result" where
  "push_expand memory f a =
     (let nnext = (if fin_end a = 0 then 72 div 16 else fin_end a * 2)
      in if memory nnext then (Return (), \<lparr>fins = fins a @ [f], fin_end = nnext\<rparr>)
         else (Throw ''bad allocation'', a))"

definition push :: "(nat \<Rightarrow> bool) \<Rightarrow> 'f \<Rightarrow> 'f finalizer_array \<Rightarrow> (unit, 'f finalizer_array) result" where
  "push memory f a =
     (if length (fins a) = fin_end a then push_expand memory f a
      else (Return (), a\<lparr>fins := fins a @ [f]\<rparr>))"

text \<open>\<^verbatim>\<open>call\<close> goes from the tail to the start.\<close>

definition call_finalizers :: "'f finalizer_array \<Rightarrow> 'f list" where
  "call_finalizers a = rev (fins a)"

definition clear_finalizers :: "'f finalizer_array \<Rightarrow> 'f list \<times> 'f finalizer_array" where
  "clear_finalizers a = (call_finalizers a, a\<lparr>fins := []\<rparr>)"

section \<open>Chunks\<close>

definition sizeof_chunk :: nat where "sizeof_chunk = 8"

text \<open>A chunk is its address and the size of its data. The head of the list is \<^verbatim>\<open>m_head\<close>.\<close>

record 'f zone =
  m_chunk_size :: nat
  chunks :: "(nat \<times> nat) list"
  z_free :: nat
  z_ptr :: nat
  finalizers :: "'f finalizer_array"

type_synonym chunk_malloc = "(nat \<times> nat) list \<Rightarrow> nat \<Rightarrow> nat option"

abbreviation chunk_block :: "nat \<times> nat \<Rightarrow> nat \<times> nat" where
  "chunk_block c \<equiv> (fst c, sizeof_chunk + snd c)"

definition new_zone :: "chunk_malloc \<Rightarrow> nat \<Rightarrow> 'f zone option" where
  "new_zone malloc chunk_size =
     map_option (\<lambda>c. \<lparr>m_chunk_size = chunk_size, chunks = [(c, chunk_size)], z_free = chunk_size, z_ptr = c + sizeof_chunk,
                      finalizers = no_finalizers\<rparr>)
       (malloc [] (to_size (sizeof_chunk + chunk_size)))"

definition allocate_expand :: "chunk_malloc \<Rightarrow> nat \<Rightarrow> 'f zone \<Rightarrow> 'f zone option" where
  "allocate_expand malloc n z =
     (let sz = grow (m_chunk_size z) n
      in map_option (\<lambda>c. z\<lparr>chunks := (c, sz) # chunks z, z_free := sz, z_ptr := c + sizeof_chunk\<rparr>)
           (malloc (map chunk_block (chunks z)) (to_size (sizeof_chunk + sz))))"

definition get_aligned :: "nat \<Rightarrow> nat \<Rightarrow> nat" where
  "get_aligned ptr align = (ptr + (align - 1)) div align * align"

definition allocate_align :: "chunk_malloc \<Rightarrow> nat \<Rightarrow> nat \<Rightarrow> 'f zone \<Rightarrow> (nat \<times> 'f zone) option" where
  "allocate_align malloc n align z =
     (let aligned = get_aligned (z_ptr z) align;
          adjusted = to_size (n + (aligned - z_ptr z))
      in if z_free z < adjusted
         then map_option (\<lambda>z'. let aligned = get_aligned (z_ptr z') align;
                                   adjusted = to_size (n + (aligned - z_ptr z'))
                               in (aligned, z'\<lparr>z_free := z_free z' - adjusted, z_ptr := z_ptr z' + adjusted\<rparr>))
                (allocate_expand malloc (to_size (n + align - 1)) z)
         else Some (aligned, z\<lparr>z_free := z_free z - adjusted, z_ptr := z_ptr z + adjusted\<rparr>))"

definition allocate_no_align :: "chunk_malloc \<Rightarrow> nat \<Rightarrow> 'f zone \<Rightarrow> (nat \<times> 'f zone) option" where
  "allocate_no_align malloc n z =
     map_option (\<lambda>z'. (z_ptr z', z'\<lparr>z_free := z_free z' - n, z_ptr := z_ptr z' + n\<rparr>))
       (if z_free z < n then allocate_expand malloc n z else Some z)"

definition undo_allocate :: "nat \<Rightarrow> 'f zone \<Rightarrow> 'f zone" where
  "undo_allocate n z = z\<lparr>z_ptr := z_ptr z - n, z_free := z_free z + n\<rparr>"

text \<open>\<^verbatim>\<open>allocate\<close>: the memory, the finalizer, the constructor, which may throw \<open>ctor\<close>. \<open>fin\<close> makes the finalizer of
  the address.\<close>

definition allocate_object ::
    "chunk_malloc \<Rightarrow> (nat \<Rightarrow> bool) \<Rightarrow> nat \<Rightarrow> nat \<Rightarrow> (nat \<Rightarrow> 'f) \<Rightarrow> string option \<Rightarrow> 'f zone \<Rightarrow> (nat, 'f zone) result" where
  "allocate_object malloc memory sizeof_T align fin ctor z =
     (case allocate_align malloc sizeof_T align z of
        None \<Rightarrow> (Throw ''bad allocation'', z)
      | Some (x, z1) \<Rightarrow>
          (case push memory (fin x) (finalizers z1) of
             (Return _, a) \<Rightarrow>
               (case ctor of
                  None \<Rightarrow> (Return x, z1\<lparr>finalizers := a\<rparr>)
                | Some msg \<Rightarrow> (Throw msg, undo_allocate sizeof_T (z1\<lparr>finalizers := a\<lparr>fins := butlast (fins a)\<rparr>\<rparr>)))
           | (_, a) \<Rightarrow> (Throw ''bad allocation'', undo_allocate sizeof_T z1)))"

text \<open>\<^verbatim>\<open>clear\<close> keeps the chunk at the end of the list, the first one.\<close>

definition clear_zone :: "'f zone \<Rightarrow> 'f list \<times> 'f zone" where
  "clear_zone z =
     (let (calls, a) = clear_finalizers (finalizers z); c = last (chunks z)
      in (calls, z\<lparr>finalizers := a, chunks := [c], z_free := m_chunk_size z, z_ptr := fst c + sizeof_chunk\<rparr>))"

section \<open>Blocks\<close>

text \<open>Blocks that have no byte in common, and a block in the data of a chunk.\<close>

definition apart :: "nat \<times> nat \<Rightarrow> nat \<times> nat \<Rightarrow> bool" where
  "apart x y \<longleftrightarrow> snd x = 0 \<or> snd y = 0 \<or> fst x + snd x \<le> fst y \<or> fst y + snd y \<le> fst x"

definition inside :: "nat \<times> nat \<Rightarrow> nat \<times> nat \<Rightarrow> bool" where
  "inside x c \<longleftrightarrow> fst c + sizeof_chunk \<le> fst x \<and> fst x + snd x \<le> fst c + sizeof_chunk + snd c"

text \<open>What \<^verbatim>\<open>malloc\<close> promises: a block that overlaps none of those that are in use.\<close>

definition fresh_malloc :: "chunk_malloc \<Rightarrow> bool" where
  "fresh_malloc malloc \<longleftrightarrow> (\<forall>live n a. malloc live n = Some a \<longrightarrow> list_all (apart (a, n)) live)"

text \<open>The state of a zone that has given away the blocks \<open>bs\<close>.\<close>

definition zone_ok :: "(nat \<times> nat) list \<Rightarrow> 'f zone \<Rightarrow> bool" where
  "zone_ok bs z \<longleftrightarrow>
     chunks z \<noteq> [] \<and> m_chunk_size z < 2 ^ 62 \<and> snd (last (chunks z)) = m_chunk_size z
     \<and> fst (hd (chunks z)) + sizeof_chunk \<le> z_ptr z
     \<and> z_ptr z + z_free z = fst (hd (chunks z)) + sizeof_chunk + snd (hd (chunks z))
     \<and> (\<forall>b \<in> set bs. (\<exists>c \<in> set (chunks z). inside b c) \<and> apart b (z_ptr z, z_free z))
     \<and> sorted_wrt apart bs"

lemma apart_sym: "apart x y \<longleftrightarrow> apart y x"
  by (auto simp: apart_def)

lemma inside_apart: "inside b c \<Longrightarrow> apart (chunk_block c) (chunk_block d) \<Longrightarrow> apart b (fst d + sizeof_chunk, snd d)"
  by (auto simp: inside_def apart_def)

lemma grow_bound: "need < 2 ^ 62 \<Longrightarrow> n < 2 ^ 62 \<Longrightarrow> grow n need < 2 ^ 63"
proof (induction n need rule: grow.induct)
  case (1 n need)
  have size: "to_size (n * 2) = n * 2" using 1(3) by simp
  show ?case
  proof (cases "n < need \<and> n \<noteq> 0")
    case True
    then have "grow n need = grow (n * 2) need" by (subst grow.simps) (simp add: size Let_def)
    moreover have "grow (n * 2) need < 2 ^ 63"
    proof (cases "n * 2 < 2 ^ 62")
      case small: True
      with 1 True size show ?thesis by (simp add: Let_def)
    next
      case False
      with 1(2) have "grow (n * 2) need = n * 2" by (subst grow.simps) simp
      with 1(3) show ?thesis by simp
    qed
    ultimately show ?thesis by simp
  next
    case False
    with 1 size show ?thesis by (subst grow.simps) (auto simp: Let_def)
  qed
qed

lemma new_zone_ok:
  assumes "new_zone malloc chunk_size = Some z" and "chunk_size < 2 ^ 62"
  shows "zone_ok [] z" and "finalizers z = no_finalizers"
  using assms by (auto simp: new_zone_def zone_ok_def)

lemma allocate_expand_ok:
  assumes "zone_ok bs z" and "fresh_malloc malloc" and "n < 2 ^ 62" and "allocate_expand malloc n z = Some z'"
  shows "zone_ok bs z' \<and> n \<le> z_free z' \<and> finalizers z' = finalizers z \<and> m_chunk_size z' = m_chunk_size z"
proof -
  define sz where "sz = grow (m_chunk_size z) n"
  have "sz < 2 ^ 63" using grow_bound [OF assms(3), of "m_chunk_size z"] assms(1) by (simp add: sz_def zone_ok_def)
  then have size: "to_size (sizeof_chunk + sz) = sizeof_chunk + sz" by (simp add: sizeof_chunk_def)
  from assms(4) obtain c where c: "malloc (map chunk_block (chunks z)) (sizeof_chunk + sz) = Some c" and
    z': "z' = z\<lparr>chunks := (c, sz) # chunks z, z_free := sz, z_ptr := c + sizeof_chunk\<rparr>"
    by (auto simp: allocate_expand_def Let_def sz_def [symmetric] size)
  have "apart b (c + sizeof_chunk, sz)" if b: "b \<in> set bs" for b
  proof -
    obtain d where d: "d \<in> set (chunks z)" "inside b d" using assms(1) b by (auto simp: zone_ok_def)
    have "apart (c, sizeof_chunk + sz) (chunk_block d)"
      using assms(2) c d(1) by (auto simp: fresh_malloc_def list_all_iff)
    with inside_apart [OF d(2), of "(c, sz)"] show ?thesis by (simp add: apart_sym)
  qed
  with assms(1) show ?thesis
    using grow_enough [of n "m_chunk_size z"] by (auto simp: zone_ok_def z' sz_def)
qed

text \<open>Taking bytes from the start of the free region, some of them as padding.\<close>

lemma take_block_ok:
  assumes "zone_ok bs z" and "pad + n \<le> z_free z"
  shows "zone_ok ((z_ptr z + pad, n) # bs) (z\<lparr>z_free := z_free z - (n + pad), z_ptr := z_ptr z + (n + pad)\<rparr>)"
proof -
  let ?b = "(z_ptr z + pad, n)"
  have "inside ?b (hd (chunks z))" using assms by (auto simp: zone_ok_def inside_def)
  moreover have "hd (chunks z) \<in> set (chunks z)" using assms(1) by (simp add: zone_ok_def)
  moreover have "apart b ?b \<and> apart b (z_ptr z + (n + pad), z_free z - (n + pad))" if "apart b (z_ptr z, z_free z)" for b
    using that assms(2) by (auto simp: apart_def)
  moreover have "apart ?b (z_ptr z + (n + pad), z_free z - (n + pad))" by (simp add: apart_def)
  ultimately show ?thesis using assms by (auto simp: zone_ok_def apart_sym)
qed

lemma get_aligned:
  assumes "0 < align"
  shows "ptr \<le> get_aligned ptr align" and "get_aligned ptr align < ptr + align" and "get_aligned ptr align mod align = 0"
proof -
  let ?p = "ptr + (align - 1)"
  have "?p div align * align + ?p mod align = ?p" "?p mod align < align" using assms by simp_all
  then show "ptr \<le> get_aligned ptr align" "get_aligned ptr align < ptr + align"
    using assms unfolding get_aligned_def by linarith+
  show "get_aligned ptr align mod align = 0" by (simp add: get_aligned_def)
qed

lemma allocate_align_ok:
  assumes ok: "zone_ok bs z" and malloc: "fresh_malloc malloc" and align: "0 < align" and small: "n + align < 2 ^ 62"
    and r: "allocate_align malloc n align z = Some (a, z')"
  shows "zone_ok ((a, n) # bs) z' \<and> a mod align = 0 \<and> finalizers z' = finalizers z
    \<and> a + n = z_ptr z' \<and> fst (hd (chunks z')) + sizeof_chunk \<le> a"
proof -
  have step: "zone_ok ((get_aligned (z_ptr y) align, n) # bs)
      (y\<lparr>z_free := z_free y - to_size (n + (get_aligned (z_ptr y) align - z_ptr y)),
         z_ptr := z_ptr y + to_size (n + (get_aligned (z_ptr y) align - z_ptr y))\<rparr>)
      \<and> get_aligned (z_ptr y) align + n = z_ptr y + to_size (n + (get_aligned (z_ptr y) align - z_ptr y))
      \<and> fst (hd (chunks y)) + sizeof_chunk \<le> get_aligned (z_ptr y) align"
    if y: "zone_ok bs y" "to_size (n + (get_aligned (z_ptr y) align - z_ptr y)) \<le> z_free y" for y :: "'a zone"
  proof -
    let ?pad = "get_aligned (z_ptr y) align - z_ptr y"
    have pad: "?pad < align" "z_ptr y + ?pad = get_aligned (z_ptr y) align" using get_aligned [OF align, of "z_ptr y"] by linarith+
    then have size: "to_size (n + ?pad) = n + ?pad" using small by simp
    have "fst (hd (chunks y)) + sizeof_chunk \<le> z_ptr y" using y(1) by (simp add: zone_ok_def)
    with take_block_ok [OF y(1), of ?pad n] y(2) pad(2) size get_aligned(1) [OF align, of "z_ptr y"] show ?thesis
      by (simp add: add.commute)
  qed
  show ?thesis
  proof (cases "z_free z < to_size (n + (get_aligned (z_ptr z) align - z_ptr z))")
    case False
    with r step [OF ok] get_aligned(3) [OF align] show ?thesis by (auto simp: allocate_align_def Let_def)
  next
    case True
    have size: "to_size (n + align - 1) = n + align - 1" using small by simp
    from r True obtain y where y: "allocate_expand malloc (to_size (n + align - 1)) z = Some y"
      "a = get_aligned (z_ptr y) align" "z' = y\<lparr>z_free := z_free y - to_size (n + (get_aligned (z_ptr y) align - z_ptr y)),
         z_ptr := z_ptr y + to_size (n + (get_aligned (z_ptr y) align - z_ptr y))\<rparr>"
      by (auto simp: allocate_align_def Let_def)
    have ex: "zone_ok bs y" "n + align - 1 \<le> z_free y" "finalizers y = finalizers z"
      using allocate_expand_ok [OF ok malloc _ y(1) [unfolded size]] small by auto
    have "to_size (n + (get_aligned (z_ptr y) align - z_ptr y)) \<le> z_free y"
      using get_aligned(1,2) [OF align, of "z_ptr y"] ex(2) small by simp
    from step [OF ex(1) this] y(2,3) ex(3) get_aligned(3) [OF align] show ?thesis by simp
  qed
qed

lemma allocate_no_align_ok:
  assumes "zone_ok bs z" and "fresh_malloc malloc" and "n < 2 ^ 62" and "allocate_no_align malloc n z = Some (a, z')"
  shows "zone_ok ((a, n) # bs) z'"
proof -
  from assms(4) obtain y where y: "(if z_free z < n then allocate_expand malloc n z else Some z) = Some y" "a = z_ptr y"
    "z' = y\<lparr>z_free := z_free y - n, z_ptr := z_ptr y + n\<rparr>"
    by (auto simp: allocate_no_align_def)
  have "zone_ok bs y \<and> n \<le> z_free y"
  proof (cases "z_free z < n")
    case True
    with y(1) allocate_expand_ok [OF assms(1-3), of y] show ?thesis by simp
  next
    case False
    with y(1) assms(1) show ?thesis by simp
  qed
  with take_block_ok [of bs y 0 n] y(2,3) show ?thesis by simp
qed

text \<open>\<^verbatim>\<open>clear\<close> calls the finalizers, the last one first, and leaves an empty zone.\<close>

lemma clear_zone_ok:
  assumes "zone_ok bs z"
  shows "zone_ok [] (snd (clear_zone z))" and "fst (clear_zone z) = rev (fins (finalizers z))"
  using assms by (auto simp: zone_ok_def clear_zone_def clear_finalizers_def call_finalizers_def Let_def)

text \<open>An allocation that fails, in the array of finalizers or in the constructor, gives the block back: the zone
  goes on with the blocks it had, and no finalizer of the object is left.\<close>

lemma undo_block_ok:
  assumes "zone_ok ((a, n) # bs) z" and "a + n = z_ptr z" and "fst (hd (chunks z)) + sizeof_chunk \<le> a"
  shows "zone_ok bs (undo_allocate n z)"
proof -
  have block: "apart (a, n) b" if "b \<in> set bs" for b using assms(1) that by (simp add: zone_ok_def)
  have "apart b (z_ptr z - n, z_free z + n)" if "b \<in> set bs" for b
  proof -
    have "apart b (z_ptr z, z_free z)" using assms(1) that by (simp add: zone_ok_def)
    with block [OF that] assms(2) show ?thesis by (auto simp: apart_def)
  qed
  with assms show ?thesis by (auto simp: zone_ok_def undo_allocate_def)
qed

lemma push_result:
  "push memory f a = (out, a') \<Longrightarrow> out \<noteq> Return () \<longrightarrow> a' = a"
  "push memory f a = (Return (), a') \<Longrightarrow> fins a' = fins a @ [f]"
  by (auto simp: push_def push_expand_def Let_def split: if_splits)

lemma zone_ok_finalizers [simp]: "zone_ok bs (z\<lparr>finalizers := a\<rparr>) = zone_ok bs z"
  by (simp add: zone_ok_def)

lemma allocate_object_fails:
  assumes "zone_ok bs z" and "fresh_malloc malloc" and "0 < align" and "n + align < 2 ^ 62"
    and r: "allocate_object malloc memory n align fin ctor z = (Throw msg, z')"
  shows "zone_ok bs z' \<and> fins (finalizers z') = fins (finalizers z)"
proof (cases "allocate_align malloc n align z")
  case None
  with assms show ?thesis by (simp add: allocate_object_def)
next
  case (Some xz)
  obtain x z1 where xz: "allocate_align malloc n align z = Some (x, z1)" using Some by (cases xz) simp
  note ok = allocate_align_ok [OF assms(1-4) xz]
  obtain out a where push: "push memory (fin x) (finalizers z1) = (out, a)" by fastforce
  have undo: "zone_ok bs (undo_allocate n (z1\<lparr>finalizers := y\<rparr>))" for y
    using ok undo_block_ok [of x n bs "z1\<lparr>finalizers := y\<rparr>"] by simp
  have undo1: "zone_ok bs (undo_allocate n z1)" using ok undo_block_ok [of x n bs z1] by simp
  show ?thesis
  proof (cases out)
    case (Return u)
    with r xz push undo ok push_result(2) [of memory "fin x" "finalizers z1" a] show ?thesis
      by (auto simp: allocate_object_def undo_allocate_def split: option.splits)
  qed (use r xz push undo1 ok in \<open>auto simp: allocate_object_def undo_allocate_def\<close>)
qed

section \<open>The output buffer\<close>

text \<open>\<open>s_data\<close> are the bytes of the allocation, so its length is \<^verbatim>\<open>m_alloc\<close>.\<close>

record sbuffer =
  s_size :: nat
  s_data :: octets
  s_calls :: nat

definition new_sbuffer :: "malloc \<Rightarrow> nat \<Rightarrow> sbuffer option" where
  "new_sbuffer malloc initsz =
     (if initsz = 0 then Some \<lparr>s_size = 0, s_data = [], s_calls = 0\<rparr>
      else map_option (\<lambda>bs. \<lparr>s_size = 0, s_data = bs, s_calls = 1\<rparr>) (malloc 0 initsz))"

definition sbuffer_expand :: "malloc \<Rightarrow> nat \<Rightarrow> sbuffer \<Rightarrow> sbuffer option" where
  "sbuffer_expand malloc n s =
     (let first = (if 0 < length (s_data s) then to_size (length (s_data s) * 2) else 8192);
          nsize = grow first (to_size (s_size s + n))
      in map_option (\<lambda>bs. s\<lparr>s_data := take nsize (s_data s) @ drop (length (s_data s)) bs, s_calls := s_calls s + 1\<rparr>)
           (malloc (s_calls s) nsize))"

definition sbuffer_write :: "malloc \<Rightarrow> octets \<Rightarrow> sbuffer \<Rightarrow> (unit, sbuffer) result" where
  "sbuffer_write malloc bs s =
     (case (if length (s_data s) - s_size s < length bs then sbuffer_expand malloc (length bs) s else Some s) of
        None \<Rightarrow> (Throw ''bad allocation'', s)
      | Some s1 \<Rightarrow>
          (Return (), s1\<lparr>s_data := take (s_size s1) (s_data s1) @ bs @ drop (s_size s1 + length bs) (s_data s1),
                        s_size := s_size s1 + length bs\<rparr>))"

definition sbuffer_bytes :: "sbuffer \<Rightarrow> octets" where "sbuffer_bytes s = take (s_size s) (s_data s)"

definition sbuffer_clear :: "sbuffer \<Rightarrow> sbuffer" where "sbuffer_clear s = s\<lparr>s_size := 0\<rparr>"

lemma sbuffer_expand_room:
  assumes "malloc_ok malloc" and "s_size s \<le> length (s_data s)" and "s_size s + n < 2 ^ 64" and "sbuffer_expand malloc n s = Some t"
  shows "s_size t = s_size s \<and> s_size s + n \<le> length (s_data t) \<and> sbuffer_bytes t = sbuffer_bytes s"
proof -
  define nsize where "nsize = grow (if 0 < length (s_data s) then to_size (length (s_data s) * 2) else 8192) (to_size (s_size s + n))"
  have enough: "s_size s + n \<le> nsize" using grow_enough [of "to_size (s_size s + n)"] assms(3) by (simp add: nsize_def)
  from assms(4) obtain bs where bs: "malloc (s_calls s) nsize = Some bs" and
    t: "t = s\<lparr>s_data := take nsize (s_data s) @ drop (length (s_data s)) bs, s_calls := s_calls s + 1\<rparr>"
    by (auto simp: sbuffer_expand_def Let_def nsize_def)
  have "length bs = nsize" using assms(1) bs by (simp add: malloc_ok_def)
  with enough assms(2) part_of_prefix [of 0 "s_size s" "s_data s" nsize] show ?thesis
    by (auto simp: t sbuffer_bytes_def)
qed

lemma sbuffer_write_appends:
  assumes "malloc_ok malloc" and "s_size s \<le> length (s_data s)" and "s_size s + length bs < 2 ^ 64"
    and "sbuffer_write malloc bs s = (out, t)"
  shows "s_size t \<le> length (s_data t) \<and> sbuffer_bytes t = (if out = Return () then sbuffer_bytes s @ bs else sbuffer_bytes s)"
proof (cases "if length (s_data s) - s_size s < length bs then sbuffer_expand malloc (length bs) s else Some s")
  case None
  with assms(2,4) show ?thesis by (auto simp: sbuffer_write_def)
next
  case (Some s1)
  have s1: "s_size s1 = s_size s \<and> s_size s + length bs \<le> length (s_data s1) \<and> sbuffer_bytes s1 = sbuffer_bytes s"
    using Some sbuffer_expand_room [OF assms(1-3), of s1] assms(2) by (auto split: if_splits)
  then show ?thesis using assms(2,4) unfolding sbuffer_write_def Some by (auto simp: sbuffer_bytes_def min_def)
qed

section \<open>Properties\<close>

primrec allocate_all :: "chunk_malloc \<Rightarrow> (nat \<times> nat) list \<Rightarrow> 'f zone \<Rightarrow> ((nat \<times> nat) list \<times> 'f zone) option" where
  "allocate_all malloc [] z = Some ([], z)"
| "allocate_all malloc (q # qs) z =
     (case allocate_align malloc (fst q) (snd q) z of
        None \<Rightarrow> None
      | Some (a, z1) \<Rightarrow> map_option (\<lambda>(bs, z2). ((a, fst q) # bs, z2)) (allocate_all malloc qs z1))"

lemma allocate_all_ok:
  assumes "fresh_malloc malloc"
  shows "zone_ok bs0 z \<Longrightarrow> list_all (\<lambda>(n, align). 0 < align \<and> n + align < 2 ^ 62) qs \<Longrightarrow> allocate_all malloc qs z = Some (bs, z') \<Longrightarrow>
    zone_ok (rev bs @ bs0) z' \<and> list_all2 (\<lambda>(n, align) (a, k). k = n \<and> a mod align = 0) qs bs"
proof (induction qs arbitrary: bs0 z bs)
  case (Cons q qs)
  obtain n align where q: "q = (n, align)" by (cases q)
  from Cons.prems(3) q obtain a z1 bs1 where step: "allocate_align malloc n align z = Some (a, z1)"
    "allocate_all malloc qs z1 = Some (bs1, z')" "bs = (a, n) # bs1"
    by (auto split: option.splits prod.splits)
  from Cons.prems(2) q have "0 < align" "n + align < 2 ^ 62" by simp_all
  from allocate_align_ok [OF Cons.prems(1) assms this step(1)] have "zone_ok ((a, n) # bs0) z1" "a mod align = 0" by simp_all
  with Cons.IH [OF this(1) _ step(2)] Cons.prems(2) q step(3) show ?case by simp
qed simp

text \<open>C30. The allocations of a zone, of whatever sizes and alignments and however many chunks they take: every
  block has the address alignment that was asked for, lies in the data of a chunk of the zone, and no two
  blocks have a byte in common.
\<close>

theorem zone_blocks_disjoint:
  assumes "fresh_malloc malloc" and "new_zone malloc chunk_size = Some z" and "chunk_size < 2 ^ 62"
    and "list_all (\<lambda>(n, align). 0 < align \<and> n + align < 2 ^ 62) qs" and "allocate_all malloc qs z = Some (bs, z')"
  shows "list_all2 (\<lambda>(n, align) (a, k). k = n \<and> a mod align = 0) qs bs
    \<and> (\<forall>b \<in> set bs. \<exists>c \<in> set (chunks z'). inside b c) \<and> sorted_wrt apart bs"
proof -
  have "zone_ok (rev bs @ []) z' \<and> list_all2 (\<lambda>(n, align) (a, k). k = n \<and> a mod align = 0) qs bs"
    using allocate_all_ok [OF assms(1) new_zone_ok(1) [OF assms(2,3)] assms(4,5)] .
  moreover have "sorted_wrt apart (rev bs) \<longleftrightarrow> sorted_wrt apart bs"
    by (simp add: sorted_wrt_rev apart_sym)
  ultimately show ?thesis by (simp add: zone_ok_def)
qed

definition bump_malloc :: chunk_malloc where
  "bump_malloc live n = Some (16 + sum_list (map (\<lambda>x. fst x + snd x) live))"

lemma bump_malloc_fresh: "fresh_malloc bump_malloc"
proof -
  have "fst x + snd x \<le> sum_list (map (\<lambda>x. fst x + snd x) live)" if "x \<in> set live" for x :: "nat \<times> nat" and live
    using that by (intro sum_list_member_le) auto
  then show ?thesis by (fastforce simp: fresh_malloc_def bump_malloc_def list_all_iff apart_def)
qed

lemma bump_malloc_allocates: "allocate_all bump_malloc qs z \<noteq> None"
proof (induction qs arbitrary: z)
  case (Cons q qs)
  have "allocate_align bump_malloc (fst q) (snd q) z \<noteq> None"
    by (simp add: allocate_align_def allocate_expand_def bump_malloc_def Let_def)
  with Cons.IH show ?case by (fastforce split: option.splits)
qed simp

theorem zone_blocks_disjoint_witness:
  "\<exists>z bs z'. new_zone bump_malloc 32 = Some (z :: nat zone) \<and> allocate_all bump_malloc [(5, 1), (24, 8), (100, 8)] z = Some (bs, z')
     \<and> length bs = 3 \<and> sorted_wrt apart bs"
proof -
  obtain z :: "nat zone" where z: "new_zone bump_malloc 32 = Some z" by (simp add: new_zone_def bump_malloc_def)
  obtain bs z' where bs: "allocate_all bump_malloc [(5, 1), (24, 8), (100, 8)] z = Some (bs, z')"
    using bump_malloc_allocates [of "[(5, 1), (24, 8), (100, 8)]" z] by (metis option.exhaust prod.exhaust)
  from zone_blocks_disjoint [OF bump_malloc_fresh z _ _ bs] have
    "list_all2 (\<lambda>(n, align) (a, k). k = n \<and> a mod align = 0) [(5, 1), (24, 8), (100, 8)] bs" "sorted_wrt apart bs" by simp_all
  with z bs show ?thesis by (auto dest: list_all2_lengthD)
qed

end
