(* ===== verification/Ipc_Lock.thy ===== *)
theory Ipc_Lock
  imports V8_Values
begin

text \<open>
  \<^verbatim>\<open>IPC_Lock\<close> of \<^verbatim>\<open>Include/ipckv/ipckv.h\<close>: the reader/writer lock shared between processes, built from a
  named semaphore of 24 permits and a named mutex. The Windows calls are a parameter; what the
  theorems use of them is stated as the named law \<open>semaphore_laws\<close>. The theory shows that a writer
  takes and returns all permits, and that the destructor of a reader, which releases 24 permits
  although it took one, loses a permit that a later writer waits for.
\<close>

definition IPCKV_MAX_LOCKS :: nat where "IPCKV_MAX_LOCKS = 24"
definition MAX_PATH :: nat where "MAX_PATH = 260"

type_synonym handle = nat

datatype wait_result = WAIT_OBJECT_0 | WAIT_OTHER | WAITING

record 'k win32_sync =
  CreateMutexA :: "string \<Rightarrow> 'k \<Rightarrow> handle option \<times> 'k"
  CreateSemaphoreA :: "nat \<Rightarrow> nat \<Rightarrow> string \<Rightarrow> 'k \<Rightarrow> (handle option \<times> bool) \<times> 'k"
    \<comment> \<open>the flag is \<^verbatim>\<open>GetLastError() == ERROR_ALREADY_EXISTS\<close>\<close>
  WaitForSingleObject :: "handle \<Rightarrow> 'k \<Rightarrow> wait_result \<times> 'k"
  ReleaseSemaphore :: "handle \<Rightarrow> nat \<Rightarrow> 'k \<Rightarrow> 'k"
  ReleaseMutex :: "handle \<Rightarrow> 'k \<Rightarrow> 'k"
  CloseHandle :: "handle \<Rightarrow> 'k \<Rightarrow> 'k"

record IPC_Lock =
  semaphore_handle :: "handle option"
  mutex_handle :: "handle option"

definition wait_object :: "'k win32_sync \<Rightarrow> handle \<Rightarrow> string \<Rightarrow> 'k \<Rightarrow> (unit, 'k) result" where
  "wait_object api h msg k =
     (case WaitForSingleObject api h k of
        (WAIT_OBJECT_0, k') \<Rightarrow> (Return (), k')
      | (WAIT_OTHER, k') \<Rightarrow> (Throw msg, k')
      | (WAITING, k') \<Rightarrow> (Block, k'))"

primrec wait_times :: "'k win32_sync \<Rightarrow> nat \<Rightarrow> handle \<Rightarrow> 'k \<Rightarrow> (unit, 'k) result" where
  "wait_times api 0 h k = (Return (), k)"
| "wait_times api (Suc n) h k =
     chain (wait_object api h ''failed to wait for semaphore object'' k)
       (\<lambda>_ k'. wait_times api n h k')"

definition lock_write :: "'k win32_sync \<Rightarrow> string \<Rightarrow> 'k \<Rightarrow> (IPC_Lock, 'k) result" where
  "lock_write api name k =
     (if MAX_PATH < length name then (Throw ''rwlock name too long.'', k)
      else case CreateMutexA api (name @ ''_mutex'') k of
        (None, k1) \<Rightarrow> (Throw ''could not create mutex.'', k1)
      | (Some m, k1) \<Rightarrow>
          chain (wait_object api m ''failed to wait for semaphore object'' k1) (\<lambda>_ k2.
          case CreateSemaphoreA api 0 IPCKV_MAX_LOCKS name k2 of
            ((None, _), k3) \<Rightarrow> (Throw ''could not create rwlock.'', k3)
          | ((Some s, exists), k3) \<Rightarrow>
              chain (if exists then wait_times api IPCKV_MAX_LOCKS s k3 else (Return (), k3)) (\<lambda>_ k4.
              (Return \<lparr>semaphore_handle = Some s, mutex_handle = Some m\<rparr>, k4))))"

definition lock_read :: "'k win32_sync \<Rightarrow> string \<Rightarrow> 'k \<Rightarrow> (IPC_Lock, 'k) result" where
  "lock_read api name k =
     (if MAX_PATH < length name then (Throw ''rwlock name too long.'', k)
      else case CreateSemaphoreA api IPCKV_MAX_LOCKS IPCKV_MAX_LOCKS name k of
        ((None, _), k1) \<Rightarrow> (Throw ''could not create rwlock.'', k1)
      | ((Some s, _), k1) \<Rightarrow>
          chain (wait_object api s ''failed to wait for single object'' k1) (\<lambda>_ k2.
          (Return \<lparr>semaphore_handle = Some s, mutex_handle = None\<rparr>, k2)))"

definition make_lock :: "'k win32_sync \<Rightarrow> bool \<Rightarrow> string \<Rightarrow> 'k \<Rightarrow> (IPC_Lock, 'k) result" where
  "make_lock api is_write_lock name k =
     (if is_write_lock then lock_write api name k else lock_read api name k)"

definition destroy_lock :: "'k win32_sync \<Rightarrow> IPC_Lock \<Rightarrow> 'k \<Rightarrow> 'k" where
  "destroy_lock api l k =
     (let k1 = (case semaphore_handle l of
                  None \<Rightarrow> k
                | Some s \<Rightarrow> CloseHandle api s (ReleaseSemaphore api s IPCKV_MAX_LOCKS k))
      in case mutex_handle l of
           None \<Rightarrow> k1
         | Some m \<Rightarrow> CloseHandle api m (ReleaseMutex api m k1))"

text \<open>The move constructor empties its source; move assignment overwrites the target's handles
  without closing them.\<close>

definition move_lock :: "IPC_Lock \<Rightarrow> IPC_Lock \<times> IPC_Lock" where
  "move_lock l = (l, \<lparr>semaphore_handle = None, mutex_handle = None\<rparr>)"

section \<open>Documented behaviour of the Windows objects\<close>

text \<open>
  \<open>permits k\<close> is the count of the semaphore called \<open>name\<close>, which exists because some handle to it is
  open. Opening it again reports that it exists and keeps the count; a wait takes a permit if there
  is one; a release that would exceed the maximum fails and changes nothing; closing one of
  several handles, and the calls on the mutex, keep the count.
\<close>

definition semaphore_laws ::
    "'k win32_sync \<Rightarrow> ('k \<Rightarrow> nat) \<Rightarrow> string \<Rightarrow> handle \<Rightarrow> handle \<Rightarrow> bool" where
  "semaphore_laws api permits name s m \<longleftrightarrow>
     (\<forall>i k. \<exists>k'. CreateSemaphoreA api i IPCKV_MAX_LOCKS name k = ((Some s, True), k')
                \<and> permits k' = permits k)
     \<and> (\<forall>k. 0 < permits k \<longrightarrow> (\<exists>k'. WaitForSingleObject api s k = (WAIT_OBJECT_0, k')
                                  \<and> permits k' = permits k - 1))
     \<and> (\<forall>k. permits k = 0 \<longrightarrow> (\<exists>k'. WaitForSingleObject api s k = (WAITING, k')
                                  \<and> permits k' = permits k))
     \<and> (\<forall>n k. permits (ReleaseSemaphore api s n k) =
               (if permits k + n \<le> IPCKV_MAX_LOCKS then permits k + n else permits k))
     \<and> (\<forall>h k. permits (CloseHandle api h k) = permits k)
     \<and> (\<forall>k. permits (ReleaseMutex api m k) = permits k)
     \<and> (\<forall>nm k. \<exists>k'. CreateMutexA api nm k = (Some m, k') \<and> permits k' = permits k)
     \<and> (\<forall>k. \<exists>k'. WaitForSingleObject api m k = (WAIT_OBJECT_0, k') \<and> permits k' = permits k)"

lemma semaphore_facts:
  assumes "semaphore_laws api permits name s m"
  shows sem_open: "\<exists>k'. CreateSemaphoreA api i IPCKV_MAX_LOCKS name k = ((Some s, True), k')
                       \<and> permits k' = permits k"
    and sem_take: "0 < permits k \<Longrightarrow> \<exists>k'. WaitForSingleObject api s k = (WAIT_OBJECT_0, k')
                       \<and> permits k' = permits k - 1"
    and sem_empty: "permits k = 0 \<Longrightarrow> \<exists>k'. WaitForSingleObject api s k = (WAITING, k')
                       \<and> permits k' = 0"
    and sem_release: "permits (ReleaseSemaphore api s n k) =
                       (if permits k + n \<le> IPCKV_MAX_LOCKS then permits k + n else permits k)"
    and sem_close: "permits (CloseHandle api h k) = permits k"
    and mutex_release: "permits (ReleaseMutex api m k) = permits k"
    and mutex_open: "\<exists>k'. CreateMutexA api nm k = (Some m, k') \<and> permits k' = permits k"
    and mutex_take: "\<exists>k'. WaitForSingleObject api m k = (WAIT_OBJECT_0, k') \<and> permits k' = permits k"
  using assms unfolding semaphore_laws_def by (blast, blast, fastforce, blast, blast, blast, blast, blast)

lemma wait_times_enough:
  assumes "semaphore_laws api permits name s m" and "n \<le> permits k"
  shows "\<exists>k'. wait_times api n s k = (Return (), k') \<and> permits k' = permits k - n"
  using assms(2)
proof (induction n arbitrary: k)
  case (Suc n)
  then have "0 < permits k" by simp
  from sem_take [OF assms(1) this] obtain k1 where
    "WaitForSingleObject api s k = (WAIT_OBJECT_0, k1)" "permits k1 = permits k - 1" by blast
  with Suc.IH [of k1] Suc.prems show ?case by (auto simp: wait_object_def)
qed simp

lemma wait_times_short:
  assumes "semaphore_laws api permits name s m" and "permits k < n"
  shows "\<exists>k'. wait_times api n s k = (Block, k') \<and> permits k' = 0"
  using assms(2)
proof (induction n arbitrary: k)
  case (Suc n)
  show ?case
  proof (cases "permits k = 0")
    case True
    from sem_empty [OF assms(1) this] obtain k1 where
      "WaitForSingleObject api s k = (WAITING, k1)" "permits k1 = 0" by blast
    then show ?thesis by (simp add: wait_object_def)
  next
    case False
    then have "0 < permits k" by simp
    from sem_take [OF assms(1) this] obtain k1 where
      "WaitForSingleObject api s k = (WAIT_OBJECT_0, k1)" "permits k1 = permits k - 1" by blast
    with Suc.IH [of k1] Suc.prems False show ?thesis by (auto simp: wait_object_def)
  qed
qed simp

lemma lock_write_existing:
  assumes "semaphore_laws api permits name s m" and "length name \<le> MAX_PATH"
  obtains k2 where "permits k2 = permits k"
    and "lock_write api name k =
           chain (wait_times api IPCKV_MAX_LOCKS s k2) (\<lambda>_ k4.
             (Return \<lparr>semaphore_handle = Some s, mutex_handle = Some m\<rparr>, k4))"
proof -
  from mutex_open [OF assms(1)] obtain k1 where k1: "CreateMutexA api (name @ ''_mutex'') k = (Some m, k1)"
      "permits k1 = permits k" by blast
  from mutex_take [OF assms(1)] obtain k2 where k2: "WaitForSingleObject api m k1 = (WAIT_OBJECT_0, k2)"
      "permits k2 = permits k1" by blast
  from sem_open [OF assms(1)] obtain k3 where k3: "CreateSemaphoreA api 0 IPCKV_MAX_LOCKS name k2 = ((Some s, True), k3)"
      "permits k3 = permits k2" by blast
  from k1 k2 k3 assms(2) that [of k3] show ?thesis
    by (simp add: lock_write_def wait_object_def)
qed

section \<open>Properties\<close>

text \<open>A writer that finds the semaphore with all its permits takes every one of them, so that no
  reader or writer can enter, and its destructor gives all of them back.\<close>

theorem writer_takes_all_and_returns_all:
  assumes "semaphore_laws api permits name s m" and "length name \<le> MAX_PATH"
    and "permits k = IPCKV_MAX_LOCKS"
  shows "\<exists>l k1. make_lock api True name k = (Return l, k1) \<and> permits k1 = 0
           \<and> permits (destroy_lock api l k1) = IPCKV_MAX_LOCKS"
proof -
  from lock_write_existing [OF assms(1,2)] obtain k2 where k2: "permits k2 = permits k"
    "lock_write api name k =
           chain (wait_times api IPCKV_MAX_LOCKS s k2) (\<lambda>_ k4.
             (Return \<lparr>semaphore_handle = Some s, mutex_handle = Some m\<rparr>, k4))" by blast
  from wait_times_enough [OF assms(1), of IPCKV_MAX_LOCKS k2] k2(1) assms(3) obtain k3 where
    "wait_times api IPCKV_MAX_LOCKS s k2 = (Return (), k3)" "permits k3 = 0" by auto
  with k2(2) show ?thesis
    by (simp add: make_lock_def destroy_lock_def sem_close [OF assms(1)] sem_release [OF assms(1)]
        mutex_release [OF assms(1)])
qed

text \<open>A reader that opens the semaphore while another process holds a handle to it takes one
  permit, but its destructor asks for 24 to be released. With two or more permits left the release
  exceeds the maximum and fails, so one permit is lost for good; with exactly one permit left it
  succeeds and refills the semaphore to 24 although the other holders are still inside.\<close>

theorem reader_release_miscounts:
  assumes "semaphore_laws api permits name s m" and "length name \<le> MAX_PATH"
    and "0 < permits k" and "permits k \<le> IPCKV_MAX_LOCKS"
  shows "\<exists>l k1. make_lock api False name k = (Return l, k1)
           \<and> permits k1 = permits k - 1
           \<and> permits (destroy_lock api l k1) =
               (if permits k = 1 then IPCKV_MAX_LOCKS else permits k - 1)"
proof -
  from sem_open [OF assms(1)] obtain k1 where k1: "CreateSemaphoreA api IPCKV_MAX_LOCKS IPCKV_MAX_LOCKS name k
      = ((Some s, True), k1)" "permits k1 = permits k" by blast
  with assms(3) have "0 < permits k1" by simp
  from sem_take [OF assms(1) this] obtain k2 where
    k2: "WaitForSingleObject api s k1 = (WAIT_OBJECT_0, k2)" "permits k2 = permits k1 - 1" by blast
  show ?thesis
    using assms(2-4) k1 k2
    by (auto simp: make_lock_def lock_read_def wait_object_def destroy_lock_def
        sem_close [OF assms(1)] sem_release [OF assms(1)])
qed

text \<open>A writer that meets a semaphore with fewer than 24 permits, for instance after one
  overlapping reader has come and gone, swallows the remaining permits and then waits for a permit
  that nobody will release.\<close>

theorem writer_waits_forever_after_leak:
  assumes "semaphore_laws api permits name s m" and "length name \<le> MAX_PATH"
    and "permits k < IPCKV_MAX_LOCKS"
  shows "\<exists>k1. make_lock api True name k = (Block, k1) \<and> permits k1 = 0"
proof -
  from lock_write_existing [OF assms(1,2)] obtain k2 where k2: "permits k2 = permits k"
    "lock_write api name k =
           chain (wait_times api IPCKV_MAX_LOCKS s k2) (\<lambda>_ k4.
             (Return \<lparr>semaphore_handle = Some s, mutex_handle = Some m\<rparr>, k4))" by blast
  with wait_times_short [OF assms(1), of k2 IPCKV_MAX_LOCKS] assms(3) show ?thesis
    by (auto simp: make_lock_def)
qed

section \<open>A concrete kernel\<close>

text \<open>A kernel whose whole state is the permit count of the one semaphore; handle \<open>1\<close> is the semaphore
  and handle \<open>2\<close> the mutex.\<close>

definition toy_sync :: "nat win32_sync" where
  "toy_sync =
     \<lparr>CreateMutexA = (\<lambda>_ k. (Some 2, k)),
      CreateSemaphoreA = (\<lambda>_ _ _ k. ((Some 1, True), k)),
      WaitForSingleObject = (\<lambda>h k. if h = 1 then (if 0 < k then (WAIT_OBJECT_0, k - 1) else (WAITING, k))
                                   else (WAIT_OBJECT_0, k)),
      ReleaseSemaphore = (\<lambda>_ n k. if k + n \<le> IPCKV_MAX_LOCKS then k + n else k),
      ReleaseMutex = (\<lambda>_ k. k),
      CloseHandle = (\<lambda>_ k. k)\<rparr>"

lemma toy_sync_laws: "semaphore_laws toy_sync id ''kv'' 1 2"
  by (simp add: semaphore_laws_def toy_sync_def)

theorem writer_takes_all_and_returns_all_witness:
  "\<exists>l k1. make_lock toy_sync True ''kv'' 24 = (Return l, k1) \<and> k1 = 0
          \<and> destroy_lock toy_sync l k1 = 24"
  using writer_takes_all_and_returns_all [OF toy_sync_laws, of 24]
  by (simp add: MAX_PATH_def IPCKV_MAX_LOCKS_def)

theorem reader_release_miscounts_witness:
  "\<exists>l k1. make_lock toy_sync False ''kv'' 24 = (Return l, k1) \<and> destroy_lock toy_sync l k1 = 23"
  using reader_release_miscounts [OF toy_sync_laws, of 24]
  by (auto simp: MAX_PATH_def IPCKV_MAX_LOCKS_def)

theorem writer_waits_forever_after_leak_witness:
  "\<exists>k1. make_lock toy_sync True ''kv'' 23 = (Block, k1)"
  using writer_waits_forever_after_leak [OF toy_sync_laws, of 23]
  by (auto simp: MAX_PATH_def IPCKV_MAX_LOCKS_def)

end
