(* ===== verification/Ref_Ptr.thy ===== *)
theory Ref_Ptr
  imports Wrapper_Prelude
begin

text \<open>
  The reference counting pointer of the database library (\<^verbatim>\<open>ref_ptr.h\<close>), which holds the sessions,
  statements and results behind \<^verbatim>\<open>db\<close> objects. Objects live in an explicit store, so that a use after the
  object was deleted is a \<open>Crash\<close>; pointers are variables of that store. The theory shows, for every
  sequence of constructions, copies, assignments and destructions, that counts are exact, that no object
  is used after its deletion, and that an object is deleted with its last pointer and only once.
\<close>

section \<open>Objects and pointers\<close>

text \<open>\<open>counts\<close> holds the living objects with the value of \<^verbatim>\<open>count_\<close>, \<open>pointers\<close> the member \<^verbatim>\<open>p\<close> of each \<^verbatim>\<open>ref_ptr\<close> that
  exists, \<open>None\<close> for a null pointer as for a variable that does not exist, and \<open>deleted\<close> the objects
  deleted so far.\<close>

record store =
  counts :: "nat \<rightharpoonup> int"
  pointers :: "nat \<rightharpoonup> nat"
  deleted :: "nat list"

definition new_counted :: "nat \<Rightarrow> store \<Rightarrow> store" where
  "new_counted obj s = s\<lparr>counts := (counts s)(obj \<mapsto> 0)\<rparr>"

definition add_ref :: "nat \<Rightarrow> store \<Rightarrow> (int, store) result" where
  "add_ref obj s =
     (case counts s obj of
        None \<Rightarrow> (Crash, s)
      | Some n \<Rightarrow> (Return (n + 1), s\<lparr>counts := (counts s)(obj \<mapsto> n + 1)\<rparr>))"

definition del_ref :: "nat \<Rightarrow> store \<Rightarrow> (int, store) result" where
  "del_ref obj s =
     (case counts s obj of
        None \<Rightarrow> (Crash, s)
      | Some n \<Rightarrow> (Return (n - 1), s\<lparr>counts := (counts s)(obj \<mapsto> n - 1)\<rparr>))"

definition use_count :: "nat \<Rightarrow> store \<Rightarrow> (int, store) result" where
  "use_count obj s = (case counts s obj of None \<Rightarrow> (Crash, s) | Some n \<Rightarrow> (Return n, s))"

definition dispose :: "nat \<Rightarrow> store \<Rightarrow> store" where
  "dispose obj s = s\<lparr>counts := (counts s)(obj := None), deleted := deleted s @ [obj]\<rparr>"

text \<open>\<^verbatim>\<open>reset\<close>: the old object is given up before the new one is taken.\<close>

definition reset_ptr :: "nat \<Rightarrow> nat option \<Rightarrow> store \<Rightarrow> (unit, store) result" where
  "reset_ptr x v s =
     (if v = pointers s x then (Return (), s)
      else chain
        (case pointers s x of
           None \<Rightarrow> (Return (), s)
         | Some p \<Rightarrow>
             chain (del_ref p s) (\<lambda>n s1.
               (Return (), (if n = 0 then dispose p s1 else s1)\<lparr>pointers := (pointers s)(x := None)\<rparr>)))
        (\<lambda>_ s2.
           chain (case v of None \<Rightarrow> (Return 0, s2) | Some obj \<Rightarrow> add_ref obj s2) (\<lambda>_ s3.
             (Return (), s3\<lparr>pointers := (pointers s3)(x := v)\<rparr>))))"

definition construct :: "nat \<Rightarrow> nat option \<Rightarrow> store \<Rightarrow> (unit, store) result" where
  "construct x v s = reset_ptr x v (s\<lparr>pointers := (pointers s)(x := None)\<rparr>)"

definition copy_construct :: "nat \<Rightarrow> nat \<Rightarrow> store \<Rightarrow> (unit, store) result" where
  "copy_construct x other s = reset_ptr x (pointers s other) (s\<lparr>pointers := (pointers s)(x := None)\<rparr>)"

definition assign :: "nat \<Rightarrow> nat \<Rightarrow> store \<Rightarrow> (unit, store) result" where
  "assign x other s = reset_ptr x (pointers s other) s"

definition destroy :: "nat \<Rightarrow> store \<Rightarrow> (unit, store) result" where
  "destroy x s = reset_ptr x None s"

definition get_ptr :: "nat \<Rightarrow> store \<Rightarrow> nat option" where
  "get_ptr x s = pointers s x"

text \<open>\<^verbatim>\<open>operator->\<close> and \<^verbatim>\<open>operator*\<close>: the object is then used.\<close>

definition access :: "nat \<Rightarrow> store \<Rightarrow> (nat, store) result" where
  "access x s =
     (case pointers s x of
        None \<Rightarrow> (Throw ''cppdb::ref_ptr: attempt to access an empty object'', s)
      | Some obj \<Rightarrow> (case counts s obj of None \<Rightarrow> (Crash, s) | Some n \<Rightarrow> (Return obj, s)))"

section \<open>Runs\<close>

text \<open>What a program may do with objects and pointers: a new object has a fresh address and a variable is
  constructed when it does not point anywhere, from a living object or from another pointer.\<close>

datatype ptr_event =
    NewObject nat
  | Construct nat nat
  | CopyConstruct nat nat
  | Assign nat nat
  | ResetTo nat nat
  | Destroy nat

fun allowed :: "ptr_event \<Rightarrow> store \<Rightarrow> bool" where
  "allowed (NewObject obj) s \<longleftrightarrow> counts s obj = None \<and> obj \<notin> set (deleted s)"
| "allowed (Construct x obj) s \<longleftrightarrow> pointers s x = None \<and> counts s obj \<noteq> None"
| "allowed (CopyConstruct x y) s \<longleftrightarrow> pointers s x = None \<and> x \<noteq> y"
| "allowed (Assign x y) s \<longleftrightarrow> True"
| "allowed (ResetTo x obj) s \<longleftrightarrow> counts s obj \<noteq> None"
| "allowed (Destroy x) s \<longleftrightarrow> True"

fun do_event :: "ptr_event \<Rightarrow> store \<Rightarrow> (unit, store) result" where
  "do_event (NewObject obj) s = (Return (), new_counted obj s)"
| "do_event (Construct x obj) s = construct x (Some obj) s"
| "do_event (CopyConstruct x y) s = copy_construct x y s"
| "do_event (Assign x y) s = assign x y s"
| "do_event (ResetTo x obj) s = reset_ptr x (Some obj) s"
| "do_event (Destroy x) s = destroy x s"

definition empty_store :: store where
  "empty_store = \<lparr>counts = Map.empty, pointers = Map.empty, deleted = []\<rparr>"

inductive ptr_reachable :: "store \<Rightarrow> bool" where
  initial: "ptr_reachable empty_store"
| event: "ptr_reachable s \<Longrightarrow> allowed ev s \<Longrightarrow> ptr_reachable (snd (do_event ev s))"

section \<open>Exact counts\<close>

definition holders :: "nat \<Rightarrow> store \<Rightarrow> nat set" where
  "holders obj s = {x. pointers s x = Some obj}"

definition store_ok :: "store \<Rightarrow> bool" where
  "store_ok s \<longleftrightarrow> finite (dom (pointers s)) \<and> ran (pointers s) \<subseteq> dom (counts s)
     \<and> (\<forall>obj n. counts s obj = Some n \<longrightarrow> n = int (card (holders obj s)))
     \<and> distinct (deleted s) \<and> set (deleted s) \<inter> dom (counts s) = {}"

lemma finite_holders: "finite (dom (pointers s)) \<Longrightarrow> finite (holders obj s)"
  by (rule finite_subset [of _ "dom (pointers s)"]) (auto simp: holders_def)

text \<open>The two halves of \<^verbatim>\<open>reset\<close>: giving up the old object, and taking the new one.\<close>

definition release_ptr :: "nat \<Rightarrow> store \<Rightarrow> (unit, store) result" where
  "release_ptr x s =
     (case pointers s x of
        None \<Rightarrow> (Return (), s)
      | Some p \<Rightarrow>
          chain (del_ref p s) (\<lambda>n s1.
            (Return (), (if n = 0 then dispose p s1 else s1)\<lparr>pointers := (pointers s)(x := None)\<rparr>)))"

definition take_ptr :: "nat \<Rightarrow> nat option \<Rightarrow> store \<Rightarrow> (unit, store) result" where
  "take_ptr x v s =
     chain (case v of None \<Rightarrow> (Return 0, s) | Some obj \<Rightarrow> add_ref obj s) (\<lambda>_ s3.
       (Return (), s3\<lparr>pointers := (pointers s3)(x := v)\<rparr>))"

lemma reset_ptr_halves:
  "reset_ptr x v s = (if v = pointers s x then (Return (), s) else chain (release_ptr x s) (\<lambda>_. take_ptr x v))"
  by (simp add: reset_ptr_def release_ptr_def take_ptr_def [abs_def])

lemma store_okD:
  assumes "store_ok s"
  shows "finite (holders obj s)" "pointers s x = Some obj \<Longrightarrow> \<exists>n. counts s obj = Some n"
    "counts s obj = Some n \<Longrightarrow> n = int (card (holders obj s))"
  using assms finite_holders [of s obj] by (auto simp: store_ok_def ran_def)

lemma release_ok:
  assumes "store_ok s" and "pointers s x = Some p"
  shows "\<exists>s'. release_ptr x s = (Return (), s') \<and> store_ok s' \<and> pointers s' = (pointers s)(x := None)
     \<and> dom (counts s') = (if holders p s = {x} then dom (counts s) - {p} else dom (counts s))
     \<and> deleted s' = (if holders p s = {x} then deleted s @ [p] else deleted s)"
proof -
  obtain n where n: "counts s p = Some n" "n = int (card (holders p s))" using store_okD [OF assms(1)] assms(2) by blast
  have x: "x \<in> holders p s" "finite (holders p s)" using assms store_okD(1) by (auto simp: holders_def)
  then have c: "card (holders p s - {x}) = card (holders p s) - 1" "0 < card (holders p s)"
    by (auto simp: card_gt_0_iff)
  have last: "n - 1 = 0 \<longleftrightarrow> holders p s = {x}"
  proof
    assume "n - 1 = 0"
    then have "card (holders p s - {x}) = 0" using n(2) c by simp
    with x(2) have "holders p s - {x} = {}" by (metis card_0_eq finite_Diff)
    with x(1) show "holders p s = {x}" by auto
  qed (use n(2) in simp)
  let ?s' = "(if n - 1 = 0 then dispose p (s\<lparr>counts := (counts s)(p \<mapsto> n - 1)\<rparr>) else s\<lparr>counts := (counts s)(p \<mapsto> n - 1)\<rparr>)
      \<lparr>pointers := (pointers s)(x := None)\<rparr>"
  have r: "release_ptr x s = (Return (), ?s')" using assms(2) n(1) by (simp add: release_ptr_def del_ref_def)
  have h: "holders obj ?s' = holders obj s - {x}" for obj by (auto simp: holders_def dispose_def)
  have other: "obj \<noteq> p \<Longrightarrow> holders obj s - {x} = holders obj s" for obj using assms(2) by (auto simp: holders_def)
  have "store_ok ?s'"
    unfolding store_ok_def
  proof (intro conjI allI impI)
    show "finite (dom (pointers ?s'))" using assms(1) by (auto simp: store_ok_def)
    show "ran (pointers ?s') \<subseteq> dom (counts ?s')"
    proof
      fix obj assume "obj \<in> ran (pointers ?s')"
      then obtain y where y: "y \<noteq> x" "pointers s y = Some obj" by (auto simp: ran_def dispose_def split: if_splits)
      then obtain m where "counts s obj = Some m" using store_okD(2) [OF assms(1)] by blast
      moreover have "obj = p \<Longrightarrow> n - 1 \<noteq> 0" using y last by (auto simp: holders_def)
      ultimately show "obj \<in> dom (counts ?s')" by (auto simp: dispose_def)
    qed
    fix obj m assume "counts ?s' obj = Some m"
    then show "m = int (card (holders obj ?s'))"
      using n(2) c store_okD(3) [OF assms(1), of obj m] other [of obj] unfolding h
      by (auto simp: dispose_def of_nat_diff split: if_splits)
  next
    have "p \<notin> set (deleted s)" using assms(1) n(1) by (auto simp: store_ok_def)
    then show "distinct (deleted ?s')" "set (deleted ?s') \<inter> dom (counts ?s') = {}"
      using assms(1) by (auto simp: store_ok_def dispose_def)
  qed
  with r last n(1) show ?thesis by (auto simp: dispose_def)
qed

lemma take_ok:
  assumes "store_ok s" and "pointers s x = None" and "\<And>obj. v = Some obj \<Longrightarrow> counts s obj \<noteq> None"
  shows "\<exists>s'. take_ptr x v s = (Return (), s') \<and> store_ok s' \<and> pointers s' = (pointers s)(x := v)
     \<and> dom (counts s') = dom (counts s) \<and> deleted s' = deleted s"
proof (cases v)
  case None
  with assms(2) have "pointers s = (pointers s)(x := v)" by (metis fun_upd_triv)
  with None assms(1) show ?thesis by (auto simp: take_ptr_def)
next
  case (Some obj)
  with assms(3) obtain n where n: "counts s obj = Some n" by blast
  let ?s' = "s\<lparr>counts := (counts s)(obj \<mapsto> n + 1), pointers := (pointers s)(x := v)\<rparr>"
  have r: "take_ptr x v s = (Return (), ?s')" using Some n by (simp add: take_ptr_def add_ref_def)
  have x: "x \<notin> holders obj s" "finite (holders obj s)" using assms(1,2) store_okD(1) by (auto simp: holders_def)
  have h: "holders o' ?s' = (if o' = obj then insert x (holders obj s) else holders o' s)" for o'
    using Some assms(2) by (auto simp: holders_def)
  have "m = int (card (holders o' ?s'))" if "counts ?s' o' = Some m" for o' m
    using that x store_okD(3) [OF assms(1), of o' m] store_okD(3) [OF assms(1) n] unfolding h
    by (auto split: if_splits)
  moreover have "ran (pointers ?s') \<subseteq> dom (counts ?s')"
    using assms(1) Some by (auto simp: store_ok_def ran_def)
  ultimately have "store_ok ?s'" using assms(1) n by (auto simp: store_ok_def)
  with r n show ?thesis by auto
qed

text \<open>The whole \<^verbatim>\<open>reset\<close>. The object the pointer held dies exactly when this was its only pointer.\<close>

lemma reset_ok:
  assumes "store_ok s" and "\<And>obj. v = Some obj \<Longrightarrow> counts s obj \<noteq> None"
  shows "\<exists>s'. reset_ptr x v s = (Return (), s') \<and> store_ok s' \<and> pointers s' = (pointers s)(x := v)
     \<and> deleted s' = (case pointers s x of
          None \<Rightarrow> deleted s | Some p \<Rightarrow> if v \<noteq> Some p \<and> holders p s = {x} then deleted s @ [p] else deleted s)
     \<and> dom (counts s') = (case pointers s x of
          None \<Rightarrow> dom (counts s)
        | Some p \<Rightarrow> if v \<noteq> Some p \<and> holders p s = {x} then dom (counts s) - {p} else dom (counts s))"
proof (cases "v = pointers s x")
  case True
  then have "(pointers s)(x := v) = pointers s" by simp
  with True assms(1) show ?thesis by (auto simp: reset_ptr_halves split: option.splits)
next
  case False
  show ?thesis
  proof (cases "pointers s x")
    case None
    with False take_ok [where v = v, OF assms(1) None assms(2)] show ?thesis by (auto simp: reset_ptr_halves release_ptr_def)
  next
    case (Some p)
    from release_ok [OF assms(1) Some] obtain s1 where
      s1: "release_ptr x s = (Return (), s1)" "store_ok s1" "pointers s1 = (pointers s)(x := None)"
        "dom (counts s1) = (if holders p s = {x} then dom (counts s) - {p} else dom (counts s))"
        "deleted s1 = (if holders p s = {x} then deleted s @ [p] else deleted s)" by blast
    have "\<And>obj. v = Some obj \<Longrightarrow> counts s1 obj \<noteq> None"
      using assms(2) s1(4) False Some by (metis (no_types, lifting) DiffI domIff singletonD)
    moreover have "pointers s1 x = None" using s1(3) by simp
    ultimately obtain s2 where
      "take_ptr x v s1 = (Return (), s2)" "store_ok s2" "pointers s2 = (pointers s1)(x := v)"
      "dom (counts s2) = dom (counts s1)" "deleted s2 = deleted s1"
      using take_ok [where v = v, OF s1(2)] by blast
    with s1 False Some show ?thesis by (simp add: reset_ptr_halves)
  qed
qed

lemma ptr_event_ok:
  assumes "store_ok s" and "allowed ev s"
  shows "fst (do_event ev s) = Return () \<and> store_ok (snd (do_event ev s))"
proof -
  have none: "pointers s x = None \<Longrightarrow> s\<lparr>pointers := (pointers s)(x := None)\<rparr> = s" for x
    by (simp add: fun_upd_idem)
  have held: "pointers s y = Some obj \<Longrightarrow> counts s obj \<noteq> None" for y obj
    using store_okD(2) [OF assms(1)] by force
  show ?thesis
  proof (cases ev)
    case (NewObject obj)
    with assms have "holders obj s = {}" by (auto simp: holders_def store_ok_def ran_def)
    with NewObject assms show ?thesis by (auto simp: store_ok_def new_counted_def holders_def)
  next
    case (Construct x obj)
    with assms none reset_ok [OF assms(1), of "Some obj" x] show ?thesis by (auto simp: construct_def)
  next
    case (CopyConstruct x y)
    with assms none held reset_ok [OF assms(1), of "pointers s y" x] show ?thesis by (auto simp: copy_construct_def)
  next
    case (Assign x y)
    with held reset_ok [OF assms(1), of "pointers s y" x] show ?thesis by (auto simp: assign_def)
  next
    case (ResetTo x obj)
    with assms reset_ok [OF assms(1), of "Some obj" x] show ?thesis by auto
  next
    case (Destroy x)
    with reset_ok [OF assms(1), of None x] show ?thesis by (auto simp: destroy_def)
  qed
qed

lemma reachable_ok: "ptr_reachable s \<Longrightarrow> store_ok s"
proof (induction rule: ptr_reachable.induct)
  case initial
  show ?case by (simp add: store_ok_def empty_store_def)
next
  case (event s ev)
  then show ?case using ptr_event_ok by blast
qed

section \<open>Properties\<close>


text \<open>An object dies with its last pointer. Destroying a pointer deletes the object it holds exactly when
  no other pointer holds it; and an access never meets a deleted object: it throws on a null pointer and
  otherwise reaches the object.\<close>

theorem deleted_with_last_pointer:
  assumes "ptr_reachable s" and "pointers s x = Some obj"
  shows "(obj \<in> set (deleted (snd (destroy x s))) \<longleftrightarrow> holders obj s = {x}) \<and> access x s = (Return obj, s)"
proof -
  note ok = reachable_ok [OF assms(1)]
  have c: "counts s obj \<noteq> None" using store_okD(2) [OF ok assms(2)] by force
  with ok have "obj \<notin> set (deleted s)" by (auto simp: store_ok_def)
  moreover from reset_ok [OF ok, of None x] assms(2) obtain s' where
    "destroy x s = (Return (), s')" "deleted s' = (if holders obj s = {x} then deleted s @ [obj] else deleted s)"
    by (auto simp: destroy_def)
  ultimately show ?thesis using assms(2) c by (auto simp: access_def)
qed

section \<open>Witnesses\<close>

definition one_pointer :: store where
  "one_pointer = snd (do_event (Construct 0 7) (snd (do_event (NewObject 7) empty_store)))"

lemma one_pointer_reachable: "ptr_reachable one_pointer"
  unfolding one_pointer_def
  by (intro ptr_reachable.intros) (simp_all add: empty_store_def new_counted_def)

lemma one_pointer_facts: "pointers one_pointer = [0 \<mapsto> 7]" "counts one_pointer = [7 \<mapsto> 1]"
  by (simp_all add: one_pointer_def construct_def reset_ptr_def new_counted_def empty_store_def add_ref_def fun_upd_idem)


theorem deleted_with_last_pointer_witness:
  "7 \<in> set (deleted (snd (destroy 0 one_pointer))) \<and> access 0 one_pointer = (Return 7, one_pointer)"
proof -
  have "holders 7 one_pointer = {0}" by (auto simp: holders_def one_pointer_facts split: if_splits)
  moreover have "pointers one_pointer 0 = Some 7" by (simp add: one_pointer_facts)
  ultimately show ?thesis using deleted_with_last_pointer [OF one_pointer_reachable] by blast
qed

end
