(* ===== verification/Spec2Isabelle.thy ===== *)
theory Spec2Isabelle
  imports Runtime Http_Auth Rpc_Dispatch Msgpack_Zone Ipc_Lock Ref_Ptr
begin

text \<open>
  IISModuleJS: a native module for Internet Information Services that hosts a V8 engine and lets
  scripts answer HTTP requests. This library models the code of the module (\<^verbatim>\<open>src/IISModuleJS\<close>), the
  parts of \<^verbatim>\<open>src/Include\<close> that hold code it executes (v8pp conversions and modules, the gzip wrappers, the
  controller and lock of the shared key-value store, the HTTP client of \<^verbatim>\<open>httplib.h\<close>, the MessagePack library
  and the dispatcher of the RPC server of debug builds), and proves what makes it correct.

  \<^bold>\<open>The program.\<close> \<^verbatim>\<open>RegisterModule\<close> (\<^verbatim>\<open>main.cpp\<close>) starts the engine and subscribes to three notifications.
  \<^verbatim>\<open>start\<close> and \<^verbatim>\<open>load_and_watch\<close> (\<^verbatim>\<open>v8_wrapper.cpp\<close>) create the isolate, load the root script, and poll the
  write times of all loaded scripts; a change resets the engine and loads the root script again. A
  script calls \<^verbatim>\<open>register\<close> to set the function of a notification; \<^verbatim>\<open>handle_callback\<close> calls that function
  with a response and a request object and turns its result, or the settlement of the promise it
  returns, into a status for the server. Scripts use these two objects and the global modules \<^verbatim>\<open>fs\<close>,
  \<^verbatim>\<open>http\<close>, \<^verbatim>\<open>ipc\<close>, \<^verbatim>\<open>db\<close>, \<^verbatim>\<open>gzip\<close> and \<^verbatim>\<open>bcrypt\<close>. Long operations run on at most 24 detached workers and settle a
  promise under the V8 lock.

  \<^bold>\<open>The theories, in import order.\<close>
    \<^item> \<open>Wrapper_Prelude\<close>: byte and wide strings, the outcome of a callback (\<open>Return\<close>, \<open>Throw\<close>, \<open>Block\<close>
      for a wait that does not end, \<open>Crash\<close> for undefined behaviour and aborts), sequencing, the searches
      of \<^verbatim>\<open>std::basic_string\<close>, splitting at separators, and the interface \<open>memo_table\<close> of a cache.
    \<^item> \<open>V8_Values\<close>: JavaScript values and the v8pp conversions (\<^verbatim>\<open>convert.hpp\<close>), the translation of C++
      exceptions into script exceptions (\<^verbatim>\<open>function.hpp\<close>), \<^verbatim>\<open>Utf8ValueScoped\<close> and \<^verbatim>\<open>ArrayBufferScoped\<close>
      (\<^verbatim>\<open>v8_wrapper.h\<close>).
    \<^item> \<open>Path_Resolve\<close>: \<^verbatim>\<open>get_relative_file_path\<close>, its cache, and \<^verbatim>\<open>get_path\<close>. The dot-segment loop is shown
      total and equal to a stack of segments; the cache is an instance of \<open>memo_table\<close>; every result lies
      inside the filesystem directory.
    \<^item> \<open>Engine\<close>: the globals, \<^verbatim>\<open>start\<close>, \<^verbatim>\<open>reset_engine\<close>, \<^verbatim>\<open>initialize_objects\<close>, \<^verbatim>\<open>execute_string\<close>,
      \<^verbatim>\<open>execute_file\<close>, \<^verbatim>\<open>report_exception\<close>, \<^verbatim>\<open>vs_printf\<close>, the global functions \<^verbatim>\<open>print\<close>, \<^verbatim>\<open>load\<close>, \<^verbatim>\<open>register\<close> and
      \<^verbatim>\<open>fs.register\<close>, and the watching loop. The locale \<open>script_invariant\<close> lifts a property kept by every host
      action to whole scripts; its instances give the stability of a reload.
    \<^item> \<open>Dispatch\<close>: \<^verbatim>\<open>handle_callback\<close>, the notification methods, \<^verbatim>\<open>RegisterModule\<close> and the module factory.
      Sequences of notifications, settled promises and resets show that every held request is completed
      exactly once and that only legal statuses are returned.
    \<^item> \<open>Http_Context\<close>, \<open>Http_Response\<close>, \<open>Http_Request\<close>: the seventeen functions of the response and the
      thirteen of the request object. All of them satisfy the contract \<open>http_callback\<close> (the pointer is left
      alone, calls are only added, and a missing object or argument is refused without a call). The
      chunking of a written body, the assembly of a read body, and the reading and rewriting of the
      request entity are verified against what the server was given.
    \<^item> \<open>Thread_Pool\<close>: the frame of an asynchronous function as the interfaces \<open>async_callback\<close> and
      \<open>settling_callback\<close>, and the interleaving of script threads and workers as the step relation
      \<open>sched_step\<close>: the counter is exact and bounded, and admission under the V8 lock does not deadlock.
    \<^item> \<open>File_System\<close>: \<^verbatim>\<open>fs.copy\<close>, \<^verbatim>\<open>exists\<close>, \<^verbatim>\<open>delete\<close>, \<^verbatim>\<open>write\<close>, \<^verbatim>\<open>read\<close>, with the interface \<open>fs_callback\<close>
      and the confinement of all paths that reach the operating system.
    \<^item> \<open>Weak_Objects\<close>: objects with a native context, their collection and the count of external memory,
      shared by \<^verbatim>\<open>ipc\<close>, \<^verbatim>\<open>db\<close> and fetch response objects (interface \<open>weak_handle\<close>).
    \<^item> \<open>Ipc_Controller\<close>, \<open>Ipc_Lock\<close>, \<open>Ipc_Object\<close>: the double-buffered shared store of \<^verbatim>\<open>ipckv.h\<close>
      (interface \<open>double_buffered\<close>, atomicity of transactions), its semaphore lock, and the object the
      scripts use.
    \<^item> \<open>Http_Text\<close>, \<open>Http_Stream\<close>, \<open>Http_Message\<close>, \<open>Ssl_Verify\<close>, \<open>Http_Client\<close>: the HTTP client library (\<^verbatim>\<open>httplib.h\<close>) as
      \<^verbatim>\<open>http.fetch\<close> uses it. Base64 is shown equal to its specification and the URL encoding invertible; every
      stream that appends (interface \<open>output_stream\<close>) carries formatted text, headers and requests; the line
      reader stays inside its array; headers form an ordered multimap; headers, the three forms of bodies
      and whole requests are read back as they were written; the certificate check, which \<^verbatim>\<open>http.fetch\<close> switches
      off, accepts exactly the names with equal labels up to wildcards; responses are received as they were sent; a
      part of the state that no read changes is left alone by all readers (interface \<open>quiet_reader\<close>), which
      bounds the number of connections a call makes.
    \<^item> \<open>Gzip\<close>, \<open>Bcrypt\<close>, \<open>Fetch\<close>, \<open>Database\<close>: the remaining modules, each as the function on the script's
      thread, the worker, and the settlement. \<open>Fetch_Client\<close> runs the thread of \<^verbatim>\<open>http.fetch\<close> with the client
      library, from the bytes of the server to the object of the script. \<open>Ref_Ptr\<close> is the pointer class that
      holds the database library's objects: counts are exact and objects die with their last pointer.
    \<^item> \<open>Http_Auth\<close>: the rest of the client library's \<^verbatim>\<open>send\<close>: digest challenges and answers, proxies, and
      several requests over one connection. For a client as \<^verbatim>\<open>http.fetch\<close> makes it the whole function equals
      the one of \<open>Http_Client\<close>; challenges are parsed as they were printed; answers come back in order; and a
      server can keep a client with credentials sending for ever.
    \<^item> \<open>Module_Binding\<close>, \<open>Script_Api\<close>: \<^verbatim>\<open>v8pp::module\<close> as object templates (interface \<open>property_table\<close>) and the whole
      namespace that \<^verbatim>\<open>create_shell_context\<close> and \<^verbatim>\<open>initialize_objects\<close> build from it: which functions scripts
      reach under which names, and that the constants mean what they are called.
    \<^item> \<open>Runtime\<close>: all functions of the namespace on one state, with the receiver they are called on, the
      workers between start, release and settlement, the collection of objects and the beginning and end of
      requests, as one transition system. Its invariant, the settlement of all promises and what happens on
      a wrong receiver are proved for every interleaving.
    \<^item> \<open>Msgpack_Pack\<close>, \<open>Msgpack_Parse\<close>, \<open>Msgpack_Read\<close>, \<open>Msgpack_Object\<close>: the MessagePack library of the RPC server
      (\<^verbatim>\<open>src/Include/rpc/msgpack\<close>): the packers, the streaming parser for every visitor, and the visitor that
      builds objects in memory. All integer packers agree with one reference encoding; packed objects
      are read back as they were; the size of an extension can wrap around.
    \<^item> \<open>Msgpack_Buffer\<close>, \<open>Msgpack_Zone\<close>: the counted buffer of the unpacker (interface \<open>byte_queue\<close>), which
      refines a stream and keeps the bytes that objects point into; the zone, whose blocks never overlap;
      and the output buffer.
    \<^item> \<open>Rpc_Dispatch\<close>: the adaptors of bound functions (\<^verbatim>\<open>dispatcher.inl\<close>) and the function \<^verbatim>\<open>execute\<close> of the engine: a
      packed script is run, every other argument is refused.

  \<^bold>\<open>State.\<close> Each component's globals or fields are a record; an operation takes and returns it. What is
  outside the repository is an argument: the server (\<open>iis\<close>), Windows and the C library (\<open>file_api\<close>,
  \<open>win32_sync\<close>, \<open>disk\<close>), V8's own conversions and the scripts (\<open>v8\<close>, \<open>js_call\<close>, \<open>v8_objects\<close>), zlib,
  bcrypt, sockets and OpenSSL (\<open>network\<close>, \<open>digests\<close>), cppdb, \<^verbatim>\<open>malloc\<close>, and the store behind \<^verbatim>\<open>IPC_KV\<close>. Where a theorem needs documented behaviour
  of such code it is a named predicate (\<open>entity_laws\<close>, \<open>file_laws\<close>, \<open>semaphore_laws\<close>, \<open>deflate_laws\<close>,
  \<open>inflate_laws\<close>, \<open>bcrypt_laws\<close>, \<open>ipc_laws\<close>, \<open>source_laws\<close>, \<open>counts_connections\<close>, \<open>malloc_ok\<close>, \<open>fresh_malloc\<close>), and a witness instantiates it with a concrete function.

  \<^bold>\<open>Termination and fuel.\<close> Loops whose end depends on the library they call (the request reading loop, the
  two gzip loops, the loops of the HTTP client that read lines, headers, chunks and unbounded bodies) are
  partial functions with \<open>None\<close> for not returning; that they return is proved
  where it holds, and that \<^verbatim>\<open>decompress\<close> of an empty array does not return is proved as well. Scripts may
  load scripts, so execution takes fuel: \<open>(k + 1) * (rank + 1)\<close> is enough for scripts that make at most \<open>k\<close>
  host calls and whose loads are ordered by \<open>rank\<close>, and more fuel never changes a result. Templates are
  instantiated with fuel for their nesting; \<^verbatim>\<open>send\<close> with redirects and authentication takes fuel for its
  attempts, where \<open>redirect_count + 1\<close> is enough without credentials; several requests take at most one
  connection each. All other loops are total functions.

  \<^bold>\<open>Defects.\<close> Some theorems describe behaviour the code cannot intend: a reader's lock does not
  return its permit and a later writer waits for ever, a transaction that only sets the size of a slot
  is lost, the last chunk of a long body announces more data, a zero character in a file name leaves
  the filesystem directory, a failing \<^verbatim>\<open>fs.write\<close> keeps the file open, the watching loop leaks one
  handle per round, a collected \<^verbatim>\<open>db\<close> object pulls its context from a running worker, a fetched path without
  a slash is put on the request line as it is, a malformed chunk in a response ends the process, a function
  called on a foreign receiver uses a pointer of another kind, digest authentication names the wrong user and
  never gives up, and the MessagePack library loses the size of the largest extension and compares
  extensions without their last byte.

  \<^bold>\<open>Not modelled.\<close> V8, the server and the third-party libraries themselves; the sessions and the client
  of the RPC server, which are in a prebuilt library, and the adaptors of MessagePack for types that no bound
  function uses; the mapping of shared memory and the hash
  table of \<^verbatim>\<open>IPC_KV\<close>, whose code is a prebuilt library; the helper classes without a user
  (\<^verbatim>\<open>HttpContextHandler\<close>, \<^verbatim>\<open>PassthroughObject\<close>); the lines that workers print for debugging. Of the HTTP
  client library: the server classes, and the branches for handlers,
  content providers and progress callbacks, which nothing in the module switches on;
  the limits on recursion and complexity of the regular expression library; the build is taken to have
  64-bit sizes.

  The properties that concern one component stand at the end of its theory; those that combine several
  (a stored file, a fetched body and a compressed text on their way to the client) follow here.
\<close>

section \<open>Properties that span components\<close>

text \<open>A byte array that one function returned (\<^verbatim>\<open>Uint8Array::New\<close> over a buffer of its own), passed as an
  argument to the next.\<close>

definition fresh_array :: "bytes \<Rightarrow> js_value" where
  "fresh_array b = Uint8Array \<lparr>view_buffer = b, view_offset = 0, view_length = length b\<rparr>"

lemma body_argument_fresh [simp]: "body_argument 0 (fresh_array b) = Some b"
  by (simp add: body_argument_def fresh_array_def)

text \<open>A stored file can be served: a text written with \<^verbatim>\<open>fs.write\<close>, read back with
  \<^verbatim>\<open>fs.read(name, true)\<close> and passed to \<^verbatim>\<open>response.write\<close> reaches the client byte for byte.\<close>
theorem stored_file_is_served:
  assumes "file_laws api contents (wc_str (compute_path dir (two_byte name)))"
    and "coherent (compute_path dir) (cached_paths s)"
    and "length (utf8 t) < 2 ^ 31" and "length (utf8 t) \<le> max_string api"
    and "http_context x = Context q True" and "\<And>h. \<not> failed env h"
  shows "\<exists>s1 s2 x' b. fs_write api dir [Str name, Str t] s = (Return RUndefined, s1)
       \<and> fs_read api dir heap [Str name, Boolean True] s1 = (Return (RUint8Array b), s2)
       \<and> response_write env 0 [fresh_array b] x = (Return RUndefined, x')
       \<and> sent (calls x') = sent (calls x) @ utf8 t"
proof -
  have flag: "\<not> optional_flag [Str name, Str t] 2" "optional_flag [Str name, Boolean True] 1"
    by (simp_all add: optional_flag_def)
  from fs_write_contents [OF assms(1,2) refl, of t "[]"] flag(1) obtain s1 where
    w: "fs_write api dir [Str name, Str t] s = (Return RUndefined, s1)"
      "coherent (compute_path dir) (cached_paths s1)"
      "contents (file_calls s1) (wc_str (compute_path dir (two_byte name))) = Some (utf8 t)" by auto
  from fs_read_contents [OF assms(1) w(2) refl w(3) assms(3,4), of heap "[Boolean True]"] flag(2)
  obtain s2 where r: "fs_read api dir heap [Str name, Boolean True] s1 = (Return (RUint8Array (utf8 t)), s2)"
    by auto
  have "length (utf8 t) < 2 ^ 32" using assms(3) by simp
  from response_write_delivers [OF assms(5) body_argument_fresh this assms(6), of "[]"] w(1) r
  show ?thesis by blast
qed

theorem stored_file_is_served_witness:
  "\<exists>s1 s2 x' b. fs_write sample_files [67] [Str sample_name, Str sample_text] empty_fs = (Return RUndefined, s1)
     \<and> fs_read sample_files [67] (\<lambda>_. CHR 0x00) [Str sample_name, Boolean True] s1 = (Return (RUint8Array b), s2)
     \<and> response_write quiet_iis 0 [fresh_array b] fresh_http = (Return RUndefined, x')
     \<and> sent (calls x') = ''hi''"
proof -
  have "coherent (compute_path [67]) (cached_paths empty_fs)" by (simp add: empty_fs_def)
  from stored_file_is_served [OF sample_file_laws this _ _ hello_facts(1,4),
      where name = sample_name and t = sample_text and heap = "\<lambda>_. CHR 0x00"]
  show ?thesis by (simp add: sample_text_def sample_files_def fresh_http_def)
qed





end
